(* ===== verification/Prelude.thy ===== *)
theory Prelude
  imports Main "HOL-Library.Word" "HOL-Library.Sublist"
begin

text \<open>
  Shared vocabulary of the development. Rust's fixed-width integers are words,
  a Rust \<open>String\<close> is a \<open>string\<close> (one \<open>char\<close> per UTF-8 byte), a byte buffer is a
  list of 8-bit words and a \<open>Result\<close> is a sum whose left side is the error.
  Operations of the source that mutate state are functions from a state to a
  result and a new state; \<open>and_then\<close> is the \<open>?\<close> operator on them.

  The second half models the parts of the Rust standard library the program
  calls on strings: trimming, splitting, prefix stripping, decimal printing and
  parsing, UTF-8 validation. Case mapping and white space follow the ASCII
  definition; text outside ASCII is carried through unchanged.
\<close>

named_theorems monad_simps \<open>unfolding rules of the result and state combinators\<close>
named_theorems string_simps \<open>computation rules of the string library\<close>
named_theorems codec_simps \<open>round trips of the encoders\<close>

type_synonym u8 = "8 word"
type_synonym u16 = "16 word"
type_synonym u32 = "32 word"
type_synonym u64 = "64 word"
type_synonym bytes = "u8 list"

lemma unat_bound: "unat (w :: 'a::len word) < 2 ^ LENGTH('a)"
  by (rule unsigned_less)

section \<open>Results and state\<close>

type_synonym ('s, 'e, 'a) op = "'s \<Rightarrow> ('e + 'a) \<times> 's"

definition ret_ok :: "'a \<Rightarrow> ('s, 'e, 'a) op" where
  "ret_ok x s = (Inr x, s)"

definition ret_err :: "'e \<Rightarrow> ('s, 'e, 'a) op" where
  "ret_err e s = (Inl e, s)"

definition and_then :: "('s, 'e, 'a) op \<Rightarrow> ('a \<Rightarrow> ('s, 'e, 'b) op) \<Rightarrow> ('s, 'e, 'b) op" where
  "and_then m k s = (case m s of (Inl e, s') \<Rightarrow> (Inl e, s') | (Inr x, s') \<Rightarrow> k x s')"

definition map_err :: "('e \<Rightarrow> 'f) \<Rightarrow> ('s, 'e, 'a) op \<Rightarrow> ('s, 'f, 'a) op" where
  "map_err f m s = (case m s of (Inl e, s') \<Rightarrow> (Inl (f e), s') | (Inr x, s') \<Rightarrow> (Inr x, s'))"

definition ignore :: "('s, 'e, 'a) op \<Rightarrow> ('s, 'f, unit) op" where
  "ignore m s = (Inr (), snd (m s))"

text \<open>The result as a value, for code that inspects an error instead of passing it on.\<close>

definition attempt :: "('s, 'e, 'a) op \<Rightarrow> ('s, 'f, 'e + 'a) op" where
  "attempt m s = (Inr (fst (m s)), snd (m s))"

definition lift_res :: "('e + 'a) \<Rightarrow> ('s, 'e, 'a) op" where
  "lift_res r s = (r, s)"

definition on_error :: "('s, 'e, 'a) op \<Rightarrow> ('e \<Rightarrow> ('s, 'e, unit) op) \<Rightarrow> ('s, 'e, 'a) op" where
  "on_error m h s = (case m s of (Inl e, s') \<Rightarrow> (Inl e, snd (h e s')) | (Inr x, s') \<Rightarrow> (Inr x, s'))"

lemmas op_defs [monad_simps] =
  ret_ok_def ret_err_def and_then_def map_err_def ignore_def attempt_def lift_res_def on_error_def

lemma and_then_Inr:
  "and_then m k s = (Inr y, t) \<longleftrightarrow> (\<exists>x s'. m s = (Inr x, s') \<and> k x s' = (Inr y, t))"
  by (auto simp: and_then_def split: prod.splits sum.splits)

lemma and_then_Inl:
  "and_then m k s = (Inl e, t) \<longleftrightarrow>
     m s = (Inl e, t) \<or> (\<exists>x s'. m s = (Inr x, s') \<and> k x s' = (Inl e, t))"
  by (auto simp: and_then_def split: prod.splits sum.splits)

lemma map_err_Inr [simp]: "map_err f m s = (Inr x, t) \<longleftrightarrow> m s = (Inr x, t)"
  by (auto simp: map_err_def split: prod.splits sum.splits)

lemma map_err_Inl:
  "map_err f m s = (Inl e, t) \<longleftrightarrow> (\<exists>e'. m s = (Inl e', t) \<and> e = f e')"
  by (auto simp: map_err_def split: prod.splits sum.splits)

lemma snd_map_err [simp]: "snd (map_err f m s) = snd (m s)"
  by (auto simp: map_err_def split: prod.splits sum.splits)

lemma ret_ok_Inr [simp]: "ret_ok x s = (Inr y, t) \<longleftrightarrow> y = x \<and> t = s"
  by (auto simp: ret_ok_def)

lemma ret_ok_Inl [simp]: "ret_ok x s \<noteq> (Inl e, t)"
  by (simp add: ret_ok_def)

lemma ret_err_Inl [simp]: "ret_err x s = (Inl e, t) \<longleftrightarrow> e = x \<and> t = s"
  by (auto simp: ret_err_def)

lemma ret_err_Inr [simp]: "ret_err x s \<noteq> (Inr e, t)"
  by (simp add: ret_err_def)

text \<open>
  A preservation principle: a property of the state that every part keeps is kept by
  the composition.
\<close>

lemma snd_and_then:
  assumes "Q (snd (m s))"
    and "\<And>x s'. m s = (Inr x, s') \<Longrightarrow> Q s' \<Longrightarrow> Q (snd (k x s'))"
  shows "Q (snd (and_then m k s))"
  using assms by (cases "m s") (auto simp: and_then_def split: sum.splits)

section \<open>Strings\<close>

text \<open>\<open>char::is_whitespace\<close> on ASCII: tab, line feed, vertical tab, form feed, carriage return, space.\<close>

definition is_whitespace :: "char \<Rightarrow> bool" where
  "is_whitespace c \<longleftrightarrow> c = CHR '' '' \<or> (9 \<le> (of_char c :: nat) \<and> (of_char c :: nat) \<le> 13)"

definition trim_start :: "string \<Rightarrow> string" where
  "trim_start s = dropWhile is_whitespace s"

definition trim_end :: "string \<Rightarrow> string" where
  "trim_end s = rev (dropWhile is_whitespace (rev s))"

definition trim :: "string \<Rightarrow> string" where
  "trim s = trim_end (trim_start s)"

definition trim_matches :: "char \<Rightarrow> string \<Rightarrow> string" where
  "trim_matches c s = rev (dropWhile (\<lambda>x. x = c) (rev (dropWhile (\<lambda>x. x = c) s)))"

definition trim_end_matches :: "char \<Rightarrow> string \<Rightarrow> string" where
  "trim_end_matches c s = rev (dropWhile (\<lambda>x. x = c) (rev s))"

definition starts_with :: "string \<Rightarrow> string \<Rightarrow> bool" where
  "starts_with s p \<longleftrightarrow> prefix p s"

definition ends_with :: "string \<Rightarrow> string \<Rightarrow> bool" where
  "ends_with s p \<longleftrightarrow> suffix p s"

definition strip_prefix :: "string \<Rightarrow> string \<Rightarrow> string option" where
  "strip_prefix s p = (if prefix p s then Some (drop (length p) s) else None)"

definition strip_suffix :: "string \<Rightarrow> string \<Rightarrow> string option" where
  "strip_suffix s p = (if suffix p s then Some (take (length s - length p) s) else None)"

text \<open>\<open>str::trim_start_matches\<close> with a string pattern removes every leading copy of it.\<close>

function trim_start_matches :: "string \<Rightarrow> string \<Rightarrow> string" where
  "trim_start_matches s p =
     (if p \<noteq> [] \<and> prefix p s then trim_start_matches (drop (length p) s) p else s)"
  by pat_completeness auto
termination
  by (relation "measure (\<lambda>(s, p). length s)") (auto simp: prefix_def)

declare trim_start_matches.simps [simp del]

definition find_char :: "char \<Rightarrow> string \<Rightarrow> nat option" where
  "find_char c s = (let n = length (takeWhile (\<lambda>x. x \<noteq> c) s) in if n < length s then Some n else None)"

fun split_char :: "char \<Rightarrow> string \<Rightarrow> string list" where
  "split_char c [] = [[]]"
| "split_char c (x # xs) =
     (if x = c then [] # split_char c xs
      else (case split_char c xs of [] \<Rightarrow> [[x]] | w # ws \<Rightarrow> (x # w) # ws))"

definition split_whitespace :: "string \<Rightarrow> string list" where
  "split_whitespace s =
     filter (\<lambda>w. w \<noteq> []) (split_char CHR '' '' (map (\<lambda>c. if is_whitespace c then CHR '' '' else c) s))"

fun join :: "string \<Rightarrow> string list \<Rightarrow> string" where
  "join sep [] = []"
| "join sep [w] = w"
| "join sep (w # v # ws) = w @ sep @ join sep (v # ws)"

text \<open>\<open>str::lines\<close>: split at line feeds, an ending empty piece is dropped, a final carriage return of each line too.\<close>

definition strip_cr :: "string \<Rightarrow> string" where
  "strip_cr l = (case strip_suffix l [CHR 0x0D] of None \<Rightarrow> l | Some l' \<Rightarrow> l')"

definition lines :: "string \<Rightarrow> string list" where
  "lines s =
     (let ps = split_char CHR 0x0A s
      in map strip_cr (butlast ps) @ (if last ps = [] then [] else [strip_cr (last ps)]))"

definition to_upper :: "char \<Rightarrow> char" where
  "to_upper c = (if 97 \<le> (of_char c :: nat) \<and> (of_char c :: nat) \<le> 122
                 then char_of ((of_char c :: nat) - 32) else c)"

definition to_lower :: "char \<Rightarrow> char" where
  "to_lower c = (if 65 \<le> (of_char c :: nat) \<and> (of_char c :: nat) \<le> 90
                 then char_of ((of_char c :: nat) + 32) else c)"

definition to_uppercase :: "string \<Rightarrow> string" where
  "to_uppercase s = map to_upper s"

definition to_lowercase :: "string \<Rightarrow> string" where
  "to_lowercase s = map to_lower s"

section \<open>Decimal numbers\<close>

definition digit_char :: "nat \<Rightarrow> char" where
  "digit_char d = char_of (48 + d)"

definition is_digit :: "char \<Rightarrow> bool" where
  "is_digit c \<longleftrightarrow> 48 \<le> (of_char c :: nat) \<and> (of_char c :: nat) \<le> 57"

definition digit_val :: "char \<Rightarrow> nat" where
  "digit_val c = (of_char c :: nat) - 48"

fun dec :: "nat \<Rightarrow> string" where
  "dec n = (if n < 10 then [digit_char n] else dec (n div 10) @ [digit_char (n mod 10)])"

declare dec.simps [simp del]

definition dec_value :: "string \<Rightarrow> nat" where
  "dec_value s = foldl (\<lambda>acc c. 10 * acc + digit_val c) 0 s"

text \<open>
  \<open>str::parse\<close> for an unsigned type with largest value \<open>m\<close>: an optional plus sign, at least
  one digit, no overflow.
\<close>

definition parse_dec :: "nat \<Rightarrow> string \<Rightarrow> nat option" where
  "parse_dec m s =
     (let ds = (case s of c # cs \<Rightarrow> if c = CHR ''+'' then cs else s | [] \<Rightarrow> [])
      in if ds \<noteq> [] \<and> list_all is_digit ds \<and> dec_value ds \<le> m then Some (dec_value ds) else None)"

definition parse_u16 :: "string \<Rightarrow> u16 option" where
  "parse_u16 s = map_option of_nat (parse_dec (2 ^ 16 - 1) s)"

definition parse_u32 :: "string \<Rightarrow> u32 option" where
  "parse_u32 s = map_option of_nat (parse_dec (2 ^ 32 - 1) s)"

text \<open>
  The text of a \<open>ParseIntError\<close>. The digits are read from the left, so that a number that is
  already too large is reported before a later character that is no digit.
\<close>

fun overflows_first :: "nat \<Rightarrow> nat \<Rightarrow> string \<Rightarrow> bool" where
  "overflows_first m acc [] = False"
| "overflows_first m acc (c # cs) =
     (is_digit c \<and> (m < 10 * acc + digit_val c \<or> overflows_first m (10 * acc + digit_val c) cs))"

definition parse_int_error :: "nat \<Rightarrow> string \<Rightarrow> string" where
  "parse_int_error m s =
     (if s = [] then ''cannot parse integer from empty string''
      else if overflows_first m 0 (case s of c # cs \<Rightarrow> if c = CHR ''+'' then cs else s)
      then ''number too large to fit in target type''
      else ''invalid digit found in string'')"

definition parse_u32_res :: "string \<Rightarrow> string + u32" where
  "parse_u32_res s = (case parse_u32 s of Some n \<Rightarrow> Inr n | None \<Rightarrow> Inl (parse_int_error (2 ^ 32 - 1) s))"

definition show_word :: "'a::len word \<Rightarrow> string" where
  "show_word w = dec (unat w)"

lemma digit_char_props:
  assumes "d < 10"
  shows "is_digit (digit_char d)" and "digit_val (digit_char d) = d" and "digit_char d \<noteq> CHR ''+''"
proof -
  have v: "(of_char (digit_char d) :: nat) = 48 + d"
    using assms by (simp add: digit_char_def)
  show "is_digit (digit_char d)" and "digit_val (digit_char d) = d"
    using v assms by (simp_all add: is_digit_def digit_val_def)
  show "digit_char d \<noteq> CHR ''+''"
  proof
    assume "digit_char d = CHR ''+''"
    with v have "(of_char (CHR ''+'') :: nat) = 48 + d" by simp
    then show False by simp
  qed
qed

lemma dec_value_snoc [simp]: "dec_value (s @ [c]) = 10 * dec_value s + digit_val c"
  by (simp add: dec_value_def)

lemma dec_nonempty [simp]: "dec n \<noteq> []"
  by (subst dec.simps) simp

lemma dec_digits: "list_all is_digit (dec n)"
proof (induction n rule: dec.induct)
  case (1 n)
  then show ?case
    by (subst dec.simps) (auto simp: digit_char_props)
qed

lemma dec_value_dec [codec_simps]: "dec_value (dec n) = n"
proof (induction n rule: dec.induct)
  case (1 n)
  show ?case
  proof (cases "n < 10")
    case True
    then show ?thesis
      by (subst dec.simps) (simp add: dec_value_def digit_char_props)
  next
    case False
    with 1 show ?thesis
      by (subst dec.simps) (simp add: digit_char_props)
  qed
qed

lemma is_digit_not_plus: "is_digit c \<Longrightarrow> c \<noteq> CHR ''+''"
  by (auto simp: is_digit_def)

lemma parse_dec_dec [codec_simps]: "n \<le> m \<Longrightarrow> parse_dec m (dec n) = Some n"
proof -
  assume le: "n \<le> m"
  obtain c cs where s: "dec n = c # cs"
    using dec_nonempty [of n] by (cases "dec n") auto
  have "is_digit c" using dec_digits [of n] s by simp
  then have "c \<noteq> CHR ''+''" by (rule is_digit_not_plus)
  then show "parse_dec m (dec n) = Some n"
    using le dec_digits [of n] dec_value_dec [of n] s by (simp add: parse_dec_def Let_def)
qed

lemma parse_show_u32 [codec_simps]: "parse_u32 (show_word (w :: u32)) = Some w"
proof -
  have "unat w \<le> 2 ^ 32 - 1"
    using unat_bound [of w] by simp
  then show ?thesis
    by (simp add: parse_u32_def show_word_def parse_dec_dec)
qed

lemma parse_show_u16 [codec_simps]: "parse_u16 (show_word (w :: u16)) = Some w"
proof -
  have "unat w \<le> 2 ^ 16 - 1"
    using unat_bound [of w] by simp
  then show ?thesis
    by (simp add: parse_u16_def show_word_def parse_dec_dec)
qed

lemma parse_u32_res_Inr [simp]: "parse_u32_res s = Inr n \<longleftrightarrow> parse_u32 s = Some n"
  by (simp add: parse_u32_res_def split: option.splits)

section \<open>Lemmas on strings\<close>

lemma strip_prefix_append [simp]: "strip_prefix (p @ s) p = Some s"
  by (simp add: strip_prefix_def)

lemma strip_prefix_Some: "strip_prefix s p = Some t \<longleftrightarrow> s = p @ t"
  by (auto simp: strip_prefix_def prefix_def)

lemma strip_prefix_None: "strip_prefix s p = None \<longleftrightarrow> \<not> prefix p s"
  by (auto simp: strip_prefix_def)

lemma strip_suffix_append [simp]: "strip_suffix (s @ p) p = Some s"
  by (simp add: strip_suffix_def suffix_def)

lemma strip_suffix_Some: "strip_suffix s p = Some t \<longleftrightarrow> s = t @ p"
  by (auto simp: strip_suffix_def suffix_def)

lemma trim_id: "(\<And>c. c \<in> set s \<Longrightarrow> \<not> is_whitespace c) \<Longrightarrow> trim s = s"
proof -
  assume a: "\<And>c. c \<in> set s \<Longrightarrow> \<not> is_whitespace c"
  have "dropWhile is_whitespace t = t" if "set t = set s" for t
    using a that by (cases t) auto
  then show "trim s = s" by (simp add: trim_def trim_start_def trim_end_def)
qed

lemma split_char_nonempty [simp]: "split_char c s \<noteq> []"
  by (induction s) (auto split: list.splits)

lemma split_char_free: "w \<in> set (split_char c s) \<Longrightarrow> c \<notin> set w"
proof (induction s arbitrary: w)
  case Nil
  then show ?case by simp
next
  case (Cons x xs)
  obtain v vs where v: "split_char c xs = v # vs"
    by (cases "split_char c xs") auto
  show ?case
  proof (cases "x = c")
    case True
    with Cons show ?thesis by auto
  next
    case False
    with Cons v have "w = x # v \<or> w \<in> set vs" by simp
    with Cons.IH [of v] Cons.IH [of w] v False show ?thesis by auto
  qed
qed

lemma split_char_id: "c \<notin> set s \<Longrightarrow> split_char c s = [s]"
  by (induction s) auto

lemma split_char_append:
  "c \<notin> set w \<Longrightarrow> split_char c (w @ c # s) = w # split_char c s"
  by (induction w) auto

lemma split_join:
  assumes "ws \<noteq> []" and "\<And>w. w \<in> set ws \<Longrightarrow> c \<notin> set w"
  shows "split_char c (join [c] ws) = ws"
  using assms
proof (induction "[c]" ws rule: join.induct)
  case 1
  then show ?case by simp
next
  case (2 w)
  then show ?case by (simp add: split_char_id)
next
  case (3 w v ws)
  then show ?case by (simp add: split_char_append)
qed

lemma join_split: "join [c] (split_char c s) = s"
proof (induction s)
  case Nil
  then show ?case by simp
next
  case (Cons x xs)
  obtain v vs where v: "split_char c xs = v # vs"
    by (cases "split_char c xs") auto
  with Cons show ?case by (cases vs) auto
qed

lemma split_whitespace_words:
  assumes "w \<in> set (split_whitespace s)"
  shows "w \<noteq> []" and "\<forall>c \<in> set w. \<not> is_whitespace c"
proof -
  let ?blank = "\<lambda>c. if is_whitespace c then CHR '' '' else c"
  have w: "w \<in> set (split_char CHR '' '' (map ?blank s))" "w \<noteq> []"
    using assms by (auto simp: split_whitespace_def)
  then show "w \<noteq> []" by simp
  have sub: "set w \<subseteq> set (map ?blank s)"
    using w(1)
  proof (induction "map ?blank s" arbitrary: s w)
    case Nil
    then show ?case by simp
  next
    case (Cons x xs)
    obtain y ys where s: "s = y # ys" using Cons.hyps(2) by (cases s) auto
    obtain v vs where v: "split_char CHR '' '' xs = v # vs"
      by (cases "split_char CHR '' '' xs") auto
    have xs: "xs = map ?blank ys" using Cons.hyps(2) s by simp
    have IH: "u \<in> set (split_char CHR '' '' xs) \<Longrightarrow> set u \<subseteq> set xs" for u
      using Cons.hyps(1) [OF xs] xs by simp
    show ?case
      using Cons.prems IH [of v] IH [of w] v
      unfolding Cons.hyps(2) [symmetric] by (auto split: if_splits)
  qed
  have "CHR '' '' \<notin> set w" using w(1) by (rule split_char_free)
  with sub show "\<forall>c \<in> set w. \<not> is_whitespace c"
    by (auto split: if_splits)
qed

section \<open>Bytes and UTF-8\<close>

definition as_bytes :: "string \<Rightarrow> bytes" where
  "as_bytes s = map (\<lambda>c. of_nat (of_char c)) s"

definition of_bytes :: "bytes \<Rightarrow> string" where
  "of_bytes bs = map (\<lambda>b. char_of (unat b)) bs"

definition is_cont :: "u8 \<Rightarrow> bool" where
  "is_cont b \<longleftrightarrow> 128 \<le> b \<and> b \<le> 191"

text \<open>Well-formed UTF-8, as \<open>String::from_utf8\<close> checks it (Unicode table 3-7).\<close>

fun utf8_valid :: "bytes \<Rightarrow> bool" where
  "utf8_valid [] = True"
| "utf8_valid (a # bs) =
     (if a < 128 then utf8_valid bs
      else if 194 \<le> a \<and> a \<le> 223 then
        (case bs of b # r \<Rightarrow> is_cont b \<and> utf8_valid r | _ \<Rightarrow> False)
      else if 224 \<le> a \<and> a \<le> 239 then
        (case bs of b # c # r \<Rightarrow>
            is_cont b \<and> is_cont c \<and> (a = 224 \<longrightarrow> 160 \<le> b) \<and> (a = 237 \<longrightarrow> b \<le> 159) \<and> utf8_valid r
         | _ \<Rightarrow> False)
      else if 240 \<le> a \<and> a \<le> 244 then
        (case bs of b # c # d # r \<Rightarrow>
            is_cont b \<and> is_cont c \<and> is_cont d \<and> (a = 240 \<longrightarrow> 144 \<le> b) \<and> (a = 244 \<longrightarrow> b \<le> 143)
            \<and> utf8_valid r
         | _ \<Rightarrow> False)
      else False)"

definition from_utf8 :: "bytes \<Rightarrow> string option" where
  "from_utf8 bs = (if utf8_valid bs then Some (of_bytes bs) else None)"

lemma of_bytes_as_bytes [simp, codec_simps]: "of_bytes (as_bytes s) = s"
proof -
  have "char_of (unat (of_nat (of_char c) :: u8)) = c" for c :: char
    by (simp add: unat_of_nat)
  then show ?thesis by (simp add: of_bytes_def as_bytes_def comp_def)
qed

lemma as_bytes_of_bytes [simp, codec_simps]: "as_bytes (of_bytes bs) = bs"
proof -
  have "of_nat (of_char (char_of (unat b) :: char)) = b" for b :: u8
    using unat_bound [of b] by simp
  then show ?thesis by (simp add: of_bytes_def as_bytes_def comp_def)
qed

definition ascii :: "string \<Rightarrow> bool" where
  "ascii s \<longleftrightarrow> list_all (\<lambda>c. (of_char c :: nat) < 128) s"

lemma utf8_valid_small: "list_all (\<lambda>b. b < 128) bs \<Longrightarrow> utf8_valid bs"
  by (induction bs) auto

lemma from_utf8_ascii [simp]: "ascii s \<Longrightarrow> from_utf8 (as_bytes s) = Some s"
proof -
  assume a: "ascii s"
  have "of_nat (of_char c) < (128 :: u8)" if "(of_char c :: nat) < 128" for c :: char
    using that by (simp add: word_less_nat_alt unat_of_nat)
  with a have "list_all (\<lambda>b. b < 128) (as_bytes s)"
    by (auto simp: ascii_def as_bytes_def list_all_iff)
  then show ?thesis
    by (simp add: from_utf8_def utf8_valid_small)
qed

section \<open>Maps, lists and words\<close>

lemma map_of_filter_other:
  "k \<noteq> k' \<Longrightarrow> map_of (filter (\<lambda>p. fst p \<noteq> k) al) k' = map_of al k'"
  by (induction al) auto

lemma map_of_filter_self [simp]: "map_of (filter (\<lambda>p. fst p \<noteq> k) al) k = None"
  by (induction al) auto

lemma distinct_fst_filter: "distinct (map fst al) \<Longrightarrow> distinct (map fst (filter P al))"
  by (induction al) auto

section \<open>Invariants of step relations\<close>

text \<open>
  The contract between a step relation and an invariant: every step keeps it. The
  components that are state machines interpret it on their own step relation.
\<close>

locale invariant_system =
  fixes step :: "'s \<Rightarrow> 's \<Rightarrow> bool"
    and inv :: "'s \<Rightarrow> bool"
  assumes inv_step: "step s t \<Longrightarrow> inv s \<Longrightarrow> inv t"
begin

lemma inv_steps: "step\<^sup>*\<^sup>* s t \<Longrightarrow> inv s \<Longrightarrow> inv t"
  by (induction rule: rtranclp_induct) (auto intro: inv_step)

end

text \<open>A measure that every step raises bounds the length of runs.\<close>

locale ranked_system =
  fixes step :: "'s \<Rightarrow> 's \<Rightarrow> bool"
    and rank :: "'s \<Rightarrow> nat"
  assumes rank_step: "step s t \<Longrightarrow> rank s < rank t"
begin

lemma rank_steps: "(step ^^ n) s t \<Longrightarrow> rank s + n \<le> rank t"
proof (induction n arbitrary: t)
  case 0
  then show ?case by simp
next
  case (Suc n)
  then obtain u where "(step ^^ n) s u" and "step u t" by auto
  with Suc.IH [of u] rank_step [of u t] show ?case by simp
qed

lemma no_cycle: "\<not> step\<^sup>+\<^sup>+ s s"
proof
  assume "step\<^sup>+\<^sup>+ s s"
  then obtain n where "0 < n" and "(step ^^ n) s s"
    by (auto simp: tranclp_power)
  with rank_steps [of n s s] show False by simp
qed

end

end
