(* ===== verification/Packet_Bytes.thy ===== *)
theory Packet_Bytes
  imports Prelude
begin

text \<open>
  Byte-level arithmetic of packets: little-endian numbers, reading and overwriting a
  slice of a buffer, which bytes an update touches, and the 16-bit sum on which the
  Internet checksum is built. A checksum is correct when that sum is a multiple of 65535;
  this does not depend on the byte order in which the 16-bit words are read.
\<close>

section \<open>Little-endian numbers\<close>

fun le_nat :: "bytes \<Rightarrow> nat" where
  "le_nat [] = 0"
| "le_nat (b # bs) = unat b + 256 * le_nat bs"

fun le_bytes :: "nat \<Rightarrow> nat \<Rightarrow> bytes" where
  "le_bytes 0 v = []"
| "le_bytes (Suc k) v = of_nat (v mod 256) # le_bytes k (v div 256)"

lemma length_le_bytes [simp]: "length (le_bytes k v) = k"
  by (induction k arbitrary: v) auto

lemma le_nat_le_bytes: "le_nat (le_bytes k v) = v mod 256 ^ k"
proof (induction k arbitrary: v)
  case 0
  then show ?case by simp
next
  case (Suc k)
  have "v mod (256 * 256 ^ k) = 256 * (v div 256 mod 256 ^ k) + v mod 256"
    by (rule mod_mult2_eq)
  then show ?case
    using Suc by (simp add: unat_of_nat)
qed

lemma le_nat_bound: "le_nat bs < 256 ^ length bs"
proof (induction bs)
  case Nil
  then show ?case by simp
next
  case (Cons b bs)
  have "unat b < 256" using unat_bound [of b] by simp
  with Cons show ?case by simp
qed

lemma le_bytes_le_nat: "le_bytes (length bs) (le_nat bs) = bs"
proof (induction bs)
  case Nil
  then show ?case by simp
next
  case (Cons b bs)
  have b: "unat b < 256" using unat_bound [of b] by simp
  then have "(unat b + 256 * le_nat bs) mod 256 = unat b"
    and "(unat b + 256 * le_nat bs) div 256 = le_nat bs"
    by simp_all
  with Cons show ?case by simp
qed

definition swap_bytes16 :: "u16 \<Rightarrow> u16" where
  "swap_bytes16 w = of_nat (le_nat (rev (le_bytes 2 (unat w))))"

definition swap_bytes32 :: "u32 \<Rightarrow> u32" where
  "swap_bytes32 w = of_nat (le_nat (rev (le_bytes 4 (unat w))))"

section \<open>Slices\<close>

definition slice :: "nat \<Rightarrow> nat \<Rightarrow> 'a list \<Rightarrow> 'a list" where
  "slice off n p = take n (drop off p)"

definition put :: "nat \<Rightarrow> 'a list \<Rightarrow> 'a list \<Rightarrow> 'a list" where
  "put off bs p = take off p @ bs @ drop (off + length bs) p"

lemma length_slice: "off + n \<le> length p \<Longrightarrow> length (slice off n p) = n"
  by (simp add: slice_def)

lemma length_put [simp]: "off + length bs \<le> length p \<Longrightarrow> length (put off bs p) = length p"
  by (simp add: put_def)

lemma nth_put:
  assumes "off + length bs \<le> length p" and "i < length p"
  shows "put off bs p ! i = (if off \<le> i \<and> i < off + length bs then bs ! (i - off) else p ! i)"
  using assms by (auto simp: put_def nth_append)

lemma nth_slice: "i < n \<Longrightarrow> off + n \<le> length p \<Longrightarrow> slice off n p ! i = p ! (off + i)"
  by (simp add: slice_def)

lemma slice_put_same: "off + length bs \<le> length p \<Longrightarrow> slice off (length bs) (put off bs p) = bs"
  by (simp add: slice_def put_def)

lemma slice_put_other:
  assumes "off + length bs \<le> length p" and "o2 + n \<le> length p"
    and "o2 + n \<le> off \<or> off + length bs \<le> o2"
  shows "slice o2 n (put off bs p) = slice o2 n p"
proof (rule nth_equalityI)
  show "length (slice o2 n (put off bs p)) = length (slice o2 n p)"
    using assms by (simp add: slice_def)
  fix i assume "i < length (slice o2 n (put off bs p))"
  then have i: "i < n" using assms by (simp add: slice_def)
  show "slice o2 n (put off bs p) ! i = slice o2 n p ! i"
    using assms i by (auto simp: nth_slice nth_put)
qed

lemma slice_put_inner:
  assumes "off + length bs \<le> length p" and "o2 + n \<le> length p"
    and "o2 \<le> off" and "off + length bs \<le> o2 + n"
  shows "slice o2 n (put off bs p) = put (off - o2) bs (slice o2 n p)"
proof (rule nth_equalityI)
  have l: "length (slice o2 n p) = n" using assms by (simp add: length_slice)
  show "length (slice o2 n (put off bs p)) = length (put (off - o2) bs (slice o2 n p))"
    using assms l by (simp add: length_slice)
  fix i assume "i < length (slice o2 n (put off bs p))"
  then have i: "i < n" using assms by (simp add: length_slice)
  show "slice o2 n (put off bs p) ! i = put (off - o2) bs (slice o2 n p) ! i"
    using assms i l by (auto simp: nth_slice nth_put add.commute)
qed

lemma slice_slice: "a + m \<le> n \<Longrightarrow> slice a m (slice o2 n p) = slice (o2 + a) m p"
  by (simp add: slice_def drop_take add.commute min_def)

section \<open>Frames\<close>

definition agree_outside :: "nat set \<Rightarrow> 'a list \<Rightarrow> 'a list \<Rightarrow> bool" where
  "agree_outside A p q \<longleftrightarrow> length q = length p \<and> (\<forall>i < length p. i \<notin> A \<longrightarrow> q ! i = p ! i)"

lemma agree_refl [simp]: "agree_outside A p p"
  by (simp add: agree_outside_def)

lemma agree_trans: "agree_outside A p q \<Longrightarrow> agree_outside B q r \<Longrightarrow> agree_outside (A \<union> B) p r"
  by (simp add: agree_outside_def)

lemma agree_mono: "agree_outside A p q \<Longrightarrow> A \<subseteq> B \<Longrightarrow> agree_outside B p q"
  by (auto simp: agree_outside_def)

lemma agree_put: "off + length bs \<le> length p \<Longrightarrow> agree_outside {off..<off + length bs} p (put off bs p)"
  by (simp add: agree_outside_def nth_put)

lemma agree_length: "agree_outside A p q \<Longrightarrow> length q = length p"
  by (simp add: agree_outside_def)

lemma agree_slice:
  assumes "agree_outside A p q" and "off + n \<le> length p" and "A \<inter> {off..<off + n} = {}"
  shows "slice off n q = slice off n p"
proof (rule nth_equalityI)
  have l: "length q = length p" using assms(1) by (rule agree_length)
  show "length (slice off n q) = length (slice off n p)" using l by (simp add: slice_def)
  fix i assume "i < length (slice off n q)"
  then have i: "i < n" using l assms(2) by (simp add: slice_def)
  then have "off + i \<notin> A" using assms(3) by auto
  then show "slice off n q ! i = slice off n p ! i"
    using assms(1,2) i l by (simp add: nth_slice agree_outside_def)
qed

section \<open>The 16-bit sum\<close>

fun sum16 :: "bytes \<Rightarrow> nat" where
  "sum16 [] = 0"
| "sum16 [a] = unat a"
| "sum16 (a # b # r) = unat a + 256 * unat b + sum16 r"

text \<open>The same sum with the words read in network order, as RFC 1071 writes it.\<close>

fun sum16_be :: "bytes \<Rightarrow> nat" where
  "sum16_be [] = 0"
| "sum16_be [a] = 256 * unat a"
| "sum16_be (a # b # r) = 256 * unat a + unat b + sum16_be r"

definition csum_ok :: "bytes \<Rightarrow> bool" where
  "csum_ok bs \<longleftrightarrow> sum16 bs mod 65535 = 0"

lemma mod_fold16: "(a + 65536 * b) mod 65535 = (a + b) mod (65535 :: nat)"
proof -
  have "a + 65536 * b = (a + b) + b * 65535" by simp
  then show ?thesis by (simp only: mod_mult_self1)
qed

lemma sum16_be_le: "(256 * sum16 bs) mod 65535 = sum16_be bs mod 65535"
proof (induction bs rule: sum16.induct)
  case (3 a b r)
  have "(256 * sum16 (a # b # r)) mod 65535 = (256 * unat a + 256 * sum16 r + 65536 * unat b) mod 65535"
    by (simp add: algebra_simps)
  also have "\<dots> = (256 * unat a + 256 * sum16 r + unat b) mod 65535"
    by (rule mod_fold16)
  also have "\<dots> = (256 * unat a + unat b + 256 * sum16 r) mod 65535"
    by (simp add: ac_simps)
  also have "\<dots> = (256 * unat a + unat b + sum16_be r) mod 65535"
    using 3 by (metis mod_add_right_eq)
  finally show ?case by simp
qed simp_all

lemma csum_ok_network_order: "csum_ok bs \<longleftrightarrow> sum16_be bs mod 65535 = 0"
proof
  assume "csum_ok bs"
  then have "(256 * (sum16 bs mod 65535)) mod 65535 = 0" by (simp add: csum_ok_def)
  then show "sum16_be bs mod 65535 = 0" by (simp add: mod_mult_right_eq sum16_be_le)
next
  assume a: "sum16_be bs mod 65535 = 0"
  have "(256 * ((256 * sum16 bs) mod 65535)) mod 65535 = (65536 * sum16 bs) mod 65535"
    by (simp add: mod_mult_right_eq)
  also have "\<dots> = sum16 bs mod 65535" using mod_fold16 [of 0 "sum16 bs"] by simp
  finally show "csum_ok bs" using a by (simp add: sum16_be_le csum_ok_def)
qed

lemma sum16_append: "even (length xs) \<Longrightarrow> sum16 (xs @ ys) = sum16 xs + sum16 ys"
  by (induction xs rule: sum16.induct) auto

lemma sum16_put:
  assumes "even off" and "even (length bs)" and "off + length bs \<le> length p"
  shows "sum16 (put off bs p) + sum16 (slice off (length bs) p) = sum16 p + sum16 bs"
proof -
  have p: "p = take off p @ slice off (length bs) p @ drop (off + length bs) p"
    by (metis add.commute append_take_drop_id drop_drop slice_def)
  have "sum16 p = sum16 (take off p) + (sum16 (slice off (length bs) p) + sum16 (drop (off + length bs) p))"
    using assms by (subst p) (simp add: sum16_append length_slice)
  moreover have "sum16 (put off bs p) = sum16 (take off p) + (sum16 bs + sum16 (drop (off + length bs) p))"
    using assms by (simp add: put_def sum16_append)
  ultimately show ?thesis by simp
qed

lemma list_length_4:
  assumes "length xs = 4"
  obtains a b c d where "xs = [a, b, c, d]"
  using assms by (auto simp: numeral_eq_Suc length_Suc_conv)

lemma list_length_2:
  assumes "length xs = 2"
  obtains a b where "xs = [a, b]"
  using assms by (auto simp: numeral_eq_Suc length_Suc_conv)

lemma sum16_2: "length bs = 2 \<Longrightarrow> sum16 bs = le_nat bs"
  by (erule list_length_2) simp

lemma sum16_4: "length bs = 4 \<Longrightarrow> sum16 bs mod 65535 = le_nat bs mod 65535"
proof (erule list_length_4)
  fix a b c d assume bs: "bs = [a, b, c, d]"
  have "le_nat bs = (unat a + 256 * unat b) + 65536 * (unat c + 256 * unat d)"
    using bs by simp
  moreover have "sum16 bs = (unat a + 256 * unat b) + (unat c + 256 * unat d)"
    using bs by simp
  ultimately show "sum16 bs mod 65535 = le_nat bs mod 65535"
    by (simp only: mod_fold16)
qed

lemma mod_add_cancel: "(x + k) mod m = (y + k) mod m \<Longrightarrow> x mod m = y mod (m :: nat)"
proof -
  assume "(x + k) mod m = (y + k) mod m"
  then have "(int x + int k) mod int m = (int y + int k) mod int m"
    by (metis of_nat_add zmod_int)
  then have "(int x + int k - int k) mod int m = (int y + int k - int k) mod int m"
    by (rule mod_diff_cong) simp
  then show "x mod m = y mod m"
    by (metis add_diff_cancel_right' of_nat_eq_iff zmod_int)
qed

lemma mod_add_both: "a mod m = b mod m \<Longrightarrow> c mod m = d mod m \<Longrightarrow> (a + c) mod m = (b + d) mod (m :: nat)"
  by (metis mod_add_eq)

text \<open>Overwriting bytes inside a region changes the region's sum by the difference of the bytes' sums.\<close>

lemma sum16_region_put:
  assumes "o2 \<le> off" and "off + length bs \<le> o2 + n" and "o2 + n \<le> length p"
    and "even (off - o2)" and "even (length bs)"
  shows "sum16 (slice o2 n (put off bs p)) + sum16 (slice off (length bs) p) = sum16 (slice o2 n p) + sum16 bs"
proof -
  have "slice o2 n (put off bs p) = put (off - o2) bs (slice o2 n p)"
    using assms by (intro slice_put_inner) simp_all
  moreover have "slice (off - o2) (length bs) (slice o2 n p) = slice off (length bs) p"
    using assms by (simp add: slice_slice)
  ultimately show ?thesis
    using sum16_put [of "off - o2" bs "slice o2 n p"] assms by (simp add: length_slice)
qed

end
