(* ===== verification/Microvisor_Common.thy ===== *)
theory Microvisor_Common
  imports Packet_Bytes
begin

text \<open>
  The types the control plane shares with the packet programs,
  \<^verbatim>\<open>control-plane/microvisor-common/src/lib.rs\<close>: the entry of the \<open>VM_CONFIG\<close> map, in the byte
  order of the wire. \<open>to_be\<close> is Rust's conversion to big-endian on a little-endian machine.
\<close>

record VmConfig =
  host_ip :: u32
  guest_ip :: u32
  mac :: bytes
  pad :: bytes

definition to_be :: "u32 \<Rightarrow> u32" where
  "to_be w = swap_bytes32 w"

lemma le_bytes_swap32: "le_bytes 4 (unat (swap_bytes32 w)) = rev (le_bytes 4 (unat w))"
proof -
  let ?r = "rev (le_bytes 4 (unat w))"
  have "unat (swap_bytes32 w) = le_nat ?r"
    using le_nat_bound [of ?r] by (simp add: swap_bytes32_def unat_of_nat)
  then show ?thesis
    using le_bytes_le_nat [of ?r] by simp
qed

text \<open>Stored in memory, \<open>to_be w\<close> is the number \<open>w\<close> with its most significant byte first.\<close>

lemma to_be_bytes: "le_bytes 4 (unat (to_be w)) = rev (le_bytes 4 (unat w))"
  by (simp add: to_be_def le_bytes_swap32)

end
