(* ===== verification/Ebpf_Nat.thy ===== *)
theory Ebpf_Nat
  imports Microvisor_Common
begin

unbundle bit_operations_syntax

text \<open>
  The traffic-control programs of \<^verbatim>\<open>control-plane/microvisor-ebpf/src/main.rs\<close>. A packet is its bytes; the
  programs return an action and the rewritten packet. The target is little-endian
  (\<open>bpfel\<close>), so a load of a multi-byte field reads the bytes in little-endian order and a
  constant in network order is the byte-swapped number.

  The kernel's packet helpers (load, store and incremental checksum update) are not part
  of the program: they are the argument \<open>h\<close>, and \<open>skb_helpers\<close> states what their manual
  page promises. \<open>VM_CONFIG.get(0)\<close> is the argument \<open>cfg\<close>.

  The lemmas show that the guards of the egress program cannot be bypassed by an IPv4
  frame, that failures drop, that both programs change nothing but the address and the
  checksum fields, and that the IP, TCP and UDP checksums stay correct for whole packets without IP options; the ICMP checksum
  of a rewritten ICMP error does not.
\<close>

section \<open>Constants\<close>

definition ETH_HDR_LEN :: nat where "ETH_HDR_LEN = 14"
definition IP_HDR_LEN :: nat where "IP_HDR_LEN = 20"
definition ETH_PROTO_OFF :: nat where "ETH_PROTO_OFF = 12"
definition IP_PROTO_OFF :: nat where "IP_PROTO_OFF = ETH_HDR_LEN + 9"
definition IP_CSUM_OFF :: nat where "IP_CSUM_OFF = ETH_HDR_LEN + 10"
definition IP_SRC_OFF :: nat where "IP_SRC_OFF = ETH_HDR_LEN + 12"
definition IP_DST_OFF :: nat where "IP_DST_OFF = ETH_HDR_LEN + 16"
definition TCP_CSUM_OFF :: nat where "TCP_CSUM_OFF = ETH_HDR_LEN + IP_HDR_LEN + 16"
definition UDP_CSUM_OFF :: nat where "UDP_CSUM_OFF = ETH_HDR_LEN + IP_HDR_LEN + 6"
definition ICMP_CSUM_OFF :: nat where "ICMP_CSUM_OFF = ETH_HDR_LEN + IP_HDR_LEN + 2"
definition ICMP_TYPE_OFF :: nat where "ICMP_TYPE_OFF = ETH_HDR_LEN + IP_HDR_LEN"
definition INNER_IP_OFF :: nat where "INNER_IP_OFF = ETH_HDR_LEN + IP_HDR_LEN + 8"
definition INNER_IP_CSUM_OFF :: nat where "INNER_IP_CSUM_OFF = INNER_IP_OFF + 10"
definition INNER_IP_SRC_OFF :: nat where "INNER_IP_SRC_OFF = INNER_IP_OFF + 12"
definition INNER_IP_DST_OFF :: nat where "INNER_IP_DST_OFF = INNER_IP_OFF + 16"
definition MIN_ICMP_ERROR_LEN :: u32 where "MIN_ICMP_ERROR_LEN = of_nat (INNER_IP_DST_OFF + 4)"

lemmas offset_defs =
  ETH_HDR_LEN_def IP_HDR_LEN_def ETH_PROTO_OFF_def IP_PROTO_OFF_def IP_CSUM_OFF_def IP_SRC_OFF_def
  IP_DST_OFF_def TCP_CSUM_OFF_def UDP_CSUM_OFF_def ICMP_CSUM_OFF_def ICMP_TYPE_OFF_def INNER_IP_OFF_def
  INNER_IP_CSUM_OFF_def INNER_IP_SRC_OFF_def INNER_IP_DST_OFF_def MIN_ICMP_ERROR_LEN_def

definition ETH_P_IP_NBO :: u16 where "ETH_P_IP_NBO = swap_bytes16 0x0800"
definition IPPROTO_TCP :: u8 where "IPPROTO_TCP = 6"
definition IPPROTO_UDP :: u8 where "IPPROTO_UDP = 17"
definition IPPROTO_ICMP :: u8 where "IPPROTO_ICMP = 1"
definition ICMP_DEST_UNREACH :: u8 where "ICMP_DEST_UNREACH = 3"
definition ICMP_TIME_EXCEEDED :: u8 where "ICMP_TIME_EXCEEDED = 11"
definition GUEST_IP_NBO :: u32 where "GUEST_IP_NBO = swap_bytes32 0xA9FE0102"
definition METADATA_IP_NBO :: u32 where "METADATA_IP_NBO = swap_bytes32 0xA9FEA9FE"
definition BPF_F_PSEUDO_HDR :: u64 where "BPF_F_PSEUDO_HDR = 0x10"
definition BPF_F_MARK_MANGLED_0 :: u64 where "BPF_F_MARK_MANGLED_0 = 0x20"

text \<open>The actions of \<^verbatim>\<open>linux/pkt_cls.h\<close> the programs return.\<close>

definition TC_ACT_SHOT :: u32 where "TC_ACT_SHOT = 2"
definition TC_ACT_PIPE :: u32 where "TC_ACT_PIPE = 3"

lemmas proto_defs = IPPROTO_TCP_def IPPROTO_UDP_def IPPROTO_ICMP_def
lemmas action_defs = TC_ACT_SHOT_def TC_ACT_PIPE_def

section \<open>Packet helpers\<close>

record helpers =
  skb_load :: "bytes \<Rightarrow> nat \<Rightarrow> nat \<Rightarrow> bytes option"
  skb_store :: "bytes \<Rightarrow> nat \<Rightarrow> bytes \<Rightarrow> bytes option"
  l3_csum_replace :: "bytes \<Rightarrow> nat \<Rightarrow> u64 \<Rightarrow> u64 \<Rightarrow> u64 \<Rightarrow> bytes option"
  l4_csum_replace :: "bytes \<Rightarrow> nat \<Rightarrow> u64 \<Rightarrow> u64 \<Rightarrow> u64 \<Rightarrow> bytes option"

definition ctx_load :: "helpers \<Rightarrow> nat \<Rightarrow> (bytes, unit, 'w::len word) op" where
  "ctx_load h off p =
     (case skb_load h p off (LENGTH('w) div 8) of
        Some bs \<Rightarrow> (Inr (of_nat (le_nat bs)), p)
      | None \<Rightarrow> (Inl (), p))"

definition ctx_store :: "helpers \<Rightarrow> nat \<Rightarrow> u32 \<Rightarrow> (bytes, unit, unit) op" where
  "ctx_store h off v p =
     (case skb_store h p off (le_bytes 4 (unat v)) of Some q \<Rightarrow> (Inr (), q) | None \<Rightarrow> (Inl (), p))"

definition ctx_l3_csum :: "helpers \<Rightarrow> nat \<Rightarrow> u32 \<Rightarrow> u32 \<Rightarrow> u64 \<Rightarrow> (bytes, unit, unit) op" where
  "ctx_l3_csum h off from to sz p =
     (case l3_csum_replace h p off (ucast from) (ucast to) sz of Some q \<Rightarrow> (Inr (), q) | None \<Rightarrow> (Inl (), p))"

definition ctx_l4_csum :: "helpers \<Rightarrow> nat \<Rightarrow> u32 \<Rightarrow> u32 \<Rightarrow> u64 \<Rightarrow> (bytes, unit, unit) op" where
  "ctx_l4_csum h off from to flags p =
     (case l4_csum_replace h p off (ucast from) (ucast to) flags of Some q \<Rightarrow> (Inr (), q) | None \<Rightarrow> (Inl (), p))"

definition ctx_len :: "bytes \<Rightarrow> u32" where
  "ctx_len p = of_nat (length p)"

section \<open>Egress\<close>

definition egress_l4 :: "helpers \<Rightarrow> u8 \<Rightarrow> u32 \<Rightarrow> u32 \<Rightarrow> (bytes, unit, unit) op" where
  "egress_l4 h protocol src_ip hip =
     (if protocol = IPPROTO_TCP then
        ctx_l4_csum h TCP_CSUM_OFF src_ip hip (BPF_F_PSEUDO_HDR OR 4)
      else if protocol = IPPROTO_UDP then
        and_then (ctx_load h UDP_CSUM_OFF) (\<lambda>udp_csum :: u16.
          if udp_csum \<noteq> 0
          then ctx_l4_csum h UDP_CSUM_OFF src_ip hip (BPF_F_PSEUDO_HDR OR BPF_F_MARK_MANGLED_0 OR 4)
          else ret_ok ())
      else if protocol = IPPROTO_ICMP then
        and_then (ctx_load h ICMP_TYPE_OFF) (\<lambda>icmp_type :: u8. \<lambda>p.
          if (icmp_type = ICMP_DEST_UNREACH \<or> icmp_type = ICMP_TIME_EXCEEDED) \<and> MIN_ICMP_ERROR_LEN \<le> ctx_len p
          then and_then (ctx_load h INNER_IP_DST_OFF) (\<lambda>inner_dst :: u32.
                 if inner_dst = GUEST_IP_NBO
                 then and_then (ctx_store h INNER_IP_DST_OFF hip) (\<lambda>_.
                      and_then (ctx_l3_csum h INNER_IP_CSUM_OFF inner_dst hip 4) (\<lambda>_.
                      ctx_l4_csum h ICMP_CSUM_OFF inner_dst hip 4))
                 else ret_ok ()) p
          else ret_ok () p)
      else ret_ok ())"

definition try_egress :: "helpers \<Rightarrow> VmConfig option \<Rightarrow> (bytes, unit, u32) op" where
  "try_egress h cfg =
     and_then (ctx_load h ETH_PROTO_OFF) (\<lambda>ethertype :: u16.
     if ethertype \<noteq> ETH_P_IP_NBO then ret_ok TC_ACT_PIPE
     else and_then (ctx_load h IP_SRC_OFF) (\<lambda>src_ip :: u32.
          and_then (ctx_load h IP_DST_OFF) (\<lambda>dst_ip :: u32.
          and_then (ctx_load h IP_PROTO_OFF) (\<lambda>protocol :: u8.
          if dst_ip = METADATA_IP_NBO then ret_ok TC_ACT_SHOT
          else if src_ip \<noteq> GUEST_IP_NBO then ret_ok TC_ACT_SHOT
          else (case cfg of
                  None \<Rightarrow> ret_err ()
                | Some config \<Rightarrow>
                    (let hip = host_ip config
                     in and_then (ctx_store h IP_SRC_OFF hip) (\<lambda>_.
                        and_then (ctx_l3_csum h IP_CSUM_OFF src_ip hip 4) (\<lambda>_.
                        and_then (egress_l4 h protocol src_ip hip) (\<lambda>_.
                        ret_ok TC_ACT_PIPE)))))))))"

definition tc_egress :: "helpers \<Rightarrow> VmConfig option \<Rightarrow> bytes \<Rightarrow> u32 \<times> bytes" where
  "tc_egress h cfg p =
     (case try_egress h cfg p of (Inr action, q) \<Rightarrow> (action, q) | (Inl _, q) \<Rightarrow> (TC_ACT_SHOT, q))"

section \<open>Ingress\<close>

definition ingress_l4 :: "helpers \<Rightarrow> u8 \<Rightarrow> u32 \<Rightarrow> u32 \<Rightarrow> (bytes, unit, unit) op" where
  "ingress_l4 h protocol dst_ip hip =
     (if protocol = IPPROTO_TCP then
        ctx_l4_csum h TCP_CSUM_OFF dst_ip GUEST_IP_NBO (BPF_F_PSEUDO_HDR OR 4)
      else if protocol = IPPROTO_UDP then
        and_then (ctx_load h UDP_CSUM_OFF) (\<lambda>udp_csum :: u16.
          if udp_csum \<noteq> 0
          then ctx_l4_csum h UDP_CSUM_OFF dst_ip GUEST_IP_NBO (BPF_F_PSEUDO_HDR OR BPF_F_MARK_MANGLED_0 OR 4)
          else ret_ok ())
      else if protocol = IPPROTO_ICMP then
        and_then (ctx_load h ICMP_TYPE_OFF) (\<lambda>icmp_type :: u8. \<lambda>p.
          if (icmp_type = ICMP_DEST_UNREACH \<or> icmp_type = ICMP_TIME_EXCEEDED) \<and> MIN_ICMP_ERROR_LEN \<le> ctx_len p
          then and_then (ctx_load h INNER_IP_SRC_OFF) (\<lambda>inner_src :: u32.
                 if inner_src = hip
                 then and_then (ctx_store h INNER_IP_SRC_OFF GUEST_IP_NBO) (\<lambda>_.
                      and_then (ctx_l3_csum h INNER_IP_CSUM_OFF inner_src GUEST_IP_NBO 4) (\<lambda>_.
                      ctx_l4_csum h ICMP_CSUM_OFF inner_src GUEST_IP_NBO 4))
                 else ret_ok ()) p
          else ret_ok () p)
      else ret_ok ())"

definition try_ingress :: "helpers \<Rightarrow> VmConfig option \<Rightarrow> (bytes, unit, u32) op" where
  "try_ingress h cfg =
     and_then (ctx_load h ETH_PROTO_OFF) (\<lambda>ethertype :: u16.
     if ethertype \<noteq> ETH_P_IP_NBO then ret_ok TC_ACT_PIPE
     else and_then (ctx_load h IP_DST_OFF) (\<lambda>dst_ip :: u32.
          (case cfg of
             None \<Rightarrow> ret_err ()
           | Some config \<Rightarrow>
               (let hip = host_ip config
                in if dst_ip \<noteq> hip then ret_ok TC_ACT_PIPE
                   else and_then (ctx_load h IP_PROTO_OFF) (\<lambda>protocol :: u8.
                        and_then (ctx_store h IP_DST_OFF GUEST_IP_NBO) (\<lambda>_.
                        and_then (ctx_l3_csum h IP_CSUM_OFF dst_ip GUEST_IP_NBO 4) (\<lambda>_.
                        and_then (ingress_l4 h protocol dst_ip hip) (\<lambda>_.
                        ret_ok TC_ACT_PIPE))))))))"

definition tc_ingress :: "helpers \<Rightarrow> VmConfig option \<Rightarrow> bytes \<Rightarrow> u32 \<times> bytes" where
  "tc_ingress h cfg p =
     (case try_ingress h cfg p of (Inr action, q) \<Rightarrow> (action, q) | (Inl _, q) \<Rightarrow> (TC_ACT_SHOT, q))"

section \<open>What the helpers promise\<close>

text \<open>
  An incremental checksum update writes a 16-bit field so that, modulo 65535, the new
  checksum together with the new value equals the old checksum together with the old value.
\<close>

definition csum_replaced :: "bytes \<Rightarrow> nat \<Rightarrow> nat \<Rightarrow> nat \<Rightarrow> bytes \<Rightarrow> bool" where
  "csum_replaced p off from to q \<longleftrightarrow>
     off + 2 \<le> length p
     \<and> (\<exists>c :: u16. q = put off (le_bytes 2 (unat c)) p
          \<and> (unat c + to) mod 65535 = (le_nat (slice off 2 p) + from) mod 65535)"

locale skb_helpers =
  fixes h :: helpers
  assumes load: "skb_load h p off n = (if off + n \<le> length p then Some (slice off n p) else None)"
    and store: "skb_store h p off bs = Some q \<Longrightarrow> off + length bs \<le> length p \<and> q = put off bs p"
    and l3_csum: "l3_csum_replace h p off from to 4 = Some q \<Longrightarrow> csum_replaced p off (unat from) (unat to) q"
    and l4_csum: "flags = 4 \<or> flags = BPF_F_PSEUDO_HDR OR 4 \<Longrightarrow>
        l4_csum_replace h p off from to flags = Some q \<Longrightarrow> csum_replaced p off (unat from) (unat to) q"
    and l4_csum_marked: "le_nat (slice off 2 p) \<noteq> 0 \<Longrightarrow>
        l4_csum_replace h p off from to (BPF_F_PSEUDO_HDR OR BPF_F_MARK_MANGLED_0 OR 4) = Some q \<Longrightarrow>
        csum_replaced p off (unat from) (unat to) q \<and> le_nat (slice off 2 q) \<noteq> 0"

definition get8 :: "nat \<Rightarrow> bytes \<Rightarrow> u8" where
  "get8 off p = of_nat (le_nat (slice off 1 p))"

definition get16 :: "nat \<Rightarrow> bytes \<Rightarrow> u16" where
  "get16 off p = of_nat (le_nat (slice off 2 p))"

definition get32 :: "nat \<Rightarrow> bytes \<Rightarrow> u32" where
  "get32 off p = of_nat (le_nat (slice off 4 p))"

lemma unat_get32: "off + 4 \<le> length p \<Longrightarrow> unat (get32 off p) = le_nat (slice off 4 p)"
  using le_nat_bound [of "slice off 4 p"] by (simp add: get32_def unat_of_nat length_slice)

lemma unat_get16: "off + 2 \<le> length p \<Longrightarrow> unat (get16 off p) = le_nat (slice off 2 p)"
  using le_nat_bound [of "slice off 2 p"] by (simp add: get16_def unat_of_nat length_slice)

lemma get32_put: "off + 4 \<le> length p \<Longrightarrow> get32 off (put off (le_bytes 4 (unat v)) p) = v"
  using slice_put_same [of off "le_bytes 4 (unat v)" p] unat_bound [of v]
  by (simp add: get32_def le_nat_le_bytes)

lemma agree_get32:
  "agree_outside A p q \<Longrightarrow> off + 4 \<le> length p \<Longrightarrow> A \<inter> {off..<off + 4} = {} \<Longrightarrow> get32 off q = get32 off p"
  by (simp add: get32_def agree_slice)

lemma csum_replaced_agree: "csum_replaced p off f t q \<Longrightarrow> agree_outside {off..<off + 2} p q"
  using agree_put [of off "le_bytes 2 _" p] by (auto simp: csum_replaced_def)

lemma unat_ucast_u64: "unat (ucast (w :: u32) :: u64) = unat w"
  using unat_bound [of w] by (simp add: unsigned_ucast_eq take_bit_nat_eq_self)

context skb_helpers
begin

lemma ctx_load_Inr:
  "ctx_load h off p = (Inr (v :: 'w::len word), q) \<longleftrightarrow>
     q = p \<and> off + LENGTH('w) div 8 \<le> length p \<and> v = of_nat (le_nat (slice off (LENGTH('w) div 8) p))"
  by (auto simp: ctx_load_def load)

lemma ctx_load8: "ctx_load h off p = (Inr v, q) \<longleftrightarrow> q = p \<and> off + 1 \<le> length p \<and> v = get8 off p"
  by (simp add: ctx_load_Inr get8_def)

lemma ctx_load16: "ctx_load h off p = (Inr v, q) \<longleftrightarrow> q = p \<and> off + 2 \<le> length p \<and> v = get16 off p"
  by (simp add: ctx_load_Inr get16_def)

lemma ctx_load32: "ctx_load h off p = (Inr v, q) \<longleftrightarrow> q = p \<and> off + 4 \<le> length p \<and> v = get32 off p"
  by (simp add: ctx_load_Inr get32_def)

lemma ctx_load_cases:
  "ctx_load h off p = (if off + LENGTH('w) div 8 \<le> length p
     then (Inr (of_nat (le_nat (slice off (LENGTH('w) div 8) p)) :: 'w::len word), p) else (Inl (), p))"
  by (simp add: ctx_load_def load)

lemma ctx_store_Inr:
  "ctx_store h off v p = (Inr u, q) \<Longrightarrow> off + 4 \<le> length p \<and> q = put off (le_bytes 4 (unat v)) p"
  using store [of p off "le_bytes 4 (unat v)" q] by (auto simp: ctx_store_def split: option.splits)

lemma ctx_l3_csum_Inr:
  "ctx_l3_csum h off f t 4 p = (Inr u, q) \<Longrightarrow> csum_replaced p off (unat f) (unat t) q"
  using l3_csum [of p off "ucast f" "ucast t" q]
  by (auto simp: ctx_l3_csum_def unat_ucast_u64 split: option.splits)

lemma ctx_l4_csum_Inr:
  "ctx_l4_csum h off f t flags p = (Inr u, q) \<Longrightarrow> flags = 4 \<or> flags = BPF_F_PSEUDO_HDR OR 4 \<Longrightarrow>
     csum_replaced p off (unat f) (unat t) q"
  using l4_csum [of flags p off "ucast f" "ucast t" q]
  by (auto simp: ctx_l4_csum_def unat_ucast_u64 split: option.splits)

lemma ctx_l4_csum_marked_Inr:
  "ctx_l4_csum h off f t (BPF_F_PSEUDO_HDR OR BPF_F_MARK_MANGLED_0 OR 4) p = (Inr u, q) \<Longrightarrow>
     le_nat (slice off 2 p) \<noteq> 0 \<Longrightarrow>
     csum_replaced p off (unat f) (unat t) q \<and> le_nat (slice off 2 q) \<noteq> 0"
  using l4_csum_marked [of off p "ucast f" "ucast t" q]
  by (auto simp: ctx_l4_csum_def unat_ucast_u64 split: option.splits)

end

text \<open>
  The rewrite both programs make for a transport protocol, as a relation between the packet
  before and after: \<open>from\<close> is replaced by \<open>to\<close> in the pseudo-header of TCP and UDP and,
  for ICMP errors, at \<open>inner\<close> when the inner address is \<open>old\<close>.
\<close>

definition icmp_error :: "bytes \<Rightarrow> bool" where
  "icmp_error p \<longleftrightarrow>
     (get8 ICMP_TYPE_OFF p = ICMP_DEST_UNREACH \<or> get8 ICMP_TYPE_OFF p = ICMP_TIME_EXCEEDED)
     \<and> MIN_ICMP_ERROR_LEN \<le> ctx_len p"

definition l4_rewritten :: "u8 \<Rightarrow> u32 \<Rightarrow> u32 \<Rightarrow> nat \<Rightarrow> u32 \<Rightarrow> bytes \<Rightarrow> bytes \<Rightarrow> bool" where
  "l4_rewritten protocol from to inner old p q \<longleftrightarrow>
     (if protocol = IPPROTO_TCP then csum_replaced p TCP_CSUM_OFF (unat from) (unat to) q
      else if protocol = IPPROTO_UDP then
        UDP_CSUM_OFF + 2 \<le> length p \<and>
        (if get16 UDP_CSUM_OFF p = 0 then q = p
         else csum_replaced p UDP_CSUM_OFF (unat from) (unat to) q \<and> get16 UDP_CSUM_OFF q \<noteq> 0)
      else if protocol = IPPROTO_ICMP \<and> icmp_error p \<and> get32 inner p = old then
        inner + 4 \<le> length p \<and>
        (\<exists>r. csum_replaced (put inner (le_bytes 4 (unat to)) p) INNER_IP_CSUM_OFF (unat old) (unat to) r
             \<and> csum_replaced r ICMP_CSUM_OFF (unat old) (unat to) q)
      else q = p)"

context skb_helpers
begin

lemma udp_nonzero: "UDP_CSUM_OFF + 2 \<le> length p \<Longrightarrow> get16 UDP_CSUM_OFF p \<noteq> 0 \<longleftrightarrow> le_nat (slice UDP_CSUM_OFF 2 p) \<noteq> 0"
  using unat_get16 [of UDP_CSUM_OFF p] by (metis unat_eq_zero)

lemma udp_case:
  assumes "and_then (ctx_load h UDP_CSUM_OFF) (\<lambda>udp_csum :: u16.
      if udp_csum \<noteq> 0 then ctx_l4_csum h UDP_CSUM_OFF f t (BPF_F_PSEUDO_HDR OR BPF_F_MARK_MANGLED_0 OR 4)
      else ret_ok ()) p = (Inr u, q)"
  shows "l4_rewritten IPPROTO_UDP f t inner old p q"
proof -
  have len: "UDP_CSUM_OFF + 2 \<le> length p"
    using assms by (auto simp: and_then_Inr ctx_load16)
  show ?thesis
  proof (cases "get16 UDP_CSUM_OFF p = 0")
    case True
    then show ?thesis
      using assms len by (auto simp: and_then_Inr ctx_load16 l4_rewritten_def proto_defs)
  next
    case False
    then have nz: "le_nat (slice UDP_CSUM_OFF 2 p) \<noteq> 0" using udp_nonzero [OF len] by simp
    have "ctx_l4_csum h UDP_CSUM_OFF f t (BPF_F_PSEUDO_HDR OR BPF_F_MARK_MANGLED_0 OR 4) p = (Inr u, q)"
      using assms False by (auto simp: and_then_Inr ctx_load16)
    from ctx_l4_csum_marked_Inr [OF this nz]
    have c: "csum_replaced p UDP_CSUM_OFF (unat f) (unat t) q" "le_nat (slice UDP_CSUM_OFF 2 q) \<noteq> 0"
      by auto
    have "length q = length p" using csum_replaced_agree [OF c(1)] by (rule agree_length)
    then have "get16 UDP_CSUM_OFF q \<noteq> 0" using c(2) len udp_nonzero [of q] by simp
    then show ?thesis using False len c by (simp add: l4_rewritten_def proto_defs)
  qed
qed

lemma icmp_case:
  assumes "and_then (ctx_load h ICMP_TYPE_OFF) (\<lambda>icmp_type :: u8. \<lambda>p.
      if (icmp_type = ICMP_DEST_UNREACH \<or> icmp_type = ICMP_TIME_EXCEEDED) \<and> MIN_ICMP_ERROR_LEN \<le> ctx_len p
      then and_then (ctx_load h inner) (\<lambda>x :: u32.
             if x = old
             then and_then (ctx_store h inner t) (\<lambda>_.
                  and_then (ctx_l3_csum h INNER_IP_CSUM_OFF x t 4) (\<lambda>_.
                  ctx_l4_csum h ICMP_CSUM_OFF x t 4))
             else ret_ok ()) p
      else ret_ok () p) p = (Inr u, q)"
  shows "l4_rewritten IPPROTO_ICMP f t inner old p q"
proof (cases "icmp_error p \<and> get32 inner p = old")
  case True
  then obtain a b where "inner + 4 \<le> length p" "ctx_store h inner t p = (Inr (), a)"
      "ctx_l3_csum h INNER_IP_CSUM_OFF old t 4 a = (Inr (), b)" "ctx_l4_csum h ICMP_CSUM_OFF old t 4 b = (Inr u, q)"
    using assms by (auto simp: and_then_Inr ctx_load8 ctx_load32 icmp_error_def)
  then show ?thesis
    using True ctx_store_Inr [of inner t p _ a] ctx_l3_csum_Inr [of INNER_IP_CSUM_OFF old t a _ b]
      ctx_l4_csum_Inr [of ICMP_CSUM_OFF old t 4 b u q]
    by (auto simp: l4_rewritten_def proto_defs)
next
  case False
  then have "q = p"
    using assms by (auto simp: and_then_Inr ctx_load8 ctx_load32 icmp_error_def split: if_splits)
  then show ?thesis using False by (auto simp: l4_rewritten_def proto_defs)
qed

lemma egress_l4_Inr:
  assumes "egress_l4 h protocol src hip p = (Inr u, q)"
  shows "l4_rewritten protocol src hip INNER_IP_DST_OFF GUEST_IP_NBO p q"
proof -
  consider "protocol = IPPROTO_TCP" | "protocol = IPPROTO_UDP" | "protocol = IPPROTO_ICMP"
    | "protocol \<noteq> IPPROTO_TCP" "protocol \<noteq> IPPROTO_UDP" "protocol \<noteq> IPPROTO_ICMP" by blast
  then show ?thesis
  proof cases
    case 1
    then show ?thesis
      using assms ctx_l4_csum_Inr by (simp add: egress_l4_def l4_rewritten_def)
  next
    case 2
    then show ?thesis
      using assms udp_case [of src hip p u q] by (simp add: egress_l4_def proto_defs)
  next
    case 3
    then show ?thesis
      using assms icmp_case [of INNER_IP_DST_OFF GUEST_IP_NBO hip p u q src]
      by (simp add: egress_l4_def proto_defs)
  next
    case 4
    then show ?thesis
      using assms by (simp add: egress_l4_def l4_rewritten_def)
  qed
qed

lemma ingress_l4_Inr:
  assumes "ingress_l4 h protocol dst hip p = (Inr u, q)"
  shows "l4_rewritten protocol dst GUEST_IP_NBO INNER_IP_SRC_OFF hip p q"
proof -
  consider "protocol = IPPROTO_TCP" | "protocol = IPPROTO_UDP" | "protocol = IPPROTO_ICMP"
    | "protocol \<noteq> IPPROTO_TCP" "protocol \<noteq> IPPROTO_UDP" "protocol \<noteq> IPPROTO_ICMP" by blast
  then show ?thesis
  proof cases
    case 1
    then show ?thesis
      using assms ctx_l4_csum_Inr by (simp add: ingress_l4_def l4_rewritten_def)
  next
    case 2
    then show ?thesis
      using assms udp_case [of dst GUEST_IP_NBO p u q] by (simp add: ingress_l4_def proto_defs)
  next
    case 3
    then show ?thesis
      using assms icmp_case [of INNER_IP_SRC_OFF hip GUEST_IP_NBO p u q dst]
      by (simp add: ingress_l4_def proto_defs)
  next
    case 4
    then show ?thesis
      using assms by (simp add: ingress_l4_def l4_rewritten_def)
  qed
qed

end

section \<open>The rewrite as a relation\<close>

text \<open>
  Both programs rewrite the address \<open>from\<close> at \<open>off\<close> to \<open>to\<close>, then the header checksum,
  then the transport protocol.
\<close>

definition nat_rewritten :: "nat \<Rightarrow> nat \<Rightarrow> u32 \<Rightarrow> u32 \<Rightarrow> bytes \<Rightarrow> bytes \<Rightarrow> bool" where
  "nat_rewritten off inner from to p q \<longleftrightarrow>
     ETH_HDR_LEN + IP_HDR_LEN \<le> length p \<and> get32 off p = from
     \<and> (\<exists>r. csum_replaced (put off (le_bytes 4 (unat to)) p) IP_CSUM_OFF (unat from) (unat to) r
            \<and> l4_rewritten (get8 IP_PROTO_OFF p) from to inner from r q)"

context skb_helpers
begin

lemma try_egress_Inr:
  assumes "try_egress h cfg p = (Inr a, q)"
  obtains (other) "ETH_PROTO_OFF + 2 \<le> length p" "get16 ETH_PROTO_OFF p \<noteq> ETH_P_IP_NBO" "a = TC_ACT_PIPE" "q = p"
    | (dropped) "get16 ETH_PROTO_OFF p = ETH_P_IP_NBO"
        "get32 IP_DST_OFF p = METADATA_IP_NBO \<or> get32 IP_SRC_OFF p \<noteq> GUEST_IP_NBO" "a = TC_ACT_SHOT" "q = p"
    | (passed) c where "get16 ETH_PROTO_OFF p = ETH_P_IP_NBO" "get32 IP_DST_OFF p \<noteq> METADATA_IP_NBO"
        "cfg = Some c" "a = TC_ACT_PIPE"
        "nat_rewritten IP_SRC_OFF INNER_IP_DST_OFF GUEST_IP_NBO (host_ip c) p q"
proof -
  have len: "ETH_PROTO_OFF + 2 \<le> length p"
    using assms by (auto simp: try_egress_def and_then_Inr ctx_load16)
  show thesis
  proof (cases "get16 ETH_PROTO_OFF p = ETH_P_IP_NBO")
    case False
    then show thesis
      using assms len other by (auto simp: try_egress_def and_then_Inr ctx_load16)
  next
    case True
    show thesis
    proof (cases "get32 IP_DST_OFF p = METADATA_IP_NBO \<or> get32 IP_SRC_OFF p \<noteq> GUEST_IP_NBO")
      case drop: True
      with True show thesis
        using assms by (intro dropped)
          (auto simp: try_egress_def and_then_Inr ctx_load16 ctx_load8 ctx_load32 split: if_splits)
    next
      case False
      then obtain c r1 r2 where c: "cfg = Some c" and a: "a = TC_ACT_PIPE"
        and l: "IP_DST_OFF + 4 \<le> length p"
        and s: "ctx_store h IP_SRC_OFF (host_ip c) p = (Inr (), r1)"
        and l3: "ctx_l3_csum h IP_CSUM_OFF GUEST_IP_NBO (host_ip c) 4 r1 = (Inr (), r2)"
        and l4: "egress_l4 h (get8 IP_PROTO_OFF p) GUEST_IP_NBO (host_ip c) r2 = (Inr (), q)"
        using assms True
        by (auto simp: try_egress_def Let_def and_then_Inr ctx_load16 ctx_load8 ctx_load32 split: option.splits)
      have "nat_rewritten IP_SRC_OFF INNER_IP_DST_OFF GUEST_IP_NBO (host_ip c) p q"
        unfolding nat_rewritten_def
        using False l ctx_store_Inr [OF s] ctx_l3_csum_Inr [OF l3] egress_l4_Inr [OF l4]
        by (auto simp: IP_DST_OFF_def IP_HDR_LEN_def)
      with True False c a show thesis by (intro passed) auto
    qed
  qed
qed

lemma try_ingress_Inr:
  assumes "try_ingress h cfg p = (Inr a, q)"
  obtains (other) "ETH_PROTO_OFF + 2 \<le> length p" "get16 ETH_PROTO_OFF p \<noteq> ETH_P_IP_NBO" "a = TC_ACT_PIPE" "q = p"
    | (foreign) c where "get16 ETH_PROTO_OFF p = ETH_P_IP_NBO" "cfg = Some c"
        "get32 IP_DST_OFF p \<noteq> host_ip c" "a = TC_ACT_PIPE" "q = p"
    | (passed) c where "get16 ETH_PROTO_OFF p = ETH_P_IP_NBO" "cfg = Some c" "a = TC_ACT_PIPE"
        "nat_rewritten IP_DST_OFF INNER_IP_SRC_OFF (host_ip c) GUEST_IP_NBO p q"
proof -
  have len: "ETH_PROTO_OFF + 2 \<le> length p"
    using assms by (auto simp: try_ingress_def and_then_Inr ctx_load16)
  show thesis
  proof (cases "get16 ETH_PROTO_OFF p = ETH_P_IP_NBO")
    case False
    then show thesis
      using assms len other by (auto simp: try_ingress_def and_then_Inr ctx_load16)
  next
    case True
    then obtain c where c: "cfg = Some c" and l: "IP_DST_OFF + 4 \<le> length p"
      using assms by (auto simp: try_ingress_def and_then_Inr ctx_load16 ctx_load32 split: option.splits)
    show thesis
    proof (cases "get32 IP_DST_OFF p = host_ip c")
      case False
      with True c show thesis
        using assms by (intro foreign)
          (auto simp: try_ingress_def and_then_Inr ctx_load16 ctx_load32)
    next
      case dst: True
      then obtain r1 r2 where a: "a = TC_ACT_PIPE"
        and s: "ctx_store h IP_DST_OFF GUEST_IP_NBO p = (Inr (), r1)"
        and l3: "ctx_l3_csum h IP_CSUM_OFF (host_ip c) GUEST_IP_NBO 4 r1 = (Inr (), r2)"
        and l4: "ingress_l4 h (get8 IP_PROTO_OFF p) (host_ip c) (host_ip c) r2 = (Inr (), q)"
        using assms True c
        by (auto simp: try_ingress_def Let_def and_then_Inr ctx_load16 ctx_load8 ctx_load32)
      have "nat_rewritten IP_DST_OFF INNER_IP_SRC_OFF (host_ip c) GUEST_IP_NBO p q"
        unfolding nat_rewritten_def
        using dst l ctx_store_Inr [OF s] ctx_l3_csum_Inr [OF l3] ingress_l4_Inr [OF l4]
        by (auto simp: IP_DST_OFF_def IP_HDR_LEN_def)
      with True c a show thesis by (intro passed) auto
    qed
  qed
qed

end

section \<open>Frame of the rewrite\<close>

text \<open>The bytes beyond the header that a rewrite may change: the checksum of the protocol, and for ICMP the inner header's address and checksum.\<close>

definition l4_fields :: "u8 \<Rightarrow> nat \<Rightarrow> nat set" where
  "l4_fields protocol inner =
     (if protocol = IPPROTO_TCP then {TCP_CSUM_OFF..<TCP_CSUM_OFF + 2}
      else if protocol = IPPROTO_UDP then {UDP_CSUM_OFF..<UDP_CSUM_OFF + 2}
      else if protocol = IPPROTO_ICMP then
        {ICMP_CSUM_OFF..<ICMP_CSUM_OFF + 2} \<union> {INNER_IP_CSUM_OFF..<INNER_IP_CSUM_OFF + 2} \<union> {inner..<inner + 4}
      else {})"

lemma l4_rewritten_agree:
  assumes "l4_rewritten protocol from to inner old p q"
  shows "agree_outside (l4_fields protocol inner) p q"
proof (cases "protocol = IPPROTO_ICMP \<and> icmp_error p \<and> get32 inner p = old")
  case True
  then obtain r where r: "inner + 4 \<le> length p"
      "csum_replaced (put inner (le_bytes 4 (unat to)) p) INNER_IP_CSUM_OFF (unat old) (unat to) r"
      "csum_replaced r ICMP_CSUM_OFF (unat old) (unat to) q"
    using assms by (auto simp: l4_rewritten_def proto_defs)
  have "agree_outside {inner..<inner + 4} p (put inner (le_bytes 4 (unat to)) p)"
    using agree_put [of inner "le_bytes 4 (unat to)" p] r(1) by simp
  from agree_trans [OF agree_trans [OF this csum_replaced_agree [OF r(2)]] csum_replaced_agree [OF r(3)]]
  show ?thesis
    using True by (elim agree_mono) (auto simp: l4_fields_def proto_defs)
next
  case False
  then show ?thesis
    using assms by (auto simp: l4_rewritten_def l4_fields_def dest: csum_replaced_agree split: if_splits)
qed

lemma nat_rewritten_agree:
  assumes "nat_rewritten off inner from to p q" and "off + 4 \<le> ETH_HDR_LEN + IP_HDR_LEN"
  shows "agree_outside ({off..<off + 4} \<union> {IP_CSUM_OFF..<IP_CSUM_OFF + 2} \<union> l4_fields (get8 IP_PROTO_OFF p) inner) p q"
proof -
  obtain r where r: "csum_replaced (put off (le_bytes 4 (unat to)) p) IP_CSUM_OFF (unat from) (unat to) r"
      "l4_rewritten (get8 IP_PROTO_OFF p) from to inner from r q"
    using assms by (auto simp: nat_rewritten_def)
  have "agree_outside {off..<off + 4} p (put off (le_bytes 4 (unat to)) p)"
    using agree_put [of off "le_bytes 4 (unat to)" p] assms by (simp add: nat_rewritten_def)
  from agree_trans [OF agree_trans [OF this csum_replaced_agree [OF r(1)]] l4_rewritten_agree [OF r(2)]]
  show ?thesis .
qed

text \<open>Everything after the rewrite of the header lies beyond the IP header.\<close>

lemma l4_fields_beyond: "inner \<in> {INNER_IP_SRC_OFF, INNER_IP_DST_OFF} \<Longrightarrow> l4_fields protocol inner \<subseteq> {36..<62}"
  by (auto simp: l4_fields_def offset_defs)

section \<open>Checksums under the rewrite\<close>

lemma csum_replaced_region:
  assumes "csum_replaced p off from to q"
    and "o2 \<le> off" and "off + 2 \<le> o2 + n" and "o2 + n \<le> length p" and "even (off - o2)"
  shows "(sum16 (slice o2 n q) + to) mod 65535 = (sum16 (slice o2 n p) + from) mod 65535"
proof -
  obtain c :: u16 where c: "q = put off (le_bytes 2 (unat c)) p"
      "(unat c + to) mod 65535 = (le_nat (slice off 2 p) + from) mod 65535"
    using assms(1) by (auto simp: csum_replaced_def)
  have s2: "sum16 (slice off 2 p) = le_nat (slice off 2 p)"
    using assms by (simp add: sum16_2 length_slice)
  have sc: "sum16 (le_bytes 2 (unat c)) = unat c"
    using unat_bound [of c] by (simp add: sum16_2 le_nat_le_bytes)
  have eq: "sum16 (slice o2 n q) + le_nat (slice off 2 p) = sum16 (slice o2 n p) + unat c"
    using sum16_region_put [of o2 off "le_bytes 2 (unat c)" n p] assms c(1) s2 sc by simp
  have "sum16 (slice o2 n q) + to + le_nat (slice off 2 p) = sum16 (slice o2 n p) + (unat c + to)"
    using eq by linarith
  then have "(sum16 (slice o2 n q) + to + le_nat (slice off 2 p)) mod 65535
        = (sum16 (slice o2 n p) + (le_nat (slice off 2 p) + from)) mod 65535"
    by (simp only: mod_add_both [OF refl c(2)])
  also have "sum16 (slice o2 n p) + (le_nat (slice off 2 p) + from)
        = sum16 (slice o2 n p) + from + le_nat (slice off 2 p)"
    by simp
  finally show ?thesis by (rule mod_add_cancel)
qed

lemma address_put_region:
  assumes "o2 \<le> off" and "off + 4 \<le> o2 + n" and "o2 + n \<le> length p" and "even (off - o2)"
  shows "(sum16 (slice o2 n (put off (le_bytes 4 (unat to)) p)) + unat (get32 off p)) mod 65535
         = (sum16 (slice o2 n p) + unat (to :: u32)) mod 65535"
proof -
  have to: "sum16 (le_bytes 4 (unat to)) mod 65535 = unat to mod 65535"
    using unat_bound [of to] by (simp add: sum16_4 le_nat_le_bytes)
  have old: "sum16 (slice off 4 p) mod 65535 = unat (get32 off p) mod 65535"
    using assms by (simp add: sum16_4 length_slice unat_get32)
  have "sum16 (slice o2 n (put off (le_bytes 4 (unat to)) p)) + sum16 (slice off 4 p)
        = sum16 (slice o2 n p) + sum16 (le_bytes 4 (unat to))"
    using sum16_region_put [of o2 off "le_bytes 4 (unat to)" n p] assms by simp
  then show ?thesis
    using mod_add_both [OF refl old] mod_add_both [OF refl to] by metis
qed

text \<open>A region that holds both an address and the checksum that covers it keeps its sum.\<close>

lemma address_and_csum_region:
  assumes "csum_replaced (put off (le_bytes 4 (unat to)) p) coff (unat (get32 off p)) (unat (to :: u32)) q"
    and "o2 \<le> off" "off + 4 \<le> o2 + n" "even (off - o2)"
    and "o2 \<le> coff" "coff + 2 \<le> o2 + n" "even (coff - o2)"
    and "o2 + n \<le> length p"
  shows "sum16 (slice o2 n q) mod 65535 = sum16 (slice o2 n p) mod 65535"
proof -
  let ?r = "put off (le_bytes 4 (unat to)) p"
  have "(sum16 (slice o2 n q) + unat to) mod 65535 = (sum16 (slice o2 n ?r) + unat (get32 off p)) mod 65535"
    using assms by (intro csum_replaced_region [OF assms(1)]) simp_all
  also have "\<dots> = (sum16 (slice o2 n p) + unat to) mod 65535"
    using assms by (intro address_put_region) simp_all
  finally show ?thesis by (rule mod_add_cancel)
qed

lemma nat_rewritten_header:
  assumes "nat_rewritten off inner from to p q"
    and "off \<in> {IP_SRC_OFF, IP_DST_OFF}" and "inner \<in> {INNER_IP_SRC_OFF, INNER_IP_DST_OFF}"
  shows "csum_ok (slice ETH_HDR_LEN IP_HDR_LEN q) = csum_ok (slice ETH_HDR_LEN IP_HDR_LEN p)"
proof -
  obtain r where len: "34 \<le> length p" and fr: "get32 off p = from"
    and r: "csum_replaced (put off (le_bytes 4 (unat to)) p) IP_CSUM_OFF (unat from) (unat to) r"
      "l4_rewritten (get8 IP_PROTO_OFF p) from to inner from r q"
    using assms by (auto simp: nat_rewritten_def offset_defs)
  have off: "off = 26 \<or> off = 30" using assms(2) by (auto simp: offset_defs)
  have lr: "length r = length p"
    using csum_replaced_agree [OF r(1)] off len by (auto dest: agree_length)
  have "slice 14 20 q = slice 14 20 r"
    using l4_rewritten_agree [OF r(2)] lr len l4_fields_beyond [OF assms(3)]
    by (intro agree_slice) (auto, fastforce)
  moreover have "sum16 (slice 14 20 r) mod 65535 = sum16 (slice 14 20 p) mod 65535"
    using r(1) off len fr by (intro address_and_csum_region [of off to p IP_CSUM_OFF]) (auto simp: offset_defs)
  ultimately show ?thesis by (simp add: csum_ok_def offset_defs)
qed

section \<open>Transport checksums\<close>

text \<open>
  What an IPv4 receiver reads of a packet: the header length is the one the packet's IHL
  field announces (in units of four bytes), the transport segment is what follows it up to
  the total length, and the pseudo-header TCP and UDP put in front of the segment has the
  addresses, a zero byte and the protocol, and the segment's length in network order. The
  programs do not read the IHL field: they take the header to be \<open>IP_HDR_LEN\<close> bytes long.
  A packet is a whole datagram when neither the more-fragments flag nor the fragment offset
  is set; only then does the segment begin with a transport header.
\<close>

definition ip_hdr_len :: "bytes \<Rightarrow> nat" where
  "ip_hdr_len p = 4 * (unat (get8 ETH_HDR_LEN p) mod 16)"

definition ip_unfragmented :: "bytes \<Rightarrow> bool" where
  "ip_unfragmented p \<longleftrightarrow> unat (get8 20 p) mod 64 = 0 \<and> get8 21 p = 0"

definition ip_total_len :: "bytes \<Rightarrow> nat" where
  "ip_total_len p = 256 * unat (get8 16 p) + unat (get8 17 p)"

definition ip_complete :: "bytes \<Rightarrow> bool" where
  "ip_complete p \<longleftrightarrow> ip_hdr_len p \<le> ip_total_len p \<and> ETH_HDR_LEN + ip_total_len p \<le> length p"

definition l4_segment :: "bytes \<Rightarrow> bytes" where
  "l4_segment p = slice (ETH_HDR_LEN + ip_hdr_len p) (ip_total_len p - ip_hdr_len p) p"

definition pseudo_header :: "bytes \<Rightarrow> bytes" where
  "pseudo_header p =
     slice IP_SRC_OFF 8 p @ [0, get8 IP_PROTO_OFF p]
     @ [of_nat ((ip_total_len p - ip_hdr_len p) div 256), of_nat ((ip_total_len p - ip_hdr_len p) mod 256)]"

definition transport_csum_ok :: "bytes \<Rightarrow> bool" where
  "transport_csum_ok p \<longleftrightarrow> csum_ok (pseudo_header p @ l4_segment p)"

lemma agree_get8:
  "agree_outside A p q \<Longrightarrow> off < length p \<Longrightarrow> off \<notin> A \<Longrightarrow> get8 off q = get8 off p"
  by (simp add: get8_def agree_slice)

lemma nat_rewritten_frame:
  assumes "nat_rewritten off inner from to p q"
    and "off \<in> {IP_SRC_OFF, IP_DST_OFF}" and "inner \<in> {INNER_IP_SRC_OFF, INNER_IP_DST_OFF}"
  shows "agree_outside ({24, 25} \<union> {26..<34} \<union> {36..<62}) p q"
proof -
  have off: "off = 26 \<or> off = 30" using assms(2) by (auto simp: offset_defs)
  have "{off..<off + 4} \<union> {IP_CSUM_OFF..<IP_CSUM_OFF + 2} \<union> l4_fields (get8 IP_PROTO_OFF p) inner
      \<subseteq> {24, 25} \<union> {26..<34} \<union> {36..<62}"
    using off l4_fields_beyond [OF assms(3)] by (auto simp: offset_defs)
  moreover have "off + 4 \<le> ETH_HDR_LEN + IP_HDR_LEN" using off by (auto simp: offset_defs)
  ultimately show ?thesis by (rule agree_mono [OF nat_rewritten_agree [OF assms(1)], rotated])
qed

lemma nat_rewritten_lengths:
  assumes "nat_rewritten off inner from to p q"
    and "off \<in> {IP_SRC_OFF, IP_DST_OFF}" and "inner \<in> {INNER_IP_SRC_OFF, INNER_IP_DST_OFF}"
  shows "length q = length p" and "ip_total_len q = ip_total_len p"
    and "get8 IP_PROTO_OFF q = get8 IP_PROTO_OFF p" and "ip_hdr_len q = ip_hdr_len p"
proof -
  have len: "34 \<le> length p" using assms(1) by (simp add: nat_rewritten_def offset_defs)
  note fr = nat_rewritten_frame [OF assms]
  show "length q = length p" using fr by (rule agree_length)
  show "ip_total_len q = ip_total_len p"
    using agree_get8 [OF fr, of 16] agree_get8 [OF fr, of 17] len by (simp add: ip_total_len_def)
  show "get8 IP_PROTO_OFF q = get8 IP_PROTO_OFF p"
    using agree_get8 [OF fr, of IP_PROTO_OFF] len by (simp add: offset_defs)
  show "ip_hdr_len q = ip_hdr_len p"
    using agree_get8 [OF fr, of ETH_HDR_LEN] len by (simp add: ip_hdr_len_def offset_defs)
qed

lemma pseudo_sum:
  "34 \<le> length p \<Longrightarrow>
   sum16 (pseudo_header p @ l4_segment p) =
     sum16 (slice IP_SRC_OFF 8 p)
     + sum16 ([0, get8 IP_PROTO_OFF p] @ [of_nat ((ip_total_len p - ip_hdr_len p) div 256), of_nat ((ip_total_len p - ip_hdr_len p) mod 256)])
     + sum16 (l4_segment p)"
  by (simp add: pseudo_header_def sum16_append length_slice IP_SRC_OFF_def ETH_HDR_LEN_def)

text \<open>
  When the rewrite replaces the checksum field of the segment for the change of address in
  the pseudo-header, the sum over both stays the same.
\<close>

lemma transport_rewritten:
  assumes nat: "nat_rewritten off inner from to p q"
    and off: "off \<in> {IP_SRC_OFF, IP_DST_OFF}" and inner: "inner \<in> {INNER_IP_SRC_OFF, INNER_IP_DST_OFF}"
    and l4: "\<And>r. l4_rewritten (get8 IP_PROTO_OFF p) from to inner from r q \<Longrightarrow> length r = length p \<Longrightarrow>
               slice 34 (length p - 34) r = slice 34 (length p - 34) p \<Longrightarrow>
               csum_replaced r coff (unat from) (unat to) q"
    and coff: "36 \<le> coff" "even coff" "coff + 2 \<le> ETH_HDR_LEN + ip_total_len p"
    and complete: "ip_complete p" and hdr: "ip_hdr_len p = IP_HDR_LEN"
  shows "transport_csum_ok q = transport_csum_ok p"
proof -
  let ?p1 = "put off (le_bytes 4 (unat to)) p" and ?L = "ip_total_len p - 20"
  have len: "34 \<le> length p" and fr: "get32 off p = from"
    using nat by (auto simp: nat_rewritten_def offset_defs)
  have o: "off = 26 \<or> off = 30" using off by (auto simp: offset_defs)
  have L: "20 \<le> ip_total_len p" "14 + ip_total_len p \<le> length p"
    using complete hdr by (auto simp: ip_complete_def offset_defs)
  have h: "ip_hdr_len p = 20" "ip_hdr_len q = 20"
    using hdr nat_rewritten_lengths(4) [OF nat off inner] by (simp_all add: offset_defs)
  obtain r where r: "csum_replaced ?p1 IP_CSUM_OFF (unat from) (unat to) r"
      "l4_rewritten (get8 IP_PROTO_OFF p) from to inner from r q"
    using nat by (auto simp: nat_rewritten_def)
  have p1: "length ?p1 = length p" using o len by auto
  have ar: "agree_outside {24..<26} ?p1 r" using csum_replaced_agree [OF r(1)] by (simp add: offset_defs)
  have lr: "length r = length p" using agree_length [OF ar] p1 by simp
  have seg: "slice 34 n r = slice 34 n p" if "34 + n \<le> length p" for n
  proof -
    have "slice 34 n r = slice 34 n ?p1" using ar that p1 by (intro agree_slice) auto
    also have "\<dots> = slice 34 n p" using that o len by (intro slice_put_other) auto
    finally show ?thesis .
  qed
  have c: "csum_replaced r coff (unat from) (unat to) q"
    using l4 [OF r(2) lr] seg [of "length p - 34"] len by simp
  have addr: "slice 26 8 q = slice 26 8 ?p1"
  proof -
    have "slice 26 8 q = slice 26 8 r"
      using csum_replaced_agree [OF c] lr len coff(1) by (intro agree_slice) auto
    also have "\<dots> = slice 26 8 ?p1" using ar p1 len by (intro agree_slice) auto
    finally show ?thesis .
  qed
  have sa: "(sum16 (slice 26 8 q) + unat from) mod 65535 = (sum16 (slice 26 8 p) + unat to) mod 65535"
    using address_put_region [of 26 off 8 p to] o len addr fr by auto
  have ss: "(sum16 (slice 34 ?L q) + unat to) mod 65535 = (sum16 (slice 34 ?L p) + unat from) mod 65535"
    using csum_replaced_region [OF c, of 34 ?L] coff L lr seg [of ?L] by (auto simp: offset_defs)
  let ?k = "sum16 ([0, get8 IP_PROTO_OFF p] @ [of_nat (?L div 256), of_nat (?L mod 256)])"
  have "(sum16 (slice 26 8 q) + ?k + sum16 (slice 34 ?L q) + (unat from + unat to)) mod 65535
        = (sum16 (slice 26 8 p) + ?k + sum16 (slice 34 ?L p) + (unat from + unat to)) mod 65535"
    using mod_add_both [OF mod_add_both [OF sa ss] refl [of "?k mod 65535"]] by (simp add: ac_simps)
  then have "(sum16 (slice 26 8 q) + ?k + sum16 (slice 34 ?L q)) mod 65535
        = (sum16 (slice 26 8 p) + ?k + sum16 (slice 34 ?L p)) mod 65535"
    by (rule mod_add_cancel)
  moreover have "sum16 (pseudo_header p @ l4_segment p) = sum16 (slice 26 8 p) + ?k + sum16 (slice 34 ?L p)"
    using pseudo_sum [OF len] h by (simp add: l4_segment_def offset_defs del: sum16.simps)
  moreover have "sum16 (pseudo_header q @ l4_segment q) = sum16 (slice 26 8 q) + ?k + sum16 (slice 34 ?L q)"
    using pseudo_sum [of q] nat_rewritten_lengths [OF nat off inner] len h
    by (simp add: l4_segment_def offset_defs del: sum16.simps)
  ultimately show ?thesis
    by (simp only: transport_csum_ok_def csum_ok_def)
qed

section \<open>A concrete instance of the helpers\<close>

text \<open>
  Helpers that always succeed in range; a recomputed checksum is never stored as zero.
\<close>

definition csum_update :: "nat \<Rightarrow> nat \<Rightarrow> nat \<Rightarrow> nat" where
  "csum_update c f t = (let x = (c + f + (65535 - t mod 65535)) mod 65535 in if x = 0 then 65535 else x)"

definition ref_csum_replace :: "bytes \<Rightarrow> nat \<Rightarrow> u64 \<Rightarrow> u64 \<Rightarrow> u64 \<Rightarrow> bytes option" where
  "ref_csum_replace p off f t flags =
     (if off + 2 \<le> length p
      then Some (put off (le_bytes 2 (csum_update (le_nat (slice off 2 p)) (unat f) (unat t))) p) else None)"

definition ref_helpers :: helpers where
  "ref_helpers =
     \<lparr>skb_load = (\<lambda>p off n. if off + n \<le> length p then Some (slice off n p) else None),
      skb_store = (\<lambda>p off bs. if off + length bs \<le> length p then Some (put off bs p) else None),
      l3_csum_replace = ref_csum_replace, l4_csum_replace = ref_csum_replace\<rparr>"

lemma csum_update_bounds: "0 < csum_update c f t" "csum_update c f t \<le> 65535"
  by (auto simp: csum_update_def Let_def less_imp_le)

lemma csum_update_mod: "(csum_update c f t + t) mod 65535 = (c + f) mod 65535"
proof -
  have u: "csum_update c f t mod 65535 = (c + f + (65535 - t mod 65535)) mod 65535"
    by (simp add: csum_update_def Let_def)
  have "65535 - m + t' = 65535 * (1 + d)" if "65535 * d + m = t'" "m < 65535" for m d t' :: nat
    using that by (auto simp: add_mult_distrib2)
  from this [of "t div 65535" "t mod 65535" t]
  have "65535 - t mod 65535 + t = 65535 * (1 + t div 65535)"
    using mult_div_mod_eq [of 65535 t] mod_less_divisor [of 65535 t] by fastforce
  then have "c + f + (65535 - t mod 65535) + t = c + f + 65535 * (1 + t div 65535)" by linarith
  then have "(c + f + (65535 - t mod 65535) + t) mod 65535 = (c + f) mod 65535"
    by (simp only: mod_mult_self2)
  then show ?thesis using u by (metis mod_add_left_eq)
qed

lemma ref_csum_replaced:
  assumes "ref_csum_replace p off f t flags = Some q"
  shows "csum_replaced p off (unat f) (unat t) q" and "le_nat (slice off 2 q) \<noteq> 0"
proof -
  let ?c = "csum_update (le_nat (slice off 2 p)) (unat f) (unat t)"
  have q: "off + 2 \<le> length p" "q = put off (le_bytes 2 ?c) p"
    using assms by (auto simp: ref_csum_replace_def split: if_splits)
  have b: "unat (of_nat ?c :: u16) = ?c"
    using csum_update_bounds(2) [of "le_nat (slice off 2 p)" "unat f" "unat t"] by (simp add: unat_of_nat)
  show "csum_replaced p off (unat f) (unat t) q"
    unfolding csum_replaced_def using q b csum_update_mod
    by (intro conjI exI [of _ "of_nat ?c"]) simp_all
  have "slice off 2 q = le_bytes 2 ?c"
    using q slice_put_same [of off "le_bytes 2 ?c" p] by simp
  then show "le_nat (slice off 2 q) \<noteq> 0"
    using csum_update_bounds [of "le_nat (slice off 2 p)" "unat f" "unat t"] by (simp add: le_nat_le_bytes)
qed

interpretation ref_skb: skb_helpers ref_helpers
  by unfold_locales (auto simp: ref_helpers_def ref_csum_replaced split: if_splits)

section \<open>Properties\<close>

lemma tc_egress_PIPE:
  "tc_egress h cfg p = (TC_ACT_PIPE, q) \<longleftrightarrow> try_egress h cfg p = (Inr TC_ACT_PIPE, q)"
  by (auto simp: tc_egress_def action_defs split: prod.splits sum.splits)

lemma tc_ingress_PIPE:
  "tc_ingress h cfg p = (TC_ACT_PIPE, q) \<longleftrightarrow> try_ingress h cfg p = (Inr TC_ACT_PIPE, q)"
  by (auto simp: tc_ingress_def action_defs split: prod.splits sum.splits)

lemma egress_passed:
  assumes "skb_helpers h" and "tc_egress h cfg p = (TC_ACT_PIPE, q)" and "get16 ETH_PROTO_OFF p = ETH_P_IP_NBO"
  obtains c where "cfg = Some c" "get32 IP_DST_OFF p \<noteq> METADATA_IP_NBO"
    "nat_rewritten IP_SRC_OFF INNER_IP_DST_OFF GUEST_IP_NBO (host_ip c) p q"
  by (rule skb_helpers.try_egress_Inr [OF assms(1) iffD1 [OF tc_egress_PIPE assms(2)]])
    (use assms(3) that in \<open>auto simp: action_defs\<close>)

lemma ingress_passed:
  assumes "skb_helpers h" and "tc_ingress h (Some c) p = (TC_ACT_PIPE, q)" and "get16 ETH_PROTO_OFF p = ETH_P_IP_NBO"
    and "get32 IP_DST_OFF p = host_ip c"
  shows "nat_rewritten IP_DST_OFF INNER_IP_SRC_OFF (host_ip c) GUEST_IP_NBO p q"
  by (rule skb_helpers.try_ingress_Inr [OF assms(1) iffD1 [OF tc_ingress_PIPE assms(2)]])
    (use assms(3,4) in auto)

lemma nat_rewritten_address:
  assumes nat: "nat_rewritten off inner from to p q"
    and off: "off \<in> {IP_SRC_OFF, IP_DST_OFF}" and inner: "inner \<in> {INNER_IP_SRC_OFF, INNER_IP_DST_OFF}"
  shows "get32 off q = to"
    and "other \<in> {IP_SRC_OFF, IP_DST_OFF} \<Longrightarrow> other \<noteq> off \<Longrightarrow> get32 other q = get32 other p"
proof -
  let ?p1 = "put off (le_bytes 4 (unat to)) p"
  have len: "34 \<le> length p" using nat by (auto simp: nat_rewritten_def offset_defs)
  have o: "off = 26 \<or> off = 30" using off by (auto simp: offset_defs)
  obtain r where r: "csum_replaced ?p1 IP_CSUM_OFF (unat from) (unat to) r"
      "l4_rewritten (get8 IP_PROTO_OFF p) from to inner from r q"
    using nat by (auto simp: nat_rewritten_def)
  have l1: "length ?p1 = length p" using o len by auto
  have fr: "agree_outside ({24..<26} \<union> {36..<62}) ?p1 q"
    using agree_trans [OF csum_replaced_agree [OF r(1)] l4_rewritten_agree [OF r(2)]] l4_fields_beyond [OF inner]
    by (elim agree_mono) (auto simp: offset_defs)
  have keep: "get32 x q = get32 x ?p1" if "x = 26 \<or> x = 30" for x
    using fr that len l1 by (intro agree_get32) auto
  show "get32 off q = to" using keep [OF o] o len get32_put [of off p to] by auto
  assume "other \<in> {IP_SRC_OFF, IP_DST_OFF}" "other \<noteq> off"
  then have ot: "other = 26 \<or> other = 30" "other + 4 \<le> off \<or> off + 4 \<le> other" using o by (auto simp: offset_defs)
  have "slice other 4 ?p1 = slice other 4 p"
    using ot o len by (intro slice_put_other) auto
  then show "get32 other q = get32 other p"
    using keep [OF ot(1)] by (simp add: get32_def)
qed

text \<open>Evaluation rules for concrete packets, used by the witnesses.\<close>

lemma le_bytes_numeral:
  "le_bytes (numeral k) v = of_nat (v mod 256) # le_bytes (pred_numeral k) (v div 256)"
  unfolding numeral_eq_Suc [of k] by simp

lemmas helper_eval =
  ctx_load_def ctx_store_def ctx_l3_csum_def ctx_l4_csum_def ctx_len_def ref_helpers_def ref_csum_replace_def
  csum_update_def slice_def put_def and_then_def ret_ok_def ret_err_def get8_def get16_def get32_def le_bytes_numeral
lemmas const_eval =
  offset_defs ETH_P_IP_NBO_def proto_defs ICMP_DEST_UNREACH_def ICMP_TIME_EXCEEDED_def GUEST_IP_NBO_def
  METADATA_IP_NBO_def swap_bytes16_def swap_bytes32_def BPF_F_PSEUDO_HDR_def BPF_F_MARK_MANGLED_0_def action_defs
lemmas program_eval =
  tc_egress_def try_egress_def egress_l4_def tc_ingress_def try_ingress_def ingress_l4_def

definition sample_config :: VmConfig where
  "sample_config = \<lparr>host_ip = 0x0500000A, guest_ip = GUEST_IP_NBO, mac = [2, 0, 0, 0, 0, 1], pad = [0, 0]\<rparr>"

definition sample_frame :: "u8 \<Rightarrow> bytes \<Rightarrow> bytes \<Rightarrow> bytes \<Rightarrow> bytes" where
  "sample_frame protocol src dst payload =
     [1, 1, 1, 1, 1, 1, 2, 2, 2, 2, 2, 2, 8, 0, 0x45, 0, 0, of_nat (20 + length payload), 0, 0, 0, 0, 64, protocol, 0, 0]
     @ src @ dst @ payload"

definition sample_tcp :: bytes where
  "sample_tcp = sample_frame 6 [169, 254, 1, 2] [10, 0, 0, 1] [0, 80, 0, 81, 0, 0, 0, 1, 0, 0, 0, 1, 0x50, 2, 0, 0, 0x12, 0x34, 0, 0]"

lemmas sample_eval = sample_config_def sample_frame_def sample_tcp_def

text \<open>
  C1. An IPv4 frame that leaves the guest was sent from the guest's own address and not to
  the metadata service; it leaves with the host's address as source, the destination and
  the length unchanged.
\<close>

theorem egress_anti_spoof:
  assumes "skb_helpers h" and "tc_egress h cfg p = (TC_ACT_PIPE, q)" and "get16 ETH_PROTO_OFF p = ETH_P_IP_NBO"
  shows "get32 IP_SRC_OFF p = GUEST_IP_NBO \<and> get32 IP_DST_OFF p \<noteq> METADATA_IP_NBO
    \<and> (\<exists>c. cfg = Some c \<and> get32 IP_SRC_OFF q = host_ip c)
    \<and> get32 IP_DST_OFF q = get32 IP_DST_OFF p \<and> length q = length p"
proof -
  obtain c where c: "cfg = Some c" "get32 IP_DST_OFF p \<noteq> METADATA_IP_NBO"
    and nat: "nat_rewritten IP_SRC_OFF INNER_IP_DST_OFF GUEST_IP_NBO (host_ip c) p q"
    by (rule egress_passed [OF assms])
  have "IP_DST_OFF \<noteq> IP_SRC_OFF" by (simp add: offset_defs)
  then show ?thesis
    using c nat_rewritten_address(1) [OF nat] nat_rewritten_address(2) [OF nat, of IP_DST_OFF]
      nat_rewritten_lengths(1) [OF nat] nat
    by (simp add: nat_rewritten_def)
qed

theorem egress_anti_spoof_witness:
  "get32 IP_SRC_OFF (snd (tc_egress ref_helpers (Some sample_config) sample_tcp)) = 0x0500000A"
proof -
  have a: "tc_egress ref_helpers (Some sample_config) sample_tcp
      = (TC_ACT_PIPE, snd (tc_egress ref_helpers (Some sample_config) sample_tcp))"
    by (simp add: program_eval Let_def helper_eval const_eval sample_eval)
  have b: "get16 ETH_PROTO_OFF sample_tcp = ETH_P_IP_NBO"
    by (simp add: helper_eval const_eval sample_eval)
  show ?thesis
    using egress_anti_spoof [OF ref_skb.skb_helpers_axioms a b] by (simp add: sample_config_def)
qed

text \<open>
  C15. The egress program fails closed for IPv4 frames and for frames shorter than an
  Ethernet header: a frame that short, an IPv4 frame too short for the IP header, one with a
  spoofed source, one to the metadata address and any IPv4 frame without a configuration are
  dropped, with the frame untouched. A frame of another EtherType is outside the guards: it
  passes unchanged, with or without a configuration.
\<close>

theorem egress_fails_closed:
  assumes "skb_helpers h"
  shows "(length p < ETH_HDR_LEN \<longrightarrow> tc_egress h cfg p = (TC_ACT_SHOT, p))
    \<and> (get16 ETH_PROTO_OFF p = ETH_P_IP_NBO
         \<and> (length p < ETH_HDR_LEN + IP_HDR_LEN \<or> get32 IP_SRC_OFF p \<noteq> GUEST_IP_NBO
            \<or> get32 IP_DST_OFF p = METADATA_IP_NBO \<or> cfg = None)
        \<longrightarrow> tc_egress h cfg p = (TC_ACT_SHOT, p))
    \<and> (ETH_HDR_LEN \<le> length p \<and> get16 ETH_PROTO_OFF p \<noteq> ETH_P_IP_NBO
        \<longrightarrow> tc_egress h cfg p = (TC_ACT_PIPE, p))"
proof -
  note ld = skb_helpers.ctx_load_cases [OF assms(1)]
  have two: "get16 ETH_PROTO_OFF p = of_nat (le_nat (slice ETH_PROTO_OFF 2 p))"
    and four: "get32 off p = of_nat (le_nat (slice off 4 p))" for off
    by (simp_all add: get16_def get32_def)
  have r: "ETH_PROTO_OFF + 2 = ETH_HDR_LEN" "IP_DST_OFF + 4 = ETH_HDR_LEN + IP_HDR_LEN"
    "IP_SRC_OFF + 4 \<le> ETH_HDR_LEN + IP_HDR_LEN" "IP_PROTO_OFF + 1 \<le> ETH_HDR_LEN + IP_HDR_LEN"
    by (simp_all add: offset_defs)
  show ?thesis
    using r
    by (auto simp: tc_egress_def try_egress_def and_then_def ret_ok_def ret_err_def ld two four split: option.splits)
qed

text \<open>An ARP request, which has no IP header.\<close>

definition sample_arp :: bytes where
  "sample_arp = [1, 1, 1, 1, 1, 1, 2, 2, 2, 2, 2, 2, 8, 6, 0, 1]"

theorem egress_fails_closed_witness:
  "tc_egress ref_helpers None sample_tcp = (TC_ACT_SHOT, sample_tcp)
   \<and> tc_egress ref_helpers (Some sample_config) [8] = (TC_ACT_SHOT, [8])
   \<and> tc_egress ref_helpers None sample_arp = (TC_ACT_PIPE, sample_arp)"
  using egress_fails_closed [OF ref_skb.skb_helpers_axioms, of sample_tcp None]
    egress_fails_closed [OF ref_skb.skb_helpers_axioms, of "[8]" "Some sample_config"]
    egress_fails_closed [OF ref_skb.skb_helpers_axioms, of sample_arp None]
  by (simp add: helper_eval const_eval sample_eval sample_arp_def)

text \<open>
  C16. An IPv4 frame addressed to the VM's host address reaches the guest with the guest's
  address as destination and its source unchanged; every other IPv4 frame that passes is
  unchanged, and without a configuration nothing passes.
\<close>

theorem ingress_dnat:
  assumes "skb_helpers h" and "tc_ingress h cfg p = (TC_ACT_PIPE, q)" and "get16 ETH_PROTO_OFF p = ETH_P_IP_NBO"
  shows "\<exists>c. cfg = Some c \<and>
    (if get32 IP_DST_OFF p = host_ip c
     then get32 IP_DST_OFF q = GUEST_IP_NBO \<and> get32 IP_SRC_OFF q = get32 IP_SRC_OFF p \<and> length q = length p
     else q = p)"
proof (rule skb_helpers.try_ingress_Inr [OF assms(1) iffD1 [OF tc_ingress_PIPE assms(2)]])
  fix c
  assume c: "cfg = Some c" and nat: "nat_rewritten IP_DST_OFF INNER_IP_SRC_OFF (host_ip c) GUEST_IP_NBO p q"
  have "IP_SRC_OFF \<noteq> IP_DST_OFF" by (simp add: offset_defs)
  then show ?thesis
    using c nat_rewritten_address(1) [OF nat] nat_rewritten_address(2) [OF nat, of IP_SRC_OFF]
      nat_rewritten_lengths(1) [OF nat] nat
    by (simp add: nat_rewritten_def)
qed (use assms(3) in auto)

definition sample_udp :: bytes where
  "sample_udp = sample_frame 17 [10, 0, 0, 1] [10, 0, 0, 5] [0, 80, 0, 81, 0, 9, 0x12, 0x34, 9]"

theorem ingress_dnat_witness:
  "get32 IP_DST_OFF (snd (tc_ingress ref_helpers (Some sample_config) sample_udp)) = GUEST_IP_NBO"
proof -
  have a: "tc_ingress ref_helpers (Some sample_config) sample_udp
      = (TC_ACT_PIPE, snd (tc_ingress ref_helpers (Some sample_config) sample_udp))"
    by (simp add: program_eval Let_def helper_eval const_eval sample_eval sample_udp_def)
  have b: "get16 ETH_PROTO_OFF sample_udp = ETH_P_IP_NBO" "get32 IP_DST_OFF sample_udp = host_ip sample_config"
    by (simp_all add: helper_eval const_eval sample_eval sample_udp_def)
  show ?thesis
    using ingress_dnat [OF ref_skb.skb_helpers_axioms a b(1)] b(2) by simp
qed



text \<open>
  C14. The IP header checksum of a frame that passes is valid after either program exactly
  when it was valid before.
\<close>

theorem ip_checksum_kept:
  assumes "skb_helpers h" and "get16 ETH_PROTO_OFF p = ETH_P_IP_NBO"
    and "tc_egress h cfg p = (TC_ACT_PIPE, q) \<or> tc_ingress h cfg p = (TC_ACT_PIPE, q)"
  shows "csum_ok (slice ETH_HDR_LEN IP_HDR_LEN q) = csum_ok (slice ETH_HDR_LEN IP_HDR_LEN p)"
  using assms(3)
proof
  assume "tc_egress h cfg p = (TC_ACT_PIPE, q)"
  then show ?thesis
    by (rule egress_passed [OF assms(1) _ assms(2)]) (fastforce dest: nat_rewritten_header)
next
  assume "tc_ingress h cfg p = (TC_ACT_PIPE, q)"
  from skb_helpers.try_ingress_Inr [OF assms(1) iffD1 [OF tc_ingress_PIPE this]]
  show ?thesis
    by cases (use assms(2) in \<open>fastforce dest: nat_rewritten_header\<close>)+
qed

theorem ip_checksum_kept_witness:
  "csum_ok (slice ETH_HDR_LEN IP_HDR_LEN (snd (tc_ingress ref_helpers (Some sample_config) sample_udp)))
     = csum_ok (slice ETH_HDR_LEN IP_HDR_LEN sample_udp)"
proof -
  have a: "tc_ingress ref_helpers (Some sample_config) sample_udp
      = (TC_ACT_PIPE, snd (tc_ingress ref_helpers (Some sample_config) sample_udp))"
    by (simp add: program_eval Let_def helper_eval const_eval sample_eval sample_udp_def)
  have b: "get16 ETH_PROTO_OFF sample_udp = ETH_P_IP_NBO"
    by (simp add: helper_eval const_eval sample_eval sample_udp_def)
  show ?thesis
    by (rule ip_checksum_kept [OF ref_skb.skb_helpers_axioms b disjI2, OF a])
qed

lemma l4_rewritten_transport:
  assumes "l4_rewritten protocol from to inner old r q" and "length r = length p" and "34 \<le> length p"
    and seg: "slice 34 (length p - 34) r = slice 34 (length p - 34) p"
    and proto: "protocol = IPPROTO_TCP \<and> coff = TCP_CSUM_OFF
       \<or> protocol = IPPROTO_UDP \<and> coff = UDP_CSUM_OFF \<and> get16 UDP_CSUM_OFF p \<noteq> 0"
  shows "csum_replaced r coff (unat from) (unat to) q"
proof (cases "protocol = IPPROTO_TCP")
  case True
  then show ?thesis using assms by (auto simp: l4_rewritten_def proto_defs)
next
  case False
  then have udp: "protocol = IPPROTO_UDP" "coff = UDP_CSUM_OFF" "get16 UDP_CSUM_OFF p \<noteq> 0" using proto by auto
  then have len: "42 \<le> length r" using assms(1) by (auto simp: l4_rewritten_def offset_defs proto_defs)
  have "slice 40 2 r = slice 6 2 (slice 34 (length p - 34) r)" using len assms(2) by (simp add: slice_slice)
  also have "\<dots> = slice 40 2 p" using len assms(2) by (simp add: seg slice_slice)
  finally have "get16 UDP_CSUM_OFF r = get16 UDP_CSUM_OFF p" by (simp add: get16_def offset_defs)
  then show ?thesis using assms(1) udp by (auto simp: l4_rewritten_def proto_defs)
qed

text \<open>
  C8. For a complete IPv4 packet without IP options and not a fragment, that holds a TCP
  segment with at least the checksum field, or a UDP datagram that carries a checksum, the
  transport checksum (over pseudo-header and segment, the segment found through the IHL
  field) is valid after either program exactly when it was before. The programs check none
  of these conditions (see \<open>options_corrupt_segment\<close>).
\<close>

theorem transport_checksum_kept:
  assumes "skb_helpers h" and "get16 ETH_PROTO_OFF p = ETH_P_IP_NBO"
    and "ip_complete p" and "ip_hdr_len p = IP_HDR_LEN" and "ip_unfragmented p"
    and "tc_egress h cfg p = (TC_ACT_PIPE, q) \<or> tc_ingress h cfg p = (TC_ACT_PIPE, q)"
    and "get8 IP_PROTO_OFF p = IPPROTO_TCP \<and> IP_HDR_LEN + 18 \<le> ip_total_len p
       \<or> get8 IP_PROTO_OFF p = IPPROTO_UDP \<and> IP_HDR_LEN + 8 \<le> ip_total_len p \<and> get16 UDP_CSUM_OFF p \<noteq> 0"
  shows "transport_csum_ok q = transport_csum_ok p"
proof -
  define coff where "coff = (if get8 IP_PROTO_OFF p = IPPROTO_TCP then TCP_CSUM_OFF else UDP_CSUM_OFF)"
  have proto: "get8 IP_PROTO_OFF p = IPPROTO_TCP \<and> coff = TCP_CSUM_OFF
       \<or> get8 IP_PROTO_OFF p = IPPROTO_UDP \<and> coff = UDP_CSUM_OFF \<and> get16 UDP_CSUM_OFF p \<noteq> 0"
    using assms(7) by (auto simp: coff_def proto_defs)
  have range: "36 \<le> coff" "even coff" "coff + 2 \<le> ETH_HDR_LEN + ip_total_len p"
    using assms(7) by (auto simp: coff_def offset_defs proto_defs)
  have nat: "transport_csum_ok q = transport_csum_ok p"
    if n: "nat_rewritten off inner f t p q" and off: "off \<in> {IP_SRC_OFF, IP_DST_OFF}"
      and inner: "inner \<in> {INNER_IP_SRC_OFF, INNER_IP_DST_OFF}" for off inner f t
  proof (rule transport_rewritten [OF n off inner _ range assms(3,4)])
    have len: "34 \<le> length p" using n by (simp add: nat_rewritten_def offset_defs)
    fix r assume "l4_rewritten (get8 IP_PROTO_OFF p) f t inner f r q" "length r = length p"
      "slice 34 (length p - 34) r = slice 34 (length p - 34) p"
    then show "csum_replaced r coff (unat f) (unat t) q"
      using len proto by (intro l4_rewritten_transport)
  qed
  show ?thesis
    using assms(6)
  proof
    assume "tc_egress h cfg p = (TC_ACT_PIPE, q)"
    then show ?thesis
      by (rule egress_passed [OF assms(1) _ assms(2)]) (rule nat, auto)
  next
    assume "tc_ingress h cfg p = (TC_ACT_PIPE, q)"
    from skb_helpers.try_ingress_Inr [OF assms(1) iffD1 [OF tc_ingress_PIPE this]]
    show ?thesis
      by cases (use assms(2) nat [of IP_DST_OFF INNER_IP_SRC_OFF] in auto)
  qed
qed

theorem transport_checksum_kept_witness:
  "transport_csum_ok (snd (tc_egress ref_helpers (Some sample_config) sample_tcp)) = transport_csum_ok sample_tcp"
proof -
  have a: "tc_egress ref_helpers (Some sample_config) sample_tcp
      = (TC_ACT_PIPE, snd (tc_egress ref_helpers (Some sample_config) sample_tcp))"
    by (simp add: program_eval Let_def helper_eval const_eval sample_eval)
  have b: "get16 ETH_PROTO_OFF sample_tcp = ETH_P_IP_NBO" "ip_complete sample_tcp"
     "ip_hdr_len sample_tcp = IP_HDR_LEN" "ip_unfragmented sample_tcp"
     "get8 IP_PROTO_OFF sample_tcp = IPPROTO_TCP \<and> IP_HDR_LEN + 18 \<le> ip_total_len sample_tcp"
    by (simp_all add: helper_eval const_eval sample_eval ip_complete_def ip_total_len_def ip_hdr_len_def ip_unfragmented_def)
  show ?thesis
    by (rule transport_checksum_kept [OF ref_skb.skb_helpers_axioms b(1-4) disjI1 disjI1, OF a b(5)])
qed

text \<open>
  With IP options the checksum is not where the programs take it to be: they patch the bytes
  at offset 50 whatever the header length is. A frame with one word of options and a valid
  TCP checksum leaves with another data offset and other flags in its TCP header (bytes 50
  and 51), while its checksum field (bytes 54 and 55) is left alone; the sum stays valid, so
  the receiver cannot notice.
\<close>

definition sample_options :: bytes where
  "sample_options =
     [1, 1, 1, 1, 1, 1, 2, 2, 2, 2, 2, 2, 8, 0, 0x46, 0, 0, 44, 0, 0, 0, 0, 64, 6, 0, 0]
     @ [169, 254, 1, 2] @ [10, 0, 0, 1] @ [1, 1, 1, 1]
     @ [0, 80, 0, 81, 0, 0, 0, 1, 0, 0, 0, 1, 0x50, 2, 0, 0, 0xfa, 0x3e, 0, 0]"

theorem options_corrupt_segment:
  "transport_csum_ok sample_options \<and> ip_hdr_len sample_options = 24
   \<and> (\<exists>q. tc_egress ref_helpers (Some sample_config) sample_options = (TC_ACT_PIPE, q)
        \<and> transport_csum_ok q \<and> slice 54 2 q = slice 54 2 sample_options
        \<and> slice 50 2 q \<noteq> slice 50 2 sample_options)"
  by (simp add: program_eval Let_def helper_eval const_eval sample_config_def sample_options_def
      transport_csum_ok_def csum_ok_def pseudo_header_def l4_segment_def ip_total_len_def ip_hdr_len_def)

text \<open>The part beyond the IP header is untouched before the transport step.\<close>

lemma nat_rewritten_l4:
  assumes nat: "nat_rewritten off inner from to p q" and off: "off \<in> {IP_SRC_OFF, IP_DST_OFF}"
  obtains r where "l4_rewritten (get8 IP_PROTO_OFF p) from to inner from r q" "length r = length p"
    "\<And>o2 n. 34 \<le> o2 \<Longrightarrow> o2 + n \<le> length p \<Longrightarrow> slice o2 n r = slice o2 n p"
proof -
  let ?p1 = "put off (le_bytes 4 (unat to)) p"
  have len: "34 \<le> length p" and o: "off = 26 \<or> off = 30"
    using nat off by (auto simp: nat_rewritten_def offset_defs)
  obtain r where r: "csum_replaced ?p1 IP_CSUM_OFF (unat from) (unat to) r"
      "l4_rewritten (get8 IP_PROTO_OFF p) from to inner from r q"
    using nat by (auto simp: nat_rewritten_def)
  have p1: "length ?p1 = length p" using o len by auto
  have ar: "agree_outside {24..<26} ?p1 r" using csum_replaced_agree [OF r(1)] by (simp add: offset_defs)
  have "slice o2 n r = slice o2 n p" if "34 \<le> o2" "o2 + n \<le> length p" for o2 n
  proof -
    have "slice o2 n r = slice o2 n ?p1" using ar that p1 by (intro agree_slice) auto
    also have "\<dots> = slice o2 n p" using that o len by (intro slice_put_other) auto
    finally show ?thesis .
  qed
  with r(2) agree_length [OF ar] p1 show thesis by (intro that [of r]) auto
qed

text \<open>
  A UDP datagram without a checksum stays without one, and one that has a checksum never
  loses it: the field is zero after either program exactly when it was zero before.
\<close>

theorem udp_zero_checksum:
  assumes "skb_helpers h" and "get16 ETH_PROTO_OFF p = ETH_P_IP_NBO" and "get8 IP_PROTO_OFF p = IPPROTO_UDP"
    and "tc_egress h cfg p = (TC_ACT_PIPE, q) \<or> tc_ingress h cfg p = (TC_ACT_PIPE, q)"
  shows "get16 UDP_CSUM_OFF q = 0 \<longleftrightarrow> get16 UDP_CSUM_OFF p = 0"
proof -
  have nat: "get16 UDP_CSUM_OFF q = 0 \<longleftrightarrow> get16 UDP_CSUM_OFF p = 0"
    if n: "nat_rewritten off inner f t p q" and off: "off \<in> {IP_SRC_OFF, IP_DST_OFF}" for off inner f t
  proof -
    obtain r where r: "l4_rewritten IPPROTO_UDP f t inner f r q" "length r = length p"
        "\<And>o2 n. 34 \<le> o2 \<Longrightarrow> o2 + n \<le> length p \<Longrightarrow> slice o2 n r = slice o2 n p"
      using nat_rewritten_l4 [OF n off] assms(3) by metis
    then have "42 \<le> length p" by (simp add: l4_rewritten_def offset_defs proto_defs)
    then have "get16 UDP_CSUM_OFF r = get16 UDP_CSUM_OFF p"
      using r(3) [of 40 2] by (simp add: get16_def offset_defs)
    then show ?thesis using r(1) by (auto simp: l4_rewritten_def proto_defs split: if_splits)
  qed
  show ?thesis
    using assms(4)
  proof
    assume "tc_egress h cfg p = (TC_ACT_PIPE, q)"
    then show ?thesis
      by (rule egress_passed [OF assms(1) _ assms(2)]) (rule nat, auto)
  next
    assume "tc_ingress h cfg p = (TC_ACT_PIPE, q)"
    from skb_helpers.try_ingress_Inr [OF assms(1) iffD1 [OF tc_ingress_PIPE this]]
    show ?thesis
      by cases (use assms(2) nat [of IP_DST_OFF INNER_IP_SRC_OFF] in auto)
  qed
qed

theorem udp_zero_checksum_witness:
  "get16 UDP_CSUM_OFF (snd (tc_ingress ref_helpers (Some sample_config) sample_udp)) \<noteq> 0"
proof -
  have a: "tc_ingress ref_helpers (Some sample_config) sample_udp
      = (TC_ACT_PIPE, snd (tc_ingress ref_helpers (Some sample_config) sample_udp))"
    by (simp add: program_eval Let_def helper_eval const_eval sample_eval sample_udp_def)
  have b: "get16 ETH_PROTO_OFF sample_udp = ETH_P_IP_NBO" "get8 IP_PROTO_OFF sample_udp = IPPROTO_UDP"
     "get16 UDP_CSUM_OFF sample_udp \<noteq> 0"
    by (simp_all add: helper_eval const_eval sample_eval sample_udp_def)
  show ?thesis
    using udp_zero_checksum [OF ref_skb.skb_helpers_axioms b(1,2) disjI2, OF a] b(3) by simp
qed

text \<open>
  For ICMP errors the address inside the quoted header and the checksum of that header both
  lie in the region the ICMP checksum covers, and their changes cancel.
\<close>

lemma icmp_region:
  assumes "l4_rewritten IPPROTO_ICMP from to inner from r q" and "icmp_error r" and "get32 inner r = from"
    and "inner \<in> {INNER_IP_SRC_OFF, INNER_IP_DST_OFF}" and "28 \<le> n" and "34 + n \<le> length r"
  shows "(sum16 (slice 34 n q) + unat to) mod 65535 = (sum16 (slice 34 n r) + unat from) mod 65535"
proof -
  have inner: "inner = 54 \<or> inner = 58" using assms(4) by (auto simp: offset_defs)
  obtain s where s: "csum_replaced (put inner (le_bytes 4 (unat to)) r) INNER_IP_CSUM_OFF (unat from) (unat to) s"
      "csum_replaced s ICMP_CSUM_OFF (unat from) (unat to) q"
    using assms(1-3) by (auto simp: l4_rewritten_def proto_defs)
  have ls: "length s = length r"
    using agree_length [OF csum_replaced_agree [OF s(1)]] inner assms(5,6) by auto
  have "sum16 (slice 34 n s) mod 65535 = sum16 (slice 34 n r) mod 65535"
    using s(1) assms(3,5,6) inner
    by (intro address_and_csum_region [of inner to r INNER_IP_CSUM_OFF]) (auto simp: offset_defs)
  moreover have "(sum16 (slice 34 n q) + unat to) mod 65535 = (sum16 (slice 34 n s) + unat from) mod 65535"
    using csum_replaced_region [OF s(2), of 34 n] ls assms(5,6) by (simp add: offset_defs)
  ultimately show ?thesis using mod_add_both [OF _ refl] by metis
qed

text \<open>
  The ICMP checksum of an ICMP error whose quoted header is translated on the way out
  does not survive the translation: when it was valid before, it is valid after only if the
  guest's and the host's address are congruent modulo 65535, because the program adjusts it
  for the address and not for the checksum of the quoted header.
\<close>

theorem icmp_error_checksum_drift:
  assumes "skb_helpers h" and "get16 ETH_PROTO_OFF p = ETH_P_IP_NBO"
    and "ip_complete p" and "ip_hdr_len p = IP_HDR_LEN"
    and "tc_egress h (Some c) p = (TC_ACT_PIPE, q)"
    and "get8 IP_PROTO_OFF p = IPPROTO_ICMP" and "icmp_error p" and "get32 INNER_IP_DST_OFF p = GUEST_IP_NBO"
    and "IP_HDR_LEN + 28 \<le> ip_total_len p" and "csum_ok (l4_segment p)"
  shows "csum_ok (l4_segment q) \<longleftrightarrow> unat (host_ip c) mod 65535 = unat GUEST_IP_NBO mod 65535"
proof -
  let ?n = "ip_total_len p - 20" and ?g = "unat GUEST_IP_NBO" and ?h = "unat (host_ip c)"
  have nat: "nat_rewritten IP_SRC_OFF INNER_IP_DST_OFF GUEST_IP_NBO (host_ip c) p q"
    by (rule egress_passed [OF assms(1,5,2)]) auto
  obtain r where r: "l4_rewritten IPPROTO_ICMP GUEST_IP_NBO (host_ip c) INNER_IP_DST_OFF GUEST_IP_NBO r q" "length r = length p"
      "\<And>o2 n. 34 \<le> o2 \<Longrightarrow> o2 + n \<le> length p \<Longrightarrow> slice o2 n r = slice o2 n p"
    using nat_rewritten_l4 [OF nat] assms(6) by (metis insertI1)
  have n: "28 \<le> ?n" "34 + ?n \<le> length p" using assms(3,4,9) by (auto simp: ip_complete_def offset_defs)
  have err: "icmp_error r" "get32 INNER_IP_DST_OFF r = GUEST_IP_NBO"
    using r(3) [of 34 1] r(3) [of 58 4] n r(2) assms(7,8)
    by (simp_all add: icmp_error_def get8_def get32_def ctx_len_def offset_defs)
  have "(sum16 (slice 34 ?n q) + ?h) mod 65535 = (sum16 (slice 34 ?n p) + ?g) mod 65535"
    using icmp_region [OF r(1) err, of ?n] r(3) [of 34 ?n] n r(2) by simp
  also have "\<dots> = ?g mod 65535"
    using assms(10,4) mod_add_both [of "sum16 (slice 34 ?n p)" 65535 0 ?g ?g]
    by (simp add: csum_ok_def l4_segment_def offset_defs)
  finally have eq: "(sum16 (slice 34 ?n q) + ?h) mod 65535 = ?g mod 65535" .
  have "csum_ok (l4_segment q) \<longleftrightarrow> sum16 (slice 34 ?n q) mod 65535 = 0 mod 65535"
    using nat_rewritten_lengths(2,4) [OF nat] assms(4) by (simp add: csum_ok_def l4_segment_def offset_defs)
  also have "\<dots> \<longleftrightarrow> ?h mod 65535 = ?g mod 65535"
  proof
    assume "sum16 (slice 34 ?n q) mod 65535 = 0 mod 65535"
    then have "(sum16 (slice 34 ?n q) + ?h) mod 65535 = (0 + ?h) mod 65535" by (rule mod_add_both [OF _ refl])
    with eq show "?h mod 65535 = ?g mod 65535" by simp
  next
    assume "?h mod 65535 = ?g mod 65535"
    then have "(sum16 (slice 34 ?n q) + ?h) mod 65535 = (0 + ?h) mod 65535" using eq by simp
    then show "sum16 (slice 34 ?n q) mod 65535 = 0 mod 65535" by (rule mod_add_cancel)
  qed
  finally show ?thesis .
qed

text \<open>A port-unreachable error from the guest that quotes a header addressed to it, with valid checksums.\<close>

definition sample_icmp :: bytes where
  "sample_icmp = sample_frame 1 [169, 254, 1, 2] [10, 0, 0, 1]
     [3, 3, 0xfc, 0xfc, 0, 0, 0, 0, 0x45, 0, 0, 28, 0, 0, 0, 0, 64, 17, 0xc5, 0xd0, 10, 0, 0, 1, 169, 254, 1, 2]"

theorem icmp_error_checksum_drift_witness:
  "csum_ok (l4_segment sample_icmp)
     \<and> \<not> csum_ok (l4_segment (snd (tc_egress ref_helpers (Some sample_config) sample_icmp)))"
proof -
  have a: "tc_egress ref_helpers (Some sample_config) sample_icmp
      = (TC_ACT_PIPE, snd (tc_egress ref_helpers (Some sample_config) sample_icmp))"
    by (simp add: program_eval Let_def helper_eval const_eval sample_eval sample_icmp_def)
  have b: "get16 ETH_PROTO_OFF sample_icmp = ETH_P_IP_NBO" "ip_complete sample_icmp" "ip_hdr_len sample_icmp = IP_HDR_LEN"
    "get8 IP_PROTO_OFF sample_icmp = IPPROTO_ICMP" "icmp_error sample_icmp" "get32 INNER_IP_DST_OFF sample_icmp = GUEST_IP_NBO"
    "IP_HDR_LEN + 28 \<le> ip_total_len sample_icmp" "csum_ok (l4_segment sample_icmp)"
    by (simp_all add: helper_eval const_eval sample_eval sample_icmp_def ip_complete_def ip_total_len_def ip_hdr_len_def
        icmp_error_def csum_ok_def l4_segment_def)
  have "unat (host_ip sample_config) mod 65535 \<noteq> unat GUEST_IP_NBO mod 65535"
    by (simp add: helper_eval const_eval sample_eval)
  with icmp_error_checksum_drift [OF ref_skb.skb_helpers_axioms b(1-3) a b(4-8)] b(8)
  show ?thesis by blast
qed

end
