(* ===== verification/Vm_State.thy ===== *)
theory Vm_State
  imports Prelude
begin

text \<open>
  The VM lifecycle of \<^verbatim>\<open>control-plane/src/vmm/state.rs\<close>: the states, the machine
  (a state and the session it belongs to), the transition table and the guarded
  transition, and the error value that carries the state of a failure.

  The lemmas show that a machine only moves forward along the lifecycle, that it
  can only be \<open>Running\<close> after the provisioning phases in order (the configuration of the
  VMM alone may be skipped), that \<open>Destroyed\<close> is final, and that teardown is possible from every state a
  provisioning run can fail in.
\<close>

section \<open>States and the transition table\<close>

datatype VmState =
    Pending
  | ProvisioningStorage
  | ConfiguringNetwork
  | InitializingCgroup
  | LaunchingVMM
  | ConfiguringVMM
  | Running
  | Terminating
  | Destroyed

fun show_VmState :: "VmState \<Rightarrow> string" where
  "show_VmState Pending = ''Pending''"
| "show_VmState ProvisioningStorage = ''ProvisioningStorage''"
| "show_VmState ConfiguringNetwork = ''ConfiguringNetwork''"
| "show_VmState InitializingCgroup = ''InitializingCgroup''"
| "show_VmState LaunchingVMM = ''LaunchingVMM''"
| "show_VmState ConfiguringVMM = ''ConfiguringVMM''"
| "show_VmState Running = ''Running''"
| "show_VmState Terminating = ''Terminating''"
| "show_VmState Destroyed = ''Destroyed''"

record VmStateMachine =
  sm_state :: VmState
  sm_session_id :: u64

definition new_VmStateMachine :: "u64 \<Rightarrow> VmStateMachine" where
  "new_VmStateMachine session_id = \<lparr>sm_state = Pending, sm_session_id = session_id\<rparr>"

definition current_state :: "VmStateMachine \<Rightarrow> VmState" where
  "current_state sm = sm_state sm"

definition is_valid_transition :: "VmStateMachine \<Rightarrow> VmState \<Rightarrow> bool" where
  "is_valid_transition sm next_state =
     (case (sm_state sm, next_state) of
        (Pending, ProvisioningStorage) \<Rightarrow> True
      | (ProvisioningStorage, ConfiguringNetwork) \<Rightarrow> True
      | (ConfiguringNetwork, InitializingCgroup) \<Rightarrow> True
      | (InitializingCgroup, LaunchingVMM) \<Rightarrow> True
      | (LaunchingVMM, ConfiguringVMM) \<Rightarrow> True
      | (ConfiguringVMM, Running) \<Rightarrow> True
      | (LaunchingVMM, Running) \<Rightarrow> True
      | (Running, Terminating) \<Rightarrow> True
      | (Terminating, Destroyed) \<Rightarrow> True
      | (ProvisioningStorage, Terminating) \<Rightarrow> True
      | (ConfiguringNetwork, Terminating) \<Rightarrow> True
      | (InitializingCgroup, Terminating) \<Rightarrow> True
      | (LaunchingVMM, Terminating) \<Rightarrow> True
      | (ConfiguringVMM, Terminating) \<Rightarrow> True
      | _ \<Rightarrow> False)"

definition transition_to :: "VmState \<Rightarrow> (VmStateMachine, string, unit) op" where
  "transition_to next_state sm =
     (if is_valid_transition sm next_state
      then (Inr (), sm\<lparr>sm_state := next_state\<rparr>)
      else (Inl (''Invalid state transition: '' @ show_VmState (sm_state sm) @ '' -> ''
                 @ show_VmState next_state), sm))"

record OrchestratorError =
  err_session_id :: u64
  err_state :: VmState
  err_message :: string

definition new_OrchestratorError :: "u64 \<Rightarrow> VmState \<Rightarrow> string \<Rightarrow> OrchestratorError" where
  "new_OrchestratorError session_id st message =
     \<lparr>err_session_id = session_id, err_state = st, err_message = message\<rparr>"

definition show_OrchestratorError :: "OrchestratorError \<Rightarrow> string" where
  "show_OrchestratorError e =
     ''[Session '' @ show_word (err_session_id e) @ ''][State '' @ show_VmState (err_state e)
     @ ''] Error: '' @ err_message e"

section \<open>The lifecycle order\<close>

text \<open>
  The position of a state in the lifecycle makes the states a linear order;
  every transition the table allows goes up in it.
\<close>

fun lifecycle_rank :: "VmState \<Rightarrow> nat" where
  "lifecycle_rank Pending = 0"
| "lifecycle_rank ProvisioningStorage = 1"
| "lifecycle_rank ConfiguringNetwork = 2"
| "lifecycle_rank InitializingCgroup = 3"
| "lifecycle_rank LaunchingVMM = 4"
| "lifecycle_rank ConfiguringVMM = 5"
| "lifecycle_rank Running = 6"
| "lifecycle_rank Terminating = 7"
| "lifecycle_rank Destroyed = 8"

lemma lifecycle_rank_inj: "lifecycle_rank a = lifecycle_rank b \<Longrightarrow> a = b"
  by (cases a; cases b) simp_all

instantiation VmState :: linorder
begin

definition less_eq_VmState :: "VmState \<Rightarrow> VmState \<Rightarrow> bool" where
  "less_eq_VmState a b \<longleftrightarrow> lifecycle_rank a \<le> lifecycle_rank b"

definition less_VmState :: "VmState \<Rightarrow> VmState \<Rightarrow> bool" where
  "less_VmState a b \<longleftrightarrow> lifecycle_rank a < lifecycle_rank b"

instance
  by standard (auto simp: less_eq_VmState_def less_VmState_def intro: lifecycle_rank_inj)

end

lemmas VmState_order = less_eq_VmState_def less_VmState_def

section \<open>Steps and runs\<close>

inductive sm_step :: "VmStateMachine \<Rightarrow> VmStateMachine \<Rightarrow> bool" where
  moved: "transition_to next_state sm = (Inr (), sm') \<Longrightarrow> sm_step sm sm'"

inductive_cases sm_stepE: "sm_step sm sm'"

text \<open>
  A client may request any sequence of states; a refused request leaves the
  machine as it is.
\<close>

fun requests :: "VmState list \<Rightarrow> VmStateMachine \<Rightarrow> VmStateMachine" where
  "requests [] sm = sm"
| "requests (x # xs) sm = requests xs (snd (transition_to x sm))"

lemma transition_to_Inr:
  "transition_to n sm = (Inr u, sm') \<longleftrightarrow> is_valid_transition sm n \<and> sm' = sm\<lparr>sm_state := n\<rparr>"
  by (auto simp: transition_to_def)

lemma transition_to_Inl: "transition_to n sm = (Inl e, sm') \<Longrightarrow> sm' = sm"
  by (auto simp: transition_to_def split: if_splits)

lemma snd_transition_to:
  "snd (transition_to n sm) = (if is_valid_transition sm n then sm\<lparr>sm_state := n\<rparr> else sm)"
  by (simp add: transition_to_def)

lemma valid_transition_up: "is_valid_transition sm n \<Longrightarrow> sm_state sm < n"
  by (cases "sm_state sm"; cases n) (simp_all add: is_valid_transition_def VmState_order)

lemma sm_step_alt: "sm_step sm sm' \<longleftrightarrow> is_valid_transition sm (sm_state sm') \<and> sm' = sm\<lparr>sm_state := sm_state sm'\<rparr>"
  by (auto simp: sm_step.simps transition_to_Inr)

interpretation lifecycle: ranked_system sm_step "\<lambda>sm. lifecycle_rank (sm_state sm)"
proof
  fix s t assume "sm_step s t"
  then show "lifecycle_rank (sm_state s) < lifecycle_rank (sm_state t)"
    using valid_transition_up [of s "sm_state t"] by (simp add: sm_step_alt VmState_order)
qed

text \<open>The requests of a sequence that the machine accepts, in order: the phases it enters.\<close>

fun accepted :: "VmState list \<Rightarrow> VmStateMachine \<Rightarrow> VmState list" where
  "accepted [] sm = []"
| "accepted (x # xs) sm =
     (case transition_to x sm of
        (Inr _, sm') \<Rightarrow> x # accepted xs sm'
      | (Inl _, sm') \<Rightarrow> accepted xs sm')"

text \<open>
  The phases a fresh machine has entered when it is in a state, one list for each way there;
  no list is given for the two states of a teardown.
\<close>

fun routes :: "VmState \<Rightarrow> VmState list list" where
  "routes Pending = [[]]"
| "routes ProvisioningStorage = [[ProvisioningStorage]]"
| "routes ConfiguringNetwork = [[ProvisioningStorage, ConfiguringNetwork]]"
| "routes InitializingCgroup = [[ProvisioningStorage, ConfiguringNetwork, InitializingCgroup]]"
| "routes LaunchingVMM =
     [[ProvisioningStorage, ConfiguringNetwork, InitializingCgroup, LaunchingVMM]]"
| "routes ConfiguringVMM =
     [[ProvisioningStorage, ConfiguringNetwork, InitializingCgroup, LaunchingVMM, ConfiguringVMM]]"
| "routes Running =
     [[ProvisioningStorage, ConfiguringNetwork, InitializingCgroup, LaunchingVMM, ConfiguringVMM, Running],
      [ProvisioningStorage, ConfiguringNetwork, InitializingCgroup, LaunchingVMM, Running]]"
| "routes _ = []"

lemma routes_step:
  assumes "is_valid_transition sm n" "ys \<in> set (routes (sm_state sm))" "routes n \<noteq> []"
  shows "ys @ [n] \<in> set (routes n)"
  using assms by (cases "sm_state sm"; cases n) (auto simp: is_valid_transition_def)

lemma routes_before:
  "is_valid_transition sm n \<Longrightarrow> routes n \<noteq> [] \<Longrightarrow> routes (sm_state sm) \<noteq> []"
  by (cases "sm_state sm"; cases n) (simp_all add: is_valid_transition_def)

lemma requests_append: "requests (xs @ ys) sm = requests ys (requests xs sm)"
  by (induction xs arbitrary: sm) auto

lemma accepted_append: "accepted (xs @ ys) sm = accepted xs sm @ accepted ys (requests xs sm)"
  by (induction xs arbitrary: sm) (auto split: prod.splits sum.splits)

lemma accepted_single: "accepted [x] sm = (if is_valid_transition sm x then [x] else [])"
  by (simp add: transition_to_def)

lemma accepted_subseq: "subseq (accepted xs sm) xs"
  by (induction xs arbitrary: sm) (auto split: prod.splits sum.splits)

lemma accepted_route:
  assumes "routes (sm_state (requests xs (new_VmStateMachine sid))) \<noteq> []"
  shows "accepted xs (new_VmStateMachine sid)
         \<in> set (routes (sm_state (requests xs (new_VmStateMachine sid))))"
  using assms
proof (induction xs rule: rev_induct)
  case Nil
  then show ?case by (simp add: new_VmStateMachine_def)
next
  case (snoc x xs)
  let ?sm = "requests xs (new_VmStateMachine sid)"
  show ?case
  proof (cases "is_valid_transition ?sm x")
    case True
    then have st: "sm_state (requests (xs @ [x]) (new_VmStateMachine sid)) = x"
      by (simp add: requests_append snd_transition_to)
    with snoc.prems have "routes x \<noteq> []" by simp
    then show ?thesis
      using snoc.IH routes_before [OF True] routes_step [OF True] st True
      by (simp add: accepted_append accepted_single del: accepted.simps)
  next
    case False
    then have "sm_state (requests (xs @ [x]) (new_VmStateMachine sid)) = sm_state ?sm"
      by (simp add: requests_append snd_transition_to)
    with snoc False show ?thesis
      by (simp add: accepted_append accepted_single del: accepted.simps)
  qed
qed

section \<open>Properties\<close>

text \<open>
  C9. Whatever sequence of states is requested of a fresh machine, if it ends up \<open>Running\<close>
  then the requests it accepted, out of the sequence and in its order, are exactly storage,
  network, cgroup, VMM launch, VMM configuration and running, or the same without the
  configuration: the table keeps a transition from the launch straight to running, which its
  comment says is for the tests. No other phase can be left out, repeated or reordered.
\<close>

theorem running_only_after_all_phases:
  assumes "sm_state (requests xs (new_VmStateMachine sid)) = Running"
  shows "subseq (accepted xs (new_VmStateMachine sid)) xs
    \<and> (accepted xs (new_VmStateMachine sid) =
          [ProvisioningStorage, ConfiguringNetwork, InitializingCgroup, LaunchingVMM,
           ConfiguringVMM, Running]
       \<or> accepted xs (new_VmStateMachine sid) =
          [ProvisioningStorage, ConfiguringNetwork, InitializingCgroup, LaunchingVMM, Running])"
  using accepted_route [of xs sid] assms by (simp add: accepted_subseq)

theorem running_only_after_all_phases_witness:
  "accepted [ProvisioningStorage, Running, ConfiguringNetwork, InitializingCgroup, LaunchingVMM,
       ConfiguringVMM, Running] (new_VmStateMachine 1)
     \<in> {[ProvisioningStorage, ConfiguringNetwork, InitializingCgroup, LaunchingVMM,
          ConfiguringVMM, Running],
        [ProvisioningStorage, ConfiguringNetwork, InitializingCgroup, LaunchingVMM, Running]}"
proof -
  have "sm_state (requests [ProvisioningStorage, Running, ConfiguringNetwork, InitializingCgroup,
      LaunchingVMM, ConfiguringVMM, Running] (new_VmStateMachine 1)) = Running"
    by (simp add: new_VmStateMachine_def transition_to_def is_valid_transition_def)
  from running_only_after_all_phases [OF this] show ?thesis by blast
qed

text \<open>
  C39. Lifecycles are finite and acyclic: no run of transitions returns to a machine it
  left, and no run makes more than eight transitions.
\<close>

theorem lifecycle_terminates:
  "\<not> sm_step\<^sup>+\<^sup>+ sm sm \<and> ((sm_step ^^ n) sm sm' \<longrightarrow> n \<le> 8)"
proof -
  have "lifecycle_rank st \<le> 8" for st by (cases st) simp_all
  then have "(sm_step ^^ n) sm sm' \<Longrightarrow> n \<le> 8"
    using lifecycle.rank_steps [of n sm sm'] le_trans [of n] by (metis add_leE)
  then show ?thesis using lifecycle.no_cycle by blast
qed

theorem lifecycle_terminates_witness:
  "(sm_step ^^ 1) (new_VmStateMachine 7) \<lparr>sm_state = ProvisioningStorage, sm_session_id = 7\<rparr> \<and> (1::nat) \<le> 8"
proof -
  have s: "(sm_step ^^ 1) (new_VmStateMachine 7) \<lparr>sm_state = ProvisioningStorage, sm_session_id = 7\<rparr>"
    by (simp add: eq_OO sm_step_alt is_valid_transition_def new_VmStateMachine_def)
  with lifecycle_terminates [of "new_VmStateMachine 7" 1] show ?thesis by blast
qed

text \<open>
  C40. Teardown is always possible once provisioning has begun, and \<open>Destroyed\<close> is final:
  from every state but \<open>Pending\<close>, requesting \<open>Terminating\<close> and then \<open>Destroyed\<close> ends in
  \<open>Destroyed\<close>; no request moves a destroyed machine; a refused request changes nothing
  and reports both states.
\<close>

theorem teardown_reaches_destroyed:
  "(sm_state sm \<noteq> Pending \<longrightarrow> sm_state (requests [Terminating, Destroyed] sm) = Destroyed)
   \<and> (sm_state sm = Destroyed \<longrightarrow> requests xs sm = sm)
   \<and> (\<not> is_valid_transition sm n \<longrightarrow>
        transition_to n sm =
          (Inl (''Invalid state transition: '' @ show_VmState (sm_state sm) @ '' -> '' @ show_VmState n), sm))"
proof (intro conjI impI)
  assume "sm_state sm \<noteq> Pending"
  then show "sm_state (requests [Terminating, Destroyed] sm) = Destroyed"
    by (cases "sm_state sm") (simp_all add: transition_to_def is_valid_transition_def)
next
  assume "sm_state sm = Destroyed"
  then have "\<not> is_valid_transition sm x" for x
    by (simp add: is_valid_transition_def)
  then show "requests xs sm = sm"
    by (induction xs) (simp_all add: snd_transition_to)
next
  assume "\<not> is_valid_transition sm n"
  then show "transition_to n sm =
      (Inl (''Invalid state transition: '' @ show_VmState (sm_state sm) @ '' -> '' @ show_VmState n), sm)"
    by (simp add: transition_to_def)
qed

theorem teardown_reaches_destroyed_witness:
  "sm_state (requests [Terminating, Destroyed] \<lparr>sm_state = InitializingCgroup, sm_session_id = 3\<rparr>) = Destroyed
   \<and> requests [Running] \<lparr>sm_state = Destroyed, sm_session_id = 3\<rparr> = \<lparr>sm_state = Destroyed, sm_session_id = 3\<rparr>"
  using teardown_reaches_destroyed [of "\<lparr>sm_state = InitializingCgroup, sm_session_id = 3\<rparr>"]
    teardown_reaches_destroyed [of "\<lparr>sm_state = Destroyed, sm_session_id = 3\<rparr>" "[Running]"]
  by simp

end
