(* ===== verification/Ipam.thy ===== *)
theory Ipam
  imports Prelude
begin

unbundle bit_operations_syntax

text \<open>
  The IP address manager of \<^verbatim>\<open>control-plane/src/vmm/network.rs\<close>: a 64-bit atomic bitset
  and a base address. \<open>allocate_body\<close> is one turn of the compare-and-swap loop, \<open>allocate\<close>
  the loop as it runs without interference, \<open>ipam_step\<close> its interleavings with any number
  of other threads that allocate and release.

  The interface \<open>id_pool\<close> states what a client of an allocator may rely on; it is
  interpreted on the bitset. The lemmas show that the lowest free address is returned,
  that release undoes allocate, and that under every interleaving no address is ever
  granted to two holders at once.
\<close>

section \<open>The model\<close>

record IpAm =
  bits :: u64
  base_ip :: u32

definition new_IpAm :: "u32 \<Rightarrow> IpAm" where
  "new_IpAm base = \<lparr>bits = 0, base_ip = base\<rparr>"

definition trailing_zeros :: "'a::len word \<Rightarrow> nat" where
  "trailing_zeros w = length (takeWhile (\<lambda>i. \<not> bit w i) [0..<LENGTH('a)])"

definition compare_exchange :: "u64 \<Rightarrow> u64 \<Rightarrow> IpAm \<Rightarrow> bool \<times> IpAm" where
  "compare_exchange current new s =
     (if bits s = current then (True, s\<lparr>bits := new\<rparr>) else (False, s))"

text \<open>
  One turn of the loop with the value \<open>current\<close> it loaded: an error when the set is full,
  \<open>None\<close> when the exchange lost a race, otherwise the address.
\<close>

definition allocate_body :: "u64 \<Rightarrow> (IpAm, string, u32 option) op" where
  "allocate_body current s =
     (let first_free = trailing_zeros (NOT current)
      in if 64 \<le> first_free then (Inl ''No free IPs'', s)
         else (let mask = push_bit first_free (1 :: u64)
               in case compare_exchange current (current OR mask) s of
                    (True, s') \<Rightarrow> (Inr (Some (base_ip s' + of_nat first_free)), s')
                  | (False, s') \<Rightarrow> (Inr None, s')))"

lemma allocate_body_no_race: "allocate_body (bits s) s \<noteq> (Inr None, s')"
  by (simp add: allocate_body_def compare_exchange_def Let_def)

function allocate :: "(IpAm, string, u32) op" where
  "allocate s =
     (case allocate_body (bits s) s of
        (Inl e, s') \<Rightarrow> (Inl e, s')
      | (Inr (Some ip), s') \<Rightarrow> (Inr ip, s')
      | (Inr None, s') \<Rightarrow> allocate s')"
  by pat_completeness auto
termination
  by (relation "{}") (auto simp: allocate_body_no_race dest: sym)

definition release :: "u32 \<Rightarrow> IpAm \<Rightarrow> IpAm" where
  "release ip s =
     (if ip < base_ip s then s
      else (let index = ip - base_ip s
            in if index < 64
               then s\<lparr>bits := bits s AND NOT (push_bit (unat index) (1 :: u64))\<rparr>
               else s))"

section \<open>Lowest zero bit\<close>

lemma trailing_zeros_le: "trailing_zeros (w :: 'a::len word) \<le> LENGTH('a)"
  unfolding trailing_zeros_def by (metis diff_zero length_takeWhile_le length_upt)

lemma trailing_zeros_below: "i < trailing_zeros w \<Longrightarrow> \<not> bit w i"
  for w :: "'a::len word"
proof -
  let ?P = "\<lambda>i. \<not> bit w i"
  assume i: "i < trailing_zeros w"
  then have "takeWhile ?P [0..<LENGTH('a)] ! i = [0..<LENGTH('a)] ! i"
    by (simp add: trailing_zeros_def takeWhile_nth)
  moreover have "i < LENGTH('a)" using i trailing_zeros_le [of w] by simp
  ultimately have "i \<in> set (takeWhile ?P [0..<LENGTH('a)])"
    using i unfolding trailing_zeros_def by (metis add_0 nth_mem nth_upt)
  then show ?thesis by (rule set_takeWhileD [THEN conjunct2])
qed

lemma trailing_zeros_at: "trailing_zeros w < LENGTH('a) \<Longrightarrow> bit w (trailing_zeros w)"
  for w :: "'a::len word"
  unfolding trailing_zeros_def
  using nth_length_takeWhile [of "\<lambda>i. \<not> bit w i" "[0..<LENGTH('a)]"] by simp

lemma first_free_64:
  fixes w :: u64
  shows "trailing_zeros (NOT w) < 64 \<Longrightarrow> \<not> bit w (trailing_zeros (NOT w))"
    and "i < trailing_zeros (NOT w) \<Longrightarrow> bit w i"
proof -
  assume "trailing_zeros (NOT w) < 64"
  then show "\<not> bit w (trailing_zeros (NOT w))"
    using trailing_zeros_at [of "NOT w"] by (simp add: bit_not_iff)
next
  assume i: "i < trailing_zeros (NOT w)"
  then have "i < 64" using trailing_zeros_le [of "NOT w"] by simp
  with trailing_zeros_below [OF i] show "bit w i" by (simp add: bit_not_iff)
qed

lemma bit_set_index: "n < 64 \<Longrightarrow> bit (w OR 2 ^ n) i \<longleftrightarrow> i = n \<or> bit w i"
  for w :: u64
  by (auto simp: bit_or_iff bit_exp_iff)

lemma bit_clear_index: "bit (w AND NOT (2 ^ n)) i \<longleftrightarrow> i \<noteq> n \<and> bit w i"
  for w :: u64
  by (auto simp: bit_and_iff bit_not_iff bit_exp_iff dest: bit_imp_le_length)

section \<open>Behaviour of the operations\<close>

definition in_pool :: "IpAm \<Rightarrow> nat set" where
  "in_pool s = {i. i < 64 \<and> bit (bits s) i}"

text \<open>The pool is well formed when its 64 addresses do not wrap around.\<close>

definition ipam_wf :: "IpAm \<Rightarrow> bool" where
  "ipam_wf s \<longleftrightarrow> unat (base_ip s) + 64 \<le> 2 ^ 32"

definition address :: "IpAm \<Rightarrow> nat \<Rightarrow> u32" where
  "address s i = base_ip s + of_nat i"

definition in_use :: "IpAm \<Rightarrow> u32 set" where
  "in_use s = address s ` in_pool s"

lemma allocate_eq:
  "allocate s =
     (let n = trailing_zeros (NOT (bits s))
      in if 64 \<le> n then (Inl ''No free IPs'', s)
         else (Inr (address s n), s\<lparr>bits := bits s OR push_bit n 1\<rparr>))"
  by (subst allocate.simps) (simp add: allocate_body_def compare_exchange_def address_def Let_def)

declare allocate.simps [simp del]

lemma in_pool_alloc:
  "n < 64 \<Longrightarrow> in_pool (s\<lparr>bits := bits s OR 2 ^ n\<rparr>) = insert n (in_pool s)"
  by (auto simp: in_pool_def bit_set_index)

lemma in_pool_release:
  "in_pool (s\<lparr>bits := bits s AND NOT (2 ^ n)\<rparr>) = in_pool s - {n}"
  by (auto simp: in_pool_def bit_clear_index)

lemma ipam_eqI: "base_ip s = base_ip t \<Longrightarrow> in_pool s = in_pool t \<Longrightarrow> s = (t :: IpAm)"
proof -
  assume b: "base_ip s = base_ip t" and p: "in_pool s = in_pool t"
  have "bits s = bits t"
  proof (rule bit_eqI)
    fix n assume "possible_bit TYPE(u64) n"
    then have "n < 64" by simp
    with p show "bit (bits s) n = bit (bits t) n"
      unfolding in_pool_def by blast
  qed
  with b show "s = t" by simp
qed

lemma unat_address: "ipam_wf s \<Longrightarrow> i < 64 \<Longrightarrow> unat (address s i) = unat (base_ip s) + i"
proof -
  assume wf: "ipam_wf s" and i: "i < 64"
  have "unat (address s i) = (unat (base_ip s) + unat (of_nat i :: u32)) mod 2 ^ 32"
    by (simp add: address_def unat_word_ariths)
  also have "\<dots> = (unat (base_ip s) + i) mod 2 ^ 32"
    using i by (simp add: unat_of_nat)
  also have "\<dots> = unat (base_ip s) + i"
    using wf i by (simp add: ipam_wf_def)
  finally show ?thesis .
qed

lemma address_inj: "ipam_wf s \<Longrightarrow> i < 64 \<Longrightarrow> j < 64 \<Longrightarrow> address s i = address s j \<longleftrightarrow> i = j"
  by (metis add_left_cancel unat_address)

lemma address_update [simp]: "address (s\<lparr>bits := b\<rparr>) i = address s i"
  by (simp add: address_def)

lemma ipam_wf_update [simp]: "ipam_wf (s\<lparr>bits := b\<rparr>) = ipam_wf s"
  by (simp add: ipam_wf_def)

lemma release_address:
  assumes wf: "ipam_wf s" and i: "i < 64"
  shows "release (address s i) s = s\<lparr>bits := bits s AND NOT (push_bit i 1)\<rparr>"
proof -
  have u: "unat (address s i) = unat (base_ip s) + i"
    using wf i by (rule unat_address)
  have "\<not> address s i < base_ip s"
    using u by (simp add: word_less_nat_alt)
  moreover have "address s i - base_ip s = of_nat i"
    by (simp add: address_def)
  moreover have "unat (of_nat i :: u32) = i" and "(of_nat i :: u32) < 64"
    using i by (simp_all add: unat_of_nat word_less_nat_alt)
  ultimately show ?thesis by (simp add: release_def Let_def)
qed

lemma release_other:
  assumes "\<And>i. i < 64 \<Longrightarrow> ip \<noteq> address s i"
  shows "release ip s = s"
proof -
  have "\<not> ip - base_ip s < 64"
  proof
    assume "ip - base_ip s < 64"
    then have "unat (ip - base_ip s) < 64" by (simp add: word_less_nat_alt)
    moreover have "ip = address s (unat (ip - base_ip s))"
      by (simp add: address_def)
    ultimately show False using assms by blast
  qed
  then show ?thesis by (simp add: release_def Let_def)
qed

lemma allocate_Inr:
  assumes "allocate s = (Inr ip, s')"
  obtains n where "n < 64" "n \<notin> in_pool s" "\<And>i. i < n \<Longrightarrow> i \<in> in_pool s"
    "ip = address s n" "s' = s\<lparr>bits := bits s OR push_bit n 1\<rparr>"
proof -
  let ?n = "trailing_zeros (NOT (bits s))"
  have n: "?n < 64" and ip: "ip = address s ?n" "s' = s\<lparr>bits := bits s OR push_bit ?n 1\<rparr>"
    using assms by (auto simp: allocate_eq Let_def split: if_splits)
  have "?n \<notin> in_pool s" and "\<And>i. i < ?n \<Longrightarrow> i \<in> in_pool s"
    using n first_free_64 [where w = "bits s"] by (auto simp: in_pool_def)
  with n ip that show thesis by blast
qed

lemma allocate_Inl:
  "allocate s = (Inl e, s') \<longleftrightarrow> e = ''No free IPs'' \<and> s' = s \<and> in_pool s = {..<64}"
proof
  assume "allocate s = (Inl e, s')"
  then have "64 \<le> trailing_zeros (NOT (bits s))" and r: "e = ''No free IPs''" "s' = s"
    by (auto simp: allocate_eq Let_def split: if_splits)
  then have "bit (bits s) i" if "i < 64" for i
    using that first_free_64(2) [where w = "bits s" and i = i] by simp
  with r show "e = ''No free IPs'' \<and> s' = s \<and> in_pool s = {..<64}"
    by (auto simp: in_pool_def)
next
  assume a: "e = ''No free IPs'' \<and> s' = s \<and> in_pool s = {..<64}"
  have "\<not> trailing_zeros (NOT (bits s)) < 64"
    using a first_free_64(1) [where w = "bits s"] by (auto simp: in_pool_def)
  with a show "allocate s = (Inl e, s')" by (simp add: allocate_eq)
qed

section \<open>The allocator interface\<close>

text \<open>Up to \<open>n\<close> allocations in a row, stopping at the first failure.\<close>

fun alloc_n :: "('s, 'e, 'i) op \<Rightarrow> nat \<Rightarrow> 's \<Rightarrow> 'i list \<times> 's" where
  "alloc_n alloc 0 s = ([], s)"
| "alloc_n alloc (Suc n) s =
     (case alloc s of (Inl e, s') \<Rightarrow> ([], s')
      | (Inr i, s') \<Rightarrow> (case alloc_n alloc n s' of (is, s'') \<Rightarrow> (i # is, s'')))"

text \<open>
  What a client of an allocator relies on: a fresh identifier on success, no change on
  failure, and a release that undoes the allocation.
\<close>

locale id_pool =
  fixes alloc :: "('s, 'e, 'i) op"
    and free :: "'i \<Rightarrow> 's \<Rightarrow> 's"
    and used :: "'s \<Rightarrow> 'i set"
    and wf :: "'s \<Rightarrow> bool"
  assumes alloc_fresh: "wf s \<Longrightarrow> alloc s = (Inr i, s') \<Longrightarrow> i \<notin> used s \<and> used s' = insert i (used s) \<and> wf s'"
    and alloc_fail: "alloc s = (Inl e, s') \<Longrightarrow> s' = s"
    and free_used: "wf s \<Longrightarrow> i \<in> used s \<Longrightarrow> used (free i s) = used s - {i} \<and> wf (free i s)"
    and free_undo: "wf s \<Longrightarrow> alloc s = (Inr i, s') \<Longrightarrow> free i s' = s"
begin

lemma alloc_n_distinct:
  "wf s \<Longrightarrow> alloc_n alloc n s = (is, s') \<Longrightarrow>
     distinct is \<and> set is \<inter> used s = {} \<and> used s' = used s \<union> set is \<and> wf s'"
proof (induction n arbitrary: s "is")
  case 0
  then show ?case by simp
next
  case (Suc n)
  show ?case
  proof (cases "alloc s")
    case (Pair r t)
    then show ?thesis
    proof (cases r)
      case (Inl e)
      with Suc.prems Pair alloc_fail [of s e t] show ?thesis by simp
    next
      case (Inr i)
      obtain js where js: "alloc_n alloc n t = (js, s')" "is = i # js"
        using Suc.prems Pair Inr by (auto split: prod.splits)
      have f: "i \<notin> used s" "used t = insert i (used s)" "wf t"
        using alloc_fresh Suc.prems(1) Pair Inr by blast+
      with Suc.IH [OF f(3) js(1)] js(2) show ?thesis by auto
    qed
  qed
qed

lemma free_all_undo:
  "wf s \<Longrightarrow> alloc_n alloc n s = (is, s') \<Longrightarrow> foldr free is s' = s"
proof (induction n arbitrary: s "is")
  case 0
  then show ?case by simp
next
  case (Suc n)
  show ?case
  proof (cases "alloc s")
    case (Pair r t)
    then show ?thesis
    proof (cases r)
      case (Inl e)
      with Suc.prems Pair alloc_fail [of s e t] show ?thesis by simp
    next
      case (Inr i)
      obtain js where js: "alloc_n alloc n t = (js, s')" "is = i # js"
        using Suc.prems Pair Inr by (auto split: prod.splits)
      have "wf t" using alloc_fresh Suc.prems(1) Pair Inr by blast
      with Suc.IH js have "foldr free js s' = t" by blast
      with js(2) free_undo [OF Suc.prems(1)] Pair Inr show ?thesis by simp
    qed
  qed
qed

end

lemma allocate_release_undo:
  assumes wf: "ipam_wf s" and a: "allocate s = (Inr ip, s')"
  shows "release ip s' = s"
proof -
  from a obtain n where n: "n < 64" "n \<notin> in_pool s" "ip = address s n"
      "s' = s\<lparr>bits := bits s OR push_bit n 1\<rparr>"
    by (rule allocate_Inr)
  have "release (address s' n) s' = s'\<lparr>bits := bits s' AND NOT (push_bit n 1)\<rparr>"
    using wf n by (intro release_address) simp_all
  moreover have "in_pool (s'\<lparr>bits := bits s' AND NOT (push_bit n 1)\<rparr>) = in_pool s"
    using n by (auto simp: in_pool_def bit_set_index bit_clear_index)
  ultimately show ?thesis
    using n by (intro ipam_eqI) simp_all
qed

interpretation ipam: id_pool allocate release in_use ipam_wf
proof
  fix s i s'
  assume wf: "ipam_wf s" and a: "allocate s = (Inr i, s')"
  from a obtain n where n: "n < 64" "n \<notin> in_pool s" "i = address s n"
      "s' = s\<lparr>bits := bits s OR push_bit n 1\<rparr>"
    by (rule allocate_Inr)
  have "i \<notin> in_use s"
    using n wf address_inj [OF wf] by (auto simp: in_use_def in_pool_def)
  moreover have "in_use s' = insert i (in_use s)"
    using n in_pool_alloc [of n s] by (simp add: in_use_def)
  ultimately show "i \<notin> in_use s \<and> in_use s' = insert i (in_use s) \<and> ipam_wf s'"
    using wf n by simp
next
  fix s e s'
  assume "allocate s = (Inl e, s')"
  then show "s' = s" by (simp add: allocate_Inl)
next
  fix s i
  assume wf: "ipam_wf s" and "i \<in> in_use s"
  then obtain k where k: "k < 64" "i = address s k" by (auto simp: in_use_def in_pool_def)
  then have r: "release i s = s\<lparr>bits := bits s AND NOT (push_bit k 1)\<rparr>"
    using wf by (simp add: release_address)
  have "address s ` (in_pool s - {k}) = address s ` in_pool s - {address s k}"
    using address_inj [OF wf] k by (auto simp: in_pool_def)
  then show "in_use (release i s) = in_use s - {i} \<and> ipam_wf (release i s)"
    using r k wf by (simp add: in_use_def in_pool_release)
next
  fix s i s'
  assume "ipam_wf s" and "allocate s = (Inr i, s')"
  then show "release i s' = s" by (rule allocate_release_undo)
qed

section \<open>Interleavings\<close>

text \<open>
  A thread is idle or has loaded a value and is about to compare and exchange. \<open>grants\<close>
  records who holds which address. The steps of different threads interleave freely.
\<close>

datatype ip_pc = Idle | Loaded u64

record ip_sys =
  pool :: IpAm
  pcs :: "nat \<Rightarrow> ip_pc"
  grants :: "(nat \<times> u32) list"

definition init_ip_sys :: "u32 \<Rightarrow> ip_sys" where
  "init_ip_sys base = \<lparr>pool = new_IpAm base, pcs = (\<lambda>_. Idle), grants = []\<rparr>"

inductive ipam_step :: "ip_sys \<Rightarrow> ip_sys \<Rightarrow> bool" where
  load: "pcs s t = Idle \<Longrightarrow> ipam_step s (s\<lparr>pcs := (pcs s)(t := Loaded (bits (pool s)))\<rparr>)"
| granted: "pcs s t = Loaded current \<Longrightarrow> allocate_body current (pool s) = (Inr (Some ip), p) \<Longrightarrow>
    ipam_step s (s\<lparr>pool := p, pcs := (pcs s)(t := Idle), grants := (t, ip) # grants s\<rparr>)"
| lost_race: "pcs s t = Loaded current \<Longrightarrow> allocate_body current (pool s) = (Inr None, p) \<Longrightarrow>
    ipam_step s (s\<lparr>pool := p, pcs := (pcs s)(t := Idle)\<rparr>)"
| exhausted: "pcs s t = Loaded current \<Longrightarrow> allocate_body current (pool s) = (Inl e, p) \<Longrightarrow>
    ipam_step s (s\<lparr>pool := p, pcs := (pcs s)(t := Idle)\<rparr>)"
| released: "(t, ip) \<in> set (grants s) \<Longrightarrow>
    ipam_step s (s\<lparr>pool := release ip (pool s), grants := remove1 (t, ip) (grants s)\<rparr>)"

definition grants_exclusive :: "ip_sys \<Rightarrow> bool" where
  "grants_exclusive s \<longleftrightarrow>
     ipam_wf (pool s) \<and> distinct (map snd (grants s)) \<and> snd ` set (grants s) = in_use (pool s)"

lemma allocate_body_granted:
  assumes "allocate_body current s = (Inr (Some ip), s')"
  shows "allocate s = (Inr ip, s')"
proof -
  have "bits s = current"
    using assms by (auto simp: allocate_body_def compare_exchange_def Let_def split: if_splits)
  with assms show ?thesis by (subst allocate.simps) simp
qed

lemma allocate_body_unchanged:
  assumes "allocate_body current s = (Inr None, s') \<or> allocate_body current s = (Inl e, s')"
  shows "s' = s"
  using assms by (auto simp: allocate_body_def compare_exchange_def Let_def split: if_splits)

lemma distinct_remove1_snd:
  assumes "distinct (map snd xs)" and "x \<in> set xs"
  shows "distinct (map snd (remove1 x xs)) \<and> snd ` set (remove1 x xs) = snd ` set xs - {snd x}"
  using assms by (induction xs) (auto dest: set_remove1_subset [THEN subsetD])

interpretation ipam_threads: invariant_system ipam_step grants_exclusive
proof
  fix s t
  assume "ipam_step s t" and inv: "grants_exclusive s"
  then show "grants_exclusive t"
  proof (cases rule: ipam_step.cases)
    case (load tid)
    then show ?thesis using inv by (simp add: grants_exclusive_def)
  next
    case (granted tid current ip p)
    have "allocate (pool s) = (Inr ip, p)" using granted(3) by (rule allocate_body_granted)
    then have "ip \<notin> in_use (pool s) \<and> in_use p = insert ip (in_use (pool s)) \<and> ipam_wf p"
      using inv ipam.alloc_fresh [of "pool s" ip p] by (simp add: grants_exclusive_def)
    then show ?thesis using granted(1) inv by (auto simp: grants_exclusive_def)
  next
    case (lost_race tid current p)
    then show ?thesis using inv allocate_body_unchanged [of current "pool s" p]
      by (simp add: grants_exclusive_def)
  next
    case (exhausted tid current e p)
    then show ?thesis using inv allocate_body_unchanged [of current "pool s" p e]
      by (simp add: grants_exclusive_def)
  next
    case (released tid ip)
    have "ip \<in> in_use (pool s)" using released(2) inv by (force simp: grants_exclusive_def)
    then have "in_use (release ip (pool s)) = in_use (pool s) - {ip} \<and> ipam_wf (release ip (pool s))"
      using inv ipam.free_used by (simp add: grants_exclusive_def)
    then show ?thesis
      using released inv distinct_remove1_snd [of "grants s" "(tid, ip)"]
      by (simp add: grants_exclusive_def)
  qed
qed

lemma init_grants_exclusive: "unat base + 64 \<le> 2 ^ 32 \<Longrightarrow> grants_exclusive (init_ip_sys base)"
  by (simp add: grants_exclusive_def init_ip_sys_def new_IpAm_def ipam_wf_def in_use_def in_pool_def)

section \<open>Properties\<close>

text \<open>
  C7. Under every interleaving of any number of threads that allocate and release, starting
  from a new pool whose 64 addresses do not wrap, no address is held twice and the bitset
  records exactly the addresses that are held.
\<close>

theorem ipam_no_double_grant:
  assumes "unat base + 64 \<le> 2 ^ 32" and "ipam_step\<^sup>*\<^sup>* (init_ip_sys base) s"
  shows "distinct (map snd (grants s)) \<and> snd ` set (grants s) = in_use (pool s)"
  using ipam_threads.inv_steps [OF assms(2)] init_grants_exclusive [OF assms(1)]
  by (simp add: grants_exclusive_def)

definition race_end :: ip_sys where
  "race_end = \<lparr>pool = \<lparr>bits = 1, base_ip = 0x0A000001\<rparr>, pcs = (\<lambda>_. Idle)(1 := Loaded 0, 0 := Idle),
     grants = [(0, 0x0A000001)]\<rparr>"

lemma race_run: "ipam_step\<^sup>*\<^sup>* (init_ip_sys 0x0A000001) race_end"
proof -
  let ?s0 = "init_ip_sys 0x0A000001"
  let ?s1 = "?s0\<lparr>pcs := (pcs ?s0)(0 := Loaded (bits (pool ?s0)))\<rparr>"
  let ?s2 = "?s1\<lparr>pcs := (pcs ?s1)(1 := Loaded (bits (pool ?s1)))\<rparr>"
  have "ipam_step ?s0 ?s1" by (rule ipam_step.load) (simp add: init_ip_sys_def)
  moreover have "ipam_step ?s1 ?s2" by (rule ipam_step.load) (simp add: init_ip_sys_def)
  moreover have "ipam_step ?s2 race_end"
  proof -
    have "trailing_zeros (NOT (0 :: u64)) = 0" by (simp add: trailing_zeros_def upt_conv_Cons)
    then have "allocate_body 0 (pool ?s2) = (Inr (Some 0x0A000001), \<lparr>bits = 1, base_ip = 0x0A000001\<rparr>)"
      by (simp add: allocate_body_def compare_exchange_def init_ip_sys_def new_IpAm_def)
    moreover have "pcs ?s2 0 = Loaded 0" by (simp add: init_ip_sys_def new_IpAm_def)
    ultimately have "ipam_step ?s2 (?s2\<lparr>pool := \<lparr>bits = 1, base_ip = 0x0A000001\<rparr>, pcs := (pcs ?s2)(0 := Idle),
        grants := (0, 0x0A000001) # grants ?s2\<rparr>)"
      by (rule ipam_step.granted [rotated])
    then show ?thesis by (simp add: race_end_def init_ip_sys_def new_IpAm_def fun_upd_twist)
  qed
  ultimately show ?thesis by (meson rtranclp.rtrancl_refl rtranclp.rtrancl_into_rtrancl)
qed

theorem ipam_no_double_grant_witness:
  "distinct (map snd (grants race_end)) \<and> snd ` set (grants race_end) = in_use (pool race_end)
   \<and> pcs race_end 1 = Loaded 0"
  using ipam_no_double_grant [OF _ race_run] by (simp add: race_end_def)

text \<open>
  C34. \<open>allocate\<close> returns the base address plus the lowest free index, marks exactly that
  index, and fails without effect exactly when all 64 indices are taken.
\<close>

theorem allocate_least_free:
  "case allocate s of
     (Inr ip, s') \<Rightarrow> (\<exists>n. n < 64 \<and> n \<notin> in_pool s \<and> {..<n} \<subseteq> in_pool s \<and> ip = base_ip s + of_nat n
                       \<and> in_pool s' = insert n (in_pool s) \<and> base_ip s' = base_ip s)
   | (Inl e, s') \<Rightarrow> in_pool s = {..<64} \<and> s' = s \<and> e = ''No free IPs''"
proof (cases "allocate s")
  case (Pair r s')
  show ?thesis
  proof (cases r)
    case (Inl e)
    then show ?thesis using Pair allocate_Inl [of s e s'] by simp
  next
    case (Inr ip)
    with Pair obtain n where "n < 64" "n \<notin> in_pool s" "\<And>i. i < n \<Longrightarrow> i \<in> in_pool s"
        "ip = address s n" "s' = s\<lparr>bits := bits s OR push_bit n 1\<rparr>"
      by (auto elim: allocate_Inr)
    then show ?thesis
      using Pair Inr in_pool_alloc [of n s] by (auto simp: address_def intro!: exI [of _ n])
  qed
qed

text \<open>
  Releasing the address that was just allocated restores the pool exactly, and releasing
  an address outside the pool's 64 addresses changes nothing.
\<close>

theorem allocate_release_roundtrip:
  assumes "unat (base_ip s) + 64 \<le> 2 ^ 32"
  shows "(allocate s = (Inr ip, s') \<longrightarrow> release ip s' = s)
         \<and> (ip \<notin> (\<lambda>i. base_ip s + of_nat i) ` {..<64} \<longrightarrow> release ip s = s)"
proof -
  have "ipam_wf s" using assms by (simp add: ipam_wf_def)
  then show ?thesis
    using ipam.free_undo [of s ip s'] release_other [of ip s] by (auto simp: address_def)
qed

theorem allocate_release_roundtrip_witness:
  "release 0x0A000001 \<lparr>bits = 1, base_ip = 0x0A000001\<rparr> = new_IpAm 0x0A000001"
proof -
  have "trailing_zeros (NOT (0 :: u64)) = 0" by (simp add: trailing_zeros_def upt_conv_Cons)
  then have "allocate (new_IpAm 0x0A000001) = (Inr 0x0A000001, \<lparr>bits = 1, base_ip = 0x0A000001\<rparr>)"
    by (simp add: allocate_eq address_def new_IpAm_def)
  with allocate_release_roundtrip [of "new_IpAm 0x0A000001"] show ?thesis
    by (simp add: new_IpAm_def)
qed

lemma allocate_in_order:
  assumes "in_pool s = {..<n}" and "n < 64"
  shows "\<exists>s'. allocate s = (Inr (address s n), s') \<and> in_pool s' = {..<Suc n} \<and> base_ip s' = base_ip s"
proof -
  obtain r s' where a: "allocate s = (r, s')" by fastforce
  show ?thesis
  proof (cases r)
    case (Inl e)
    with a have "in_pool s = {..<64}" by (simp add: allocate_Inl)
    with assms show ?thesis by auto
  next
    case (Inr ip)
    with a obtain m where m: "m < 64" "m \<notin> in_pool s" "\<And>i. i < m \<Longrightarrow> i \<in> in_pool s"
        "ip = address s m" "s' = s\<lparr>bits := bits s OR push_bit m 1\<rparr>"
      by (auto elim: allocate_Inr)
    have "m = n" using m(2) m(3) [of n] assms(1) by force
    then show ?thesis using a Inr m in_pool_alloc [of m s] assms(1) by auto
  qed
qed

lemma alloc_n_in_order:
  "in_pool s = {..<m} \<Longrightarrow> m \<le> 64 \<Longrightarrow>
   fst (alloc_n allocate n s) = map (\<lambda>i. base_ip s + of_nat i) [m..<min (m + n) 64]"
proof (induction n arbitrary: s m)
  case 0
  then show ?case by simp
next
  case (Suc n)
  show ?case
  proof (cases "m < 64")
    case True
    with Suc.prems obtain s' where s': "allocate s = (Inr (address s m), s')"
        "in_pool s' = {..<Suc m}" "base_ip s' = base_ip s"
      using allocate_in_order by blast
    have "fst (alloc_n allocate n s') = map (\<lambda>i. base_ip s + of_nat i) [Suc m..<min (Suc m + n) 64]"
      using Suc.IH [OF s'(2)] True s'(3) by simp
    moreover have "[m..<min (m + Suc n) 64] = m # [Suc m..<min (Suc m + n) 64]"
      using True upt_conv_Cons [of m "min (m + Suc n) 64"] by simp
    ultimately show ?thesis
      using s'(1) by (cases "alloc_n allocate n s'") (simp add: address_def)
  next
    case False
    with Suc.prems have "allocate s = (Inl ''No free IPs'', s)"
      by (simp add: allocate_Inl)
    then show ?thesis using False Suc.prems by simp
  qed
qed

text \<open>
  A new pool hands out its 64 addresses in order and then refuses: a request for
  \<open>n\<close> addresses gets the first \<open>min n 64\<close>.
\<close>

theorem fresh_pool_in_order:
  "fst (alloc_n allocate n (new_IpAm base)) = map (\<lambda>i. base + of_nat i) [0..<min n 64]"
proof -
  have "in_pool (new_IpAm base) = {..<0}" by (simp add: in_pool_def new_IpAm_def)
  then show ?thesis
    using alloc_n_in_order [of "new_IpAm base" 0 n] by (simp add: new_IpAm_def)
qed

end
