(* ===== verification/Host_Os.thy ===== *)
theory Host_Os
  imports Microvisor_Common
begin

text \<open>
  What the control plane sees of the host. The kernel, the programs it runs and the crates
  it links are not part of the repository: a record \<open>os\<close> of answer functions stands for
  them. Every external call is appended to the trace in the state, and an answer may depend
  on the whole trace, so that an \<open>os\<close> can be any deterministic host, with any call failing at
  any time. \<open>io::Error\<close> values are represented by the text they print.

  State records of the components extend \<open>sys_state\<close>; \<open>traces_only\<close> says that an operation
  changes nothing of the state but the trace.
\<close>

section \<open>Calls and answers\<close>

datatype call =
    Run string "string list"
  | Exists string
  | ReadDir string
  | ReadFile string
  | WriteFile string string
  | OpenFile string
  | WriteLine string string
  | CreateDir string
  | CreateDirAll string
  | RemoveDir string
  | RemoveDirAll string
  | HardLink string string
  | CopyFile string string
  | Stat string
  | Mknod string u64
  | Chown string u32 u32
  | Canonicalize string
  | OpenTun
  | TunSetIff string u16
  | TunSetPersist bool
  | CloseTun
  | Socket
  | GetIfFlags string
  | SetIfFlags string u16
  | CloseSocket
  | BpfLoad
  | BpfFindMap string
  | BpfMapType string
  | BpfMapSet string nat VmConfig
  | QdiscAddClsact string
  | BpfFindProgram string
  | BpfProgramType string
  | BpfProgramLoad string
  | BpfAttach string string string
  | BpfUnload
  | Spawn string "string list"
  | Kill u32
  | Blocking string
  | Sleep nat
  | Connect string
  | Send bytes
  | Receive
  | CreateFile string
  | WriteBytes string bytes
  | Flush string
  | RemoveFile string
  | WalkDir string
  | HostName
  | Now
  | NewUuid
  | Rpc string

text \<open>An awaited call inside a deadline completes, fails or is abandoned when the time is over.\<close>

datatype timed = Elapsed | Failure string

record os =
  sys :: "call \<Rightarrow> call list \<Rightarrow> string + unit"
  run :: "string \<Rightarrow> string list \<Rightarrow> call list \<Rightarrow> string + bool \<times> bytes"
  path_exists :: "string \<Rightarrow> call list \<Rightarrow> bool"
  dir_entries :: "string \<Rightarrow> call list \<Rightarrow> string + (string + string) list"
  file_text :: "string \<Rightarrow> call list \<Rightarrow> string + string"
  rdev :: "string \<Rightarrow> call list \<Rightarrow> string + u64"
  real_path :: "string \<Rightarrow> call list \<Rightarrow> string + string"
  if_flags :: "string \<Rightarrow> call list \<Rightarrow> string + u16"
  child_pid :: "call list \<Rightarrow> string + u32"
  clock_ms :: "call list \<Rightarrow> nat"
  awaited :: "call \<Rightarrow> call list \<Rightarrow> timed + unit"
  received :: "call list \<Rightarrow> timed + bytes"

record sys_state =
  trace :: "call list"

section \<open>Performing a call\<close>

definition perform :: "call \<Rightarrow> (call list \<Rightarrow> 'e + 'a) \<Rightarrow> ('s sys_state_scheme, 'e, 'a) op" where
  "perform c answer s = (answer (trace s), s\<lparr>trace := trace s @ [c]\<rparr>)"

definition sys_call :: "'x os_scheme \<Rightarrow> call \<Rightarrow> ('s sys_state_scheme, string, unit) op" where
  "sys_call os c = perform c (sys os c)"

definition exists_path :: "'x os_scheme \<Rightarrow> string \<Rightarrow> ('s sys_state_scheme, string, bool) op" where
  "exists_path os p = perform (Exists p) (\<lambda>tr. Inr (path_exists os p tr))"

text \<open>
  \<open>Command::status\<close> and \<open>Command::output\<close>: an error when the program cannot be run, otherwise
  whether it exited with status zero, with what it wrote to the standard error.
\<close>

definition run_command :: "'x os_scheme \<Rightarrow> string \<Rightarrow> string list \<Rightarrow> ('s sys_state_scheme, string, bool \<times> bytes) op" where
  "run_command os prog args = perform (Run prog args) (run os prog args)"

text \<open>
  \<open>SyscallAuditor::spawn_blocking\<close>: the closure runs on the blocking pool; the join fails only
  when the task was cancelled before it started, since none of the closures panics.
\<close>

definition spawn_blocking :: "'x os_scheme \<Rightarrow> string \<Rightarrow> ('s sys_state_scheme, string, 'a) op \<Rightarrow> ('s sys_state_scheme, string, 'a) op" where
  "spawn_blocking os name f = and_then (sys_call os (Blocking name)) (\<lambda>_. f)"

text \<open>A value with a destructor: the drop runs when the scope is left, on every path.\<close>

definition with_drop :: "('s, 'e, 'a) op \<Rightarrow> ('s, 'f, unit) op \<Rightarrow> ('s, 'e, 'a) op" where
  "with_drop m d s = (case m s of (r, s') \<Rightarrow> (r, snd (d s')))"

section \<open>Paths\<close>

text \<open>\<open>Path::join\<close>: an absolute second path replaces the first.\<close>

definition path_join :: "string \<Rightarrow> string \<Rightarrow> string" where
  "path_join base p =
     (if starts_with p ''/'' then p
      else if base = [] \<or> ends_with base ''/'' then base @ p
      else base @ ''/'' @ p)"

lemma path_join_relative:
  "base \<noteq> [] \<Longrightarrow> \<not> suffix ''/'' base \<Longrightarrow> \<not> prefix ''/'' p \<Longrightarrow> path_join base p = base @ ''/'' @ p"
  by (simp add: path_join_def starts_with_def ends_with_def)

section \<open>Operations that only extend the trace\<close>

text \<open>
  \<open>makes P m\<close>: whatever its outcome, \<open>m\<close> changes nothing of the state but the trace, to which it
  adds calls that satisfy \<open>P\<close>.
\<close>

definition makes :: "(call \<Rightarrow> bool) \<Rightarrow> ('s sys_state_scheme, 'e, 'a) op \<Rightarrow> bool" where
  "makes P m \<longleftrightarrow> (\<forall>s. \<exists>cs. list_all P cs \<and> snd (m s) = s\<lparr>trace := trace s @ cs\<rparr>)"

abbreviation traces_only :: "('s sys_state_scheme, 'e, 'a) op \<Rightarrow> bool" where
  "traces_only m \<equiv> makes (\<lambda>_. True) m"

named_theorems trace_intros \<open>operations that only extend the trace\<close>

lemma makesE:
  assumes "makes P m" and "m s = (r, t)"
  obtains cs where "list_all P cs" "t = s\<lparr>trace := trace s @ cs\<rparr>"
  using assms by (metis makes_def snd_conv)

lemma makes_mono: "makes P m \<Longrightarrow> (\<And>c. P c \<Longrightarrow> Q c) \<Longrightarrow> makes Q m"
  unfolding makes_def by (meson list.pred_mono_strong)

lemma makes_perform [trace_intros]: "P c \<Longrightarrow> makes P (perform c f)"
  by (auto simp: makes_def perform_def intro!: exI [of _ "[c]"])

lemma makes_ret [trace_intros]: "makes P (ret_ok x)" "makes P (ret_err e)" "makes P (lift_res r)"
  by (auto simp: makes_def ret_ok_def ret_err_def lift_res_def intro: exI [of _ "[]"])

lemma makes_then [trace_intros]:
  assumes "makes P m" and "\<And>x. makes P (k x)"
  shows "makes P (and_then m k)"
  unfolding makes_def
proof
  fix s
  obtain r t where m: "m s = (r, t)" by (cases "m s")
  then obtain cs where t: "list_all P cs" "t = s\<lparr>trace := trace s @ cs\<rparr>" by (rule makesE [OF assms(1)])
  show "\<exists>cs. list_all P cs \<and> snd (and_then m k s) = s\<lparr>trace := trace s @ cs\<rparr>"
  proof (cases r)
    case (Inl e)
    with m t show ?thesis by (auto simp: and_then_def)
  next
    case (Inr x)
    obtain ds where "list_all P ds" "snd (k x t) = t\<lparr>trace := trace t @ ds\<rparr>" using assms(2) [of x] by (auto simp: makes_def)
    with m t Inr show ?thesis by (auto simp: and_then_def intro!: exI [of _ "cs @ ds"])
  qed
qed

lemma makes_map_err [trace_intros]: "makes P m \<Longrightarrow> makes P (map_err f m)"
  by (simp add: makes_def)

lemma makes_ignore [trace_intros]: "makes P m \<Longrightarrow> makes P (ignore m)"
  by (simp add: makes_def ignore_def)

lemma makes_after:
  assumes "makes P m" and "makes P d"
  shows "\<exists>cs. list_all P cs \<and> snd (d (snd (m s))) = s\<lparr>trace := trace s @ cs\<rparr>"
proof -
  obtain cs where "list_all P cs" "snd (m s) = s\<lparr>trace := trace s @ cs\<rparr>"
    using assms(1) by (auto simp: makes_def)
  moreover obtain ds where "list_all P ds" "snd (d (snd (m s))) = (snd (m s))\<lparr>trace := trace (snd (m s)) @ ds\<rparr>"
    using assms(2) by (auto simp: makes_def)
  ultimately show ?thesis by (auto intro!: exI [of _ "cs @ ds"])
qed

lemma makes_with_drop [trace_intros]: "makes P m \<Longrightarrow> makes P d \<Longrightarrow> makes P (with_drop m d)"
  using makes_after [of P m d] by (simp add: makes_def [of P "with_drop m d"] with_drop_def split_beta)

lemma makes_on_error [trace_intros]: "makes P m \<Longrightarrow> (\<And>e. makes P (d e)) \<Longrightarrow> makes P (on_error m d)"
proof -
  assume m: "makes P m" and d: "\<And>e. makes P (d e)"
  show ?thesis
    unfolding makes_def
  proof
    fix s
    show "\<exists>cs. list_all P cs \<and> snd (on_error m d s) = s\<lparr>trace := trace s @ cs\<rparr>"
    proof (cases "fst (m s)")
      case (Inl e)
      with makes_after [OF m d [of e], of s] show ?thesis by (cases "m s") (simp add: on_error_def)
    next
      case (Inr x)
      moreover obtain cs where "list_all P cs" "snd (m s) = s\<lparr>trace := trace s @ cs\<rparr>"
        using m by (auto simp: makes_def)
      ultimately show ?thesis by (cases "m s") (auto simp: on_error_def)
    qed
  qed
qed

lemma makes_if [trace_intros]: "makes P m \<Longrightarrow> makes P n \<Longrightarrow> makes P (if b then m else n)"
  by simp

lemma makes_calls [trace_intros]:
  "P c \<Longrightarrow> makes P (sys_call os c)"
  "P (Exists p) \<Longrightarrow> makes P (exists_path os p)"
  "P (Run prog args) \<Longrightarrow> makes P (run_command os prog args)"
  by (auto simp: sys_call_def exists_path_def run_command_def intro: trace_intros)

lemma makes_spawn [trace_intros]: "P (Blocking name) \<Longrightarrow> makes P f \<Longrightarrow> makes P (spawn_blocking os name f)"
  unfolding spawn_blocking_def by (intro trace_intros)

section \<open>Operations that follow a fixed script\<close>

text \<open>
  \<open>follows cs m\<close>: \<open>m\<close> makes the calls \<open>cs\<close> in this order; when it succeeds it has made all of
  them, and when it fails it has made a non-empty part of them, from the start.
\<close>

definition follows :: "call list \<Rightarrow> ('s sys_state_scheme, 'e, 'a) op \<Rightarrow> bool" where
  "follows cs m \<longleftrightarrow>
     (\<forall>s. case m s of
            (Inr _, t) \<Rightarrow> t = s\<lparr>trace := trace s @ cs\<rparr>
          | (Inl _, t) \<Rightarrow> \<exists>k. 0 < k \<and> k \<le> length cs \<and> t = s\<lparr>trace := trace s @ take k cs\<rparr>)"

named_theorems script_intros \<open>operations that follow a script\<close>

lemma follows_Inr: "follows cs m \<Longrightarrow> m s = (Inr x, t) \<Longrightarrow> t = s\<lparr>trace := trace s @ cs\<rparr>"
  by (auto simp: follows_def dest: spec [of _ s])

lemma follows_Inl:
  assumes "follows cs m" and "m s = (Inl e, t)"
  obtains k where "0 < k" "k \<le> length cs" "t = s\<lparr>trace := trace s @ take k cs\<rparr>"
  using assms(1) [unfolded follows_def, THEN spec, of s] assms(2) by auto

lemma follows_perform [script_intros]: "follows [c] (perform c f)"
  by (auto simp: follows_def perform_def intro!: exI [of _ 1] split: sum.splits)

lemma follows_call [script_intros]:
  "follows [c] (sys_call os c)" "follows [Exists p] (exists_path os p)" "follows [Run prog args] (run_command os prog args)"
  by (auto simp: sys_call_def exists_path_def run_command_def intro: script_intros)

lemma follows_ret [script_intros]: "follows [] (ret_ok x)"
  by (simp add: follows_def ret_ok_def)

lemma follows_ignore [script_intros]: "follows [c] (ignore (sys_call os c))"
  by (simp add: follows_def ignore_def sys_call_def perform_def)

lemma follows_map_err [script_intros]: "follows cs m \<Longrightarrow> follows cs (map_err f m)"
  unfolding follows_def map_err_def by (auto split: prod.splits sum.splits) metis+

lemma follows_then [script_intros]:
  assumes m: "follows cs m" and k: "\<And>x. follows ds (k x)"
  shows "follows (cs @ ds) (and_then m k)"
  unfolding follows_def
proof
  fix s
  obtain r t where mt: "m s = (r, t)" by (cases "m s")
  show "case and_then m k s of
            (Inr _, t) \<Rightarrow> t = s\<lparr>trace := trace s @ (cs @ ds)\<rparr>
          | (Inl _, t) \<Rightarrow> \<exists>k. 0 < k \<and> k \<le> length (cs @ ds) \<and> t = s\<lparr>trace := trace s @ take k (cs @ ds)\<rparr>"
  proof (cases r)
    case (Inl e)
    with mt obtain n where "0 < n" "n \<le> length cs" "t = s\<lparr>trace := trace s @ take n cs\<rparr>"
      using follows_Inl [OF m] by blast
    with Inl mt show ?thesis by (auto simp: and_then_def intro!: exI [of _ n])
  next
    case (Inr x)
    then have t: "t = s\<lparr>trace := trace s @ cs\<rparr>" using follows_Inr [OF m] mt by blast
    obtain q u where ku: "k x t = (q, u)" by (cases "k x t")
    show ?thesis
    proof (cases q)
      case (Inl e)
      with ku obtain n where "0 < n" "n \<le> length ds" "u = t\<lparr>trace := trace t @ take n ds\<rparr>"
        using follows_Inl [OF k] by blast
      with Inl Inr mt ku t show ?thesis by (auto simp: and_then_def intro!: exI [of _ "length cs + n"])
    next
      case (Inr y)
      then have "u = t\<lparr>trace := trace t @ ds\<rparr>" using follows_Inr [OF k] ku by blast
      with \<open>r = Inr x\<close> Inr mt ku t show ?thesis by (simp add: and_then_def)
    qed
  qed
qed

lemma follows_spawn [script_intros]: "follows cs f \<Longrightarrow> follows (Blocking name # cs) (spawn_blocking os name f)"
  unfolding spawn_blocking_def using follows_then [OF follows_call(1), of cs "\<lambda>_. f"] by simp

section \<open>A concrete host\<close>

text \<open>
  A host with fixed files on which exactly the calls that satisfy \<open>fails\<close> fail, whose clock
  advances with the sleeps and whose server answers every request with status 204.
\<close>

definition slept :: "call list \<Rightarrow> nat" where
  "slept tr = sum_list (map (\<lambda>c. case c of Sleep n \<Rightarrow> n | _ \<Rightarrow> 0) tr)"

definition no_content :: bytes where
  "no_content = as_bytes (''HTTP/1.1 204 No Content'' @ [CHR 0x0D, CHR 0x0A])"

definition sample_os :: "(call \<Rightarrow> bool) \<Rightarrow> (string \<Rightarrow> string + string) \<Rightarrow> os" where
  "sample_os fails files =
     \<lparr>sys = (\<lambda>c _. if fails c then Inl ''refused'' else Inr ()),
      run = (\<lambda>prog args _. Inr (\<not> fails (Run prog args), [])),
      path_exists = (\<lambda>p _. \<not> fails (Exists p)),
      dir_entries = (\<lambda>p _. if fails (ReadDir p) then Inl ''refused'' else Inr [Inr ''node0'']),
      file_text = (\<lambda>p _. files p),
      rdev = (\<lambda>p _. if fails (Stat p) then Inl ''refused'' else Inr 0),
      real_path = (\<lambda>p _. if fails (Canonicalize p) then Inl ''refused'' else Inr p),
      if_flags = (\<lambda>n _. if fails (GetIfFlags n) then Inl ''refused'' else Inr 0),
      child_pid = (\<lambda>_. Inr 4242),
      clock_ms = slept,
      awaited = (\<lambda>c _. if fails c then Inl (Failure ''refused'') else Inr ()),
      received = (\<lambda>_. if fails Receive then Inl Elapsed else Inr no_content)\<rparr>"

lemma sample_os_sels [simp]:
  "sys (sample_os fails files) c tr = (if fails c then Inl ''refused'' else Inr ())"
  "run (sample_os fails files) prog args tr = Inr (\<not> fails (Run prog args), [])"
  "path_exists (sample_os fails files) p tr = (\<not> fails (Exists p))"
  "dir_entries (sample_os fails files) p tr = (if fails (ReadDir p) then Inl ''refused'' else Inr [Inr ''node0''])"
  "file_text (sample_os fails files) p tr = files p"
  "rdev (sample_os fails files) p tr = (if fails (Stat p) then Inl ''refused'' else Inr 0)"
  "real_path (sample_os fails files) p tr = (if fails (Canonicalize p) then Inl ''refused'' else Inr p)"
  "if_flags (sample_os fails files) n tr = (if fails (GetIfFlags n) then Inl ''refused'' else Inr 0)"
  "child_pid (sample_os fails files) tr = Inr 4242"
  "clock_ms (sample_os fails files) tr = slept tr"
  "awaited (sample_os fails files) c tr = (if fails c then Inl (Failure ''refused'') else Inr ())"
  "received (sample_os fails files) tr = (if fails Receive then Inl Elapsed else Inr no_content)"
  by (simp_all add: sample_os_def)

definition no_files :: "string \<Rightarrow> string + string" where
  "no_files p = Inl ''No such file or directory (os error 2)''"

end
