(* ===== verification/Cgroup.thy ===== *)
theory Cgroup
  imports Host_Os
begin

text \<open>
  CPU and memory placement, \<^verbatim>\<open>control-plane/src/vmm/cgroup.rs\<close>: the NUMA node string, the two
  implementations of the \<open>CpusetAllocator\<close> trait and the cgroup of a VM as operations on the
  host. The \<open>HashSet\<close> of CPU numbers is a list without duplicates; its iteration order does
  not matter because the program sorts it.

  The interface \<open>cpuset_allocator\<close> states what the orchestrator relies on: the result covers
  every CPU that was asked for. The naive allocator meets it by echoing the request, the
  sibling-aware one on every host whose topology files list each CPU among its own siblings.
\<close>

section \<open>Topology\<close>

fun count_node_entries :: "nat \<Rightarrow> (string + string) list \<Rightarrow> string + nat" where
  "count_node_entries n [] = Inr n"
| "count_node_entries n (Inl e # es) = Inl e"
| "count_node_entries n (Inr name # es) = count_node_entries (if starts_with name ''node'' then n + 1 else n) es"

definition get_mems_string :: "'x os_scheme \<Rightarrow> string \<Rightarrow> string \<Rightarrow> ('s sys_state_scheme, string, string) op" where
  "get_mems_string os sysfs_root requested_node =
     (let nodes_dir = path_join sysfs_root ''devices/system/node''
      in and_then (exists_path os nodes_dir) (\<lambda>present.
         and_then (if present
                   then and_then (perform (ReadDir nodes_dir) (dir_entries os nodes_dir)) (\<lambda>es. lift_res (count_node_entries 0 es))
                   else ret_ok 0) (\<lambda>node_count.
         ret_ok (if node_count \<le> 1 then ''0'' else requested_node))))"

section \<open>CPU allocators\<close>

definition naive_allocate_cpus :: "string \<Rightarrow> ('s sys_state_scheme, string, string) op" where
  "naive_allocate_cpus request_cpus = ret_ok request_cpus"

definition sibling_path :: "string \<Rightarrow> u32 \<Rightarrow> string" where
  "sibling_path sysfs_root cpu =
     path_join sysfs_root (''devices/system/cpu/cpu'' @ show_word cpu @ ''/topology/thread_siblings_list'')"

fun insert_siblings :: "string list \<Rightarrow> u32 list \<Rightarrow> string + u32 list" where
  "insert_siblings [] full_set = Inr full_set"
| "insert_siblings (sib # rest) full_set =
     (case parse_u32_res sib of Inl e \<Rightarrow> Inl e | Inr sibling_id \<Rightarrow> insert_siblings rest (List.insert sibling_id full_set))"

fun collect_siblings :: "'x os_scheme \<Rightarrow> string \<Rightarrow> string list \<Rightarrow> u32 list \<Rightarrow> ('s sys_state_scheme, string, u32 list) op" where
  "collect_siblings os root [] full_set = ret_ok full_set"
| "collect_siblings os root (cpu_str # rest) full_set =
     (if cpu_str = [] then collect_siblings os root rest full_set
      else and_then (lift_res (parse_u32_res cpu_str)) (\<lambda>cpu.
           and_then (perform (ReadFile (sibling_path root cpu)) (file_text os (sibling_path root cpu))) (\<lambda>siblings.
           and_then (lift_res (insert_siblings (split_char CHR '','' (trim siblings)) full_set)) (\<lambda>full_set'.
           collect_siblings os root rest full_set'))))"

definition discover_smt_siblings :: "'x os_scheme \<Rightarrow> string \<Rightarrow> string \<Rightarrow> ('s sys_state_scheme, string, u32 list) op" where
  "discover_smt_siblings os root requested_cpus =
     and_then (collect_siblings os root (split_char CHR '','' requested_cpus) []) (\<lambda>full_set. ret_ok (sort full_set))"

definition sibling_allocate_cpus :: "'x os_scheme \<Rightarrow> string \<Rightarrow> string \<Rightarrow> ('s sys_state_scheme, string, string) op" where
  "sibling_allocate_cpus os root request_cpus =
     and_then (discover_smt_siblings os root request_cpus) (\<lambda>siblings. ret_ok (join '','' (map show_word siblings)))"

section \<open>Cgroups\<close>

record VmCgroup =
  cgroup_path :: string
  cgroup_id :: string

definition new_CgroupManager :: "'x os_scheme \<Rightarrow> string \<Rightarrow> ('s sys_state_scheme, string, string) op" where
  "new_CgroupManager os root =
     and_then (exists_path os root) (\<lambda>present.
     and_then (if present then ret_ok () else sys_call os (CreateDirAll root)) (\<lambda>_.
     ret_ok root))"

definition create_vm_cgroup :: "'x os_scheme \<Rightarrow> string \<Rightarrow> string \<Rightarrow> ('s sys_state_scheme, string, VmCgroup) op" where
  "create_vm_cgroup os root_path vm_id =
     (let path = path_join root_path (''vm-'' @ vm_id)
      in spawn_blocking os ''cgroup_create''
           (and_then (exists_path os path) (\<lambda>present.
            and_then (if present then ret_ok () else sys_call os (CreateDir path)) (\<lambda>_.
            ret_ok \<lparr>cgroup_path = path, cgroup_id = vm_id\<rparr>))))"

definition set_cpuset :: "'x os_scheme \<Rightarrow> VmCgroup \<Rightarrow> string \<Rightarrow> string \<Rightarrow> ('s sys_state_scheme, string, unit) op" where
  "set_cpuset os cg cpus mems =
     spawn_blocking os ''fs::write(cpuset.cpus)''
       (and_then (sys_call os (WriteFile (path_join (cgroup_path cg) ''cpuset.cpus'') cpus)) (\<lambda>_.
        sys_call os (WriteFile (path_join (cgroup_path cg) ''cpuset.mems'') mems)))"

definition set_memory_limit :: "'x os_scheme \<Rightarrow> VmCgroup \<Rightarrow> u64 \<Rightarrow> ('s sys_state_scheme, string, unit) op" where
  "set_memory_limit os cg max_bytes =
     spawn_blocking os ''fs::write(memory.max)''
       (and_then (sys_call os (WriteFile (path_join (cgroup_path cg) ''memory.max'') (show_word max_bytes))) (\<lambda>_.
        sys_call os (WriteFile (path_join (cgroup_path cg) ''memory.swap.max'') ''0'')))"

definition add_process :: "'x os_scheme \<Rightarrow> VmCgroup \<Rightarrow> u32 \<Rightarrow> ('s sys_state_scheme, string, unit) op" where
  "add_process os cg pid =
     spawn_blocking os ''fs::OpenOptions::open(cgroup.procs)''
       (and_then (sys_call os (OpenFile (path_join (cgroup_path cg) ''cgroup.procs''))) (\<lambda>_.
        sys_call os (WriteLine (path_join (cgroup_path cg) ''cgroup.procs'') (show_word pid))))"

definition delete_cgroup :: "'x os_scheme \<Rightarrow> VmCgroup \<Rightarrow> ('s sys_state_scheme, string, unit) op" where
  "delete_cgroup os cg =
     spawn_blocking os ''fs::remove_dir''
       (and_then (exists_path os (cgroup_path cg)) (\<lambda>present.
        if present then sys_call os (RemoveDir (cgroup_path cg)) else ret_ok ()))"

section \<open>Every operation only makes file-system calls\<close>

fun is_fs_call :: "call \<Rightarrow> bool" where
  "is_fs_call (Run _ _) = False"
| "is_fs_call (Spawn _ _) = False"
| "is_fs_call (Kill _) = False"
| "is_fs_call (Connect _) = False"
| "is_fs_call (Send _) = False"
| "is_fs_call _ = True"

lemma makes_collect [trace_intros]: "makes is_fs_call (collect_siblings os root cs full)"
  by (induction cs arbitrary: full) (auto intro!: trace_intros)

lemma makes_cgroup [trace_intros]:
  "makes is_fs_call (get_mems_string os root n)" "makes is_fs_call (naive_allocate_cpus r)"
  "makes is_fs_call (sibling_allocate_cpus os root r)" "makes is_fs_call (new_CgroupManager os root)"
  "makes is_fs_call (create_vm_cgroup os root i)" "makes is_fs_call (set_cpuset os cg cpus mems)"
  "makes is_fs_call (set_memory_limit os cg b)" "makes is_fs_call (add_process os cg pid)"
  "makes is_fs_call (delete_cgroup os cg)"
  unfolding get_mems_string_def naive_allocate_cpus_def sibling_allocate_cpus_def discover_smt_siblings_def
    new_CgroupManager_def create_vm_cgroup_def set_cpuset_def set_memory_limit_def add_process_def delete_cgroup_def Let_def
  by (intro trace_intros is_fs_call.simps [THEN iffD2] TrueI)+

section \<open>Sets of CPUs in a comma-separated list\<close>

definition cpu_set :: "string \<Rightarrow> u32 set" where
  "cpu_set text = {n. \<exists>w \<in> set (split_char CHR '','' text). parse_u32 w = Some n}"

lemma parse_empty [simp]: "parse_u32 [] = None"
  by (simp add: parse_u32_def parse_dec_def)

lemma show_word_no_comma: "CHR '','' \<notin> set (show_word (n :: u32))"
proof
  assume "CHR '','' \<in> set (show_word n)"
  then have "is_digit CHR '',''"
    using dec_digits [of "unat n"] by (simp add: show_word_def list_all_iff)
  then show False by (simp add: is_digit_def)
qed

lemma cpu_set_join: "cpu_set (join '','' (map show_word ns)) = set ns"
proof (cases "ns = []")
  case True
  then show ?thesis by (simp add: cpu_set_def)
next
  case False
  then have "split_char CHR '','' (join '','' (map show_word ns)) = map show_word ns"
    using show_word_no_comma by (intro split_join) auto
  then show ?thesis by (auto simp: cpu_set_def parse_show_u32)
qed

lemma insert_siblings_Inr:
  assumes "insert_siblings ws full = Inr out"
  shows "set out = set full \<union> {n. \<exists>w \<in> set ws. parse_u32 w = Some n}" and "distinct full \<Longrightarrow> distinct out"
  using assms
proof (induction ws arbitrary: full)
  case Nil
  {
    case 1
    then show ?case by simp
  next
    case 2
    then show ?case by simp
  }
next
  case (Cons w ws)
  {
    case 1
    then obtain n where "parse_u32 w = Some n" "insert_siblings ws (List.insert n full) = Inr out"
      by (auto split: sum.splits)
    with Cons.IH(1) [of "List.insert n full"] show ?case by auto
  next
    case 2
    then obtain n where "insert_siblings ws (List.insert n full) = Inr out"
      by (auto split: sum.splits)
    with Cons.IH(2) [of "List.insert n full"] 2 show ?case by simp
  }
qed

text \<open>The siblings a static set of topology files gives a CPU.\<close>

definition listed_siblings :: "(string \<Rightarrow> string + string) \<Rightarrow> string \<Rightarrow> u32 \<Rightarrow> u32 set" where
  "listed_siblings files root n =
     (case files (sibling_path root n) of Inr text \<Rightarrow> cpu_set (trim text) | Inl _ \<Rightarrow> {})"

lemma collect_siblings_Inr:
  assumes "\<And>p tr. file_text os p tr = files p"
    and "collect_siblings os root ws full s = (Inr out, t)"
  shows "set out = set full \<union> (\<Union>w \<in> set ws. case parse_u32 w of Some n \<Rightarrow> listed_siblings files root n | None \<Rightarrow> {})"
    and "distinct full \<Longrightarrow> distinct out"
    and "w \<in> set ws \<Longrightarrow> w \<noteq> [] \<Longrightarrow> \<exists>n tx. parse_u32 w = Some n \<and> files (sibling_path root n) = Inr tx"
proof -
  have "set out = set full \<union> (\<Union>w \<in> set ws. case parse_u32 w of Some n \<Rightarrow> listed_siblings files root n | None \<Rightarrow> {})
    \<and> (distinct full \<longrightarrow> distinct out)
    \<and> (\<forall>w \<in> set ws. w \<noteq> [] \<longrightarrow> (\<exists>n tx. parse_u32 w = Some n \<and> files (sibling_path root n) = Inr tx))"
    using assms(2)
  proof (induction ws arbitrary: full s)
    case Nil
    then show ?case by simp
  next
    case (Cons w ws)
    show ?case
    proof (cases "w = []")
      case True
      with Cons show ?thesis by simp
    next
      case False
      with Cons.prems obtain n tx full' s' where
        p: "parse_u32 w = Some n" and f: "files (sibling_path root n) = Inr tx"
        and i: "insert_siblings (split_char CHR '','' (trim tx)) full = Inr full'"
        and r: "collect_siblings os root ws full' s' = (Inr out, t)"
        by (auto simp: and_then_Inr lift_res_def perform_def assms(1))
      from Cons.IH [OF r] insert_siblings_Inr [OF i] p f show ?thesis
        by (auto simp: listed_siblings_def cpu_set_def)
    qed
  qed
  then show "set out = set full \<union> (\<Union>w \<in> set ws. case parse_u32 w of Some n \<Rightarrow> listed_siblings files root n | None \<Rightarrow> {})"
    and "distinct full \<Longrightarrow> distinct out"
    and "w \<in> set ws \<Longrightarrow> w \<noteq> [] \<Longrightarrow> \<exists>n tx. parse_u32 w = Some n \<and> files (sibling_path root n) = Inr tx"
    by auto
qed

lemma sibling_allocate_Inr:
  assumes "\<And>p tr. file_text os p tr = files p"
    and "sibling_allocate_cpus os root request s = (Inr out, t)"
  obtains ns where "out = join '','' (map show_word ns)" "sorted ns" "distinct ns"
    "set ns = (\<Union>n \<in> cpu_set request. listed_siblings files root n)"
    "\<And>n. n \<in> cpu_set request \<Longrightarrow> \<exists>tx. files (sibling_path root n) = Inr tx"
proof -
  obtain full where c: "collect_siblings os root (split_char CHR '','' request) [] s = (Inr full, t)"
    and o: "out = join '','' (map show_word (sort full))"
    using assms(2) by (auto simp: sibling_allocate_cpus_def discover_smt_siblings_def and_then_Inr)
  note collected = collect_siblings_Inr [OF assms(1) c]
  have "set full = (\<Union>n \<in> cpu_set request. listed_siblings files root n)"
    using collected(1) by (fastforce simp: cpu_set_def split: option.splits)
  moreover have "\<exists>tx. files (sibling_path root n) = Inr tx" if "n \<in> cpu_set request" for n
    using that collected(3) by (fastforce simp: cpu_set_def)
  ultimately show thesis using o collected(2) by (intro that [of "sort full"]) auto
qed

section \<open>The allocator interface\<close>

locale cpuset_allocator =
  fixes allocate_cpus :: "string \<Rightarrow> ('s sys_state_scheme, string, string) op"
  assumes effects: "makes is_fs_call (allocate_cpus request)"
    and covers: "allocate_cpus request s = (Inr out, t) \<Longrightarrow> cpu_set request \<subseteq> cpu_set out"
begin

text \<open>A cgroup that is given an allocated set is pinned to at least the CPUs that were requested.\<close>

lemma pinned_covers:
  assumes "allocate_cpus request s = (Inr cpus, t)" and "set_cpuset os cg cpus mems t = (Inr u, t')"
  shows "\<exists>written. WriteFile (path_join (cgroup_path cg) ''cpuset.cpus'') written \<in> set (trace t')
           \<and> cpu_set request \<subseteq> cpu_set written"
  using assms(2) covers [OF assms(1)]
  by (auto simp: set_cpuset_def spawn_blocking_def sys_call_def and_then_Inr perform_def intro!: exI [of _ cpus])

end

interpretation naive: cpuset_allocator naive_allocate_cpus
  by unfold_locales (auto intro: trace_intros simp: naive_allocate_cpus_def)

locale smt_host =
  fixes os :: "'x os_scheme" and files :: "string \<Rightarrow> string + string" and root :: string
  assumes static: "file_text os p tr = files p"
    and own_sibling: "files (sibling_path root n) = Inr text \<Longrightarrow> n \<in> cpu_set (trim text)"

sublocale smt_host \<subseteq> cpuset_allocator "sibling_allocate_cpus os root"
proof
  show "makes is_fs_call (sibling_allocate_cpus os root request)" for request
    by (intro trace_intros)
  show "cpu_set request \<subseteq> cpu_set out"
    if a: "sibling_allocate_cpus os root request s = (Inr out, t)" for request s out t
  proof (rule sibling_allocate_Inr [OF static a])
    fix ns
    assume ns: "out = join '','' (map show_word ns)" "set ns = (\<Union>n \<in> cpu_set request. listed_siblings files root n)"
      "\<And>n. n \<in> cpu_set request \<Longrightarrow> \<exists>tx. files (sibling_path root n) = Inr tx"
    show ?thesis
    proof
      fix n assume n: "n \<in> cpu_set request"
      with ns(3) obtain tx where tx: "files (sibling_path root n) = Inr tx" by blast
      then have "n \<in> listed_siblings files root n" using own_sibling by (simp add: listed_siblings_def)
      with n ns(1,2) show "n \<in> cpu_set out" by (auto simp: cpu_set_join)
    qed
  qed
qed

text \<open>
  C38. On a host with fixed topology files, the sibling-aware allocator returns, in ascending
  order and without repetition, exactly the CPUs that the files list for the requested ones.
\<close>

theorem sibling_allocation_exact:
  assumes "\<And>p tr. file_text os p tr = files p"
    and "sibling_allocate_cpus os root request s = (Inr out, t)"
  shows "\<exists>ns. out = join '','' (map show_word ns) \<and> sorted ns \<and> distinct ns
    \<and> set ns = (\<Union>n \<in> cpu_set request. listed_siblings files root n) \<and> cpu_set out = set ns"
  by (rule sibling_allocate_Inr [OF assms]) (auto simp: cpu_set_join)

text \<open>The host of the repository's unit test: CPUs 0 and 4, and 1 and 5, share a core.\<close>

definition test_topology :: "string \<Rightarrow> string + string" where
  "test_topology p =
     (if p = sibling_path ''/sys'' 0 \<or> p = sibling_path ''/sys'' 4 then Inr ''0,4''
      else if p = sibling_path ''/sys'' 1 \<or> p = sibling_path ''/sys'' 5 then Inr ''1,5''
      else Inl ''No such file or directory (os error 2)'')"

abbreviation quiet_os :: "(string \<Rightarrow> string + string) \<Rightarrow> os" where
  "quiet_os files \<equiv> sample_os (\<lambda>_. False) files"

lemma show_u32_inj [simp]: "show_word (a :: u32) = show_word b \<longleftrightarrow> a = b"
  by (metis parse_show_u32 option.inject)

lemma sibling_path_inj [simp]: "sibling_path root a = sibling_path root b \<longleftrightarrow> a = b"
  by (simp add: sibling_path_def path_join_def starts_with_def)

lemmas parse_eval = parse_u32_res_def parse_u32_def parse_dec_def dec_value_def is_digit_def digit_val_def

lemma test_allocation:
  "sibling_allocate_cpus (quiet_os test_topology) ''/sys'' ''0,1'' \<lparr>trace = []\<rparr> =
     (Inr (join '','' (map show_word [0, 1, 4, 5 :: u32])),
      \<lparr>trace = [ReadFile (sibling_path ''/sys'' 0), ReadFile (sibling_path ''/sys'' 1)]\<rparr>)"
  by (simp add: sibling_allocate_cpus_def discover_smt_siblings_def monad_simps perform_def 
      test_topology_def parse_eval Let_def List.insert_def trim_def trim_start_def trim_end_def is_whitespace_def word_le_nat_alt)

theorem sibling_allocation_exact_witness:
  "\<exists>out. fst (sibling_allocate_cpus (quiet_os test_topology) ''/sys'' ''0,1'' \<lparr>trace = []\<rparr>) = Inr out \<and> cpu_set out = {0, 1, 4, 5}"
proof -
  have f: "file_text (quiet_os test_topology) p tr = test_topology p" for p tr by simp
  have r: "cpu_set ''0,1'' = {0, 1}" "cpu_set ''0,4'' = {0, 4}" "cpu_set ''1,5'' = {1, 5}"
    by (auto simp: cpu_set_def parse_eval Let_def)
  show ?thesis
    using sibling_allocation_exact [OF f test_allocation] r unfolding test_allocation
    by (auto simp: listed_siblings_def test_topology_def trim_def trim_start_def trim_end_def is_whitespace_def)
qed

interpretation test_host: smt_host "quiet_os test_topology" test_topology "''/sys''"
proof
  show "file_text (quiet_os test_topology) p tr = test_topology p" for p tr by simp
  show "n \<in> cpu_set (trim tx)" if "test_topology (sibling_path ''/sys'' n) = Inr tx" for n tx
    using that
    by (auto simp: test_topology_def cpu_set_def parse_eval Let_def trim_def trim_start_def trim_end_def
        is_whitespace_def split: if_splits)
qed

section \<open>Range lists\<close>

lemma overflows_first_digits:
  assumes "list_all is_digit ds" and "foldl (\<lambda>acc c. 10 * acc + digit_val c) acc ds \<le> m" and "\<not> is_digit c"
  shows "\<not> overflows_first m acc (ds @ c # rest)"
  using assms
proof (induction ds arbitrary: acc)
  case Nil
  then show ?case by simp
next
  case (Cons d ds)
  have "acc' \<le> foldl (\<lambda>acc c. 10 * acc + digit_val c) acc' ds" for acc'
  proof (induction ds arbitrary: acc')
    case (Cons e ds)
    then show ?case using order_trans [OF _ Cons.IH [of "10 * acc' + digit_val e"]] by simp
  qed simp
  then have "10 * acc + digit_val d \<le> m" using Cons.prems(2) order_trans by fastforce
  with Cons show ?case by simp
qed

lemma digit_not_blank: "is_digit c \<Longrightarrow> \<not> is_whitespace c"
  by (auto simp: is_digit_def is_whitespace_def)

text \<open>
  A topology file in the kernel's range notation (\<open>0-1\<close>) makes the allocation fail: a
  piece with a hyphen is no number.
\<close>

theorem range_list_rejected:
  assumes "\<And>tr. file_text os (sibling_path root n) tr = Inr (show_word (a :: u32) @ ''-'' @ show_word (b :: u32) @ [CHR 0x0A])"
  shows "fst (sibling_allocate_cpus os root (show_word n) s) = Inl ''invalid digit found in string''"
proof -
  obtain d ds where a: "show_word a = d # ds" "is_digit d" "list_all is_digit (show_word a)"
    using dec_nonempty [of "unat a"] dec_digits [of "unat a"] by (cases "show_word a") (auto simp: show_word_def)
  obtain es e where b: "show_word b = es @ [e]" "is_digit e"
    using dec_nonempty [of "unat b"] dec_digits [of "unat b"]
    by (cases "show_word b" rule: rev_cases) (auto simp: show_word_def)
  let ?w = "show_word a @ ''-'' @ show_word b"
  have t: "trim (show_word a @ ''-'' @ show_word b @ [CHR 0x0A]) = ?w"
    using a(1) b(1) digit_not_blank [OF a(2)] digit_not_blank [OF b(2)]
    by (simp add: trim_def trim_start_def trim_end_def is_whitespace_def [of "CHR 0x0A"])
  have sp: "split_char CHR '','' ?w = [?w]"
    using show_word_no_comma by (intro split_char_id) auto
  have "\<not> list_all is_digit ?w" by (simp add: is_digit_def)
  then have p: "parse_u32 ?w = None"
    using a(1,2) is_digit_not_plus by (auto simp: parse_u32_def parse_dec_def Let_def)
  have "\<not> overflows_first (2 ^ 32 - 1) 0 (show_word a @ CHR ''-'' # show_word b)"
    using a(3) unat_bound [of a] dec_value_dec [of "unat a"]
    by (intro overflows_first_digits) (simp_all add: is_digit_def dec_value_def show_word_def)
  then have e: "parse_int_error (2 ^ 32 - 1) ?w = ''invalid digit found in string''"
    using a(1,2) is_digit_not_plus by (auto simp: parse_int_error_def)
  have n: "split_char CHR '','' (show_word n) = [show_word n]" "show_word n \<noteq> []"
    using show_word_no_comma [of n] by (auto intro: split_char_id simp: show_word_def)
  show ?thesis
    using n t sp p e assms
    by (simp add: sibling_allocate_cpus_def discover_smt_siblings_def monad_simps perform_def parse_u32_res_def parse_show_u32)
qed

theorem range_list_rejected_witness:
  "fst (sibling_allocate_cpus (quiet_os (\<lambda>_. Inr (show_word (0 :: u32) @ ''-'' @ show_word (1 :: u32) @ [CHR 0x0A]))) ''/sys''
     (show_word (0 :: u32)) \<lparr>trace = []\<rparr>) = Inl ''invalid digit found in string''"
  by (rule range_list_rejected) simp

end
