(* ===== verification/Storage.thy ===== *)
theory Storage
  imports Host_Os
begin

text \<open>
  Thin snapshots and the metadata drive, \<^verbatim>\<open>control-plane/src/vmm/storage.rs\<close>. A snapshot is
  made by four \<open>dmsetup\<close> commands and removed by two; the atomic counter of device ids is part
  of the state and wraps at 32 bits.

  What the commands do to the thin pool is read off the trace: \<open>slots\<close> are the internal ids
  for which the pool accepted a \<open>create_snap\<close> message and no \<open>delete\<close> message since. The lemmas
  show that a successful create takes exactly one fresh slot and a successful delete returns
  it, and which failures leave a slot taken.
\<close>

section \<open>The model\<close>

record storage_state = sys_state +
  next_device_id :: u32

record StorageManager =
  pool_name :: string

definition new_StorageManager :: "string \<Rightarrow> StorageManager \<times> u32" where
  "new_StorageManager pool = (\<lparr>pool_name = pool\<rparr>, 100)"

definition fetch_add :: "u32 \<Rightarrow> ('s storage_state_scheme, 'e, u32) op" where
  "fetch_add n s = (Inr (next_device_id s), s\<lparr>next_device_id := next_device_id s + n\<rparr>)"

definition run_checked :: "'x os_scheme \<Rightarrow> string \<Rightarrow> string list \<Rightarrow> (bytes \<Rightarrow> string) \<Rightarrow> ('s sys_state_scheme, string, unit) op" where
  "run_checked os prog args failure =
     and_then (run_command os prog args) (\<lambda>(success, stderr). if success then ret_ok () else ret_err (failure stderr))"

definition create_snap_message :: "u32 \<Rightarrow> u32 \<Rightarrow> string" where
  "create_snap_message snap base = ''create_snap '' @ show_word snap @ '' '' @ show_word base"

definition delete_message :: "u32 \<Rightarrow> string" where
  "delete_message snap = ''delete '' @ show_word snap"

definition snapshot_steps :: "'x os_scheme \<Rightarrow> string \<Rightarrow> u32 \<Rightarrow> u32 \<Rightarrow> string \<Rightarrow> ('s sys_state_scheme, string, string) op" where
  "snapshot_steps os pool snap base name =
     and_then (run_checked os ''dmsetup'' [''message'', pool, ''0'', create_snap_message snap base] (\<lambda>_. ''dm_target_msg failed'')) (\<lambda>_.
     and_then (run_checked os ''dmsetup'' [''create'', name, ''--notable''] (\<lambda>_. ''dm_dev_create failed'')) (\<lambda>_.
     and_then (run_checked os ''dmsetup'' [''load'', name, ''--table'', ''0 20971520 thin /dev/mapper/'' @ pool @ '' '' @ show_word snap]
                (\<lambda>_. ''dm_table_load failed'')) (\<lambda>_.
     and_then (run_checked os ''dmsetup'' [''resume'', name] (\<lambda>_. ''dm_dev_resume failed'')) (\<lambda>_.
     ret_ok (''/dev/mapper/'' @ name)))))"

definition create_snapshot :: "'x os_scheme \<Rightarrow> StorageManager \<Rightarrow> u32 \<Rightarrow> string \<Rightarrow> ('s storage_state_scheme, string, string \<times> u32) op" where
  "create_snapshot os sm base_image_internal_id snapshot_name =
     and_then (fetch_add 1) (\<lambda>snapshot_internal_id.
     and_then (spawn_blocking os ''dm_snapshot_create''
                (snapshot_steps os (pool_name sm) snapshot_internal_id base_image_internal_id snapshot_name)) (\<lambda>device_path.
     ret_ok (device_path, snapshot_internal_id)))"

definition delete_snapshot :: "'x os_scheme \<Rightarrow> StorageManager \<Rightarrow> string \<Rightarrow> u32 \<Rightarrow> ('s sys_state_scheme, string, unit) op" where
  "delete_snapshot os sm snapshot_name snapshot_internal_id =
     spawn_blocking os ''dm_snapshot_delete''
       (and_then (run_checked os ''dmsetup'' [''remove'', snapshot_name] (\<lambda>_. ''dm_dev_remove failed'')) (\<lambda>_.
        run_checked os ''dmsetup'' [''message'', pool_name sm, ''0'', delete_message snapshot_internal_id]
          (\<lambda>_. ''dm_target_msg delete failed'')))"

record MetadataDrive =
  drive_path :: string

text \<open>
  \<open>String::from_utf8_lossy\<close> of the standard error is the identity on UTF-8; what replaces other
  bytes is left to the argument \<open>lossy\<close>.
\<close>

definition create_MetadataDrive :: "'x os_scheme \<Rightarrow> (bytes \<Rightarrow> string) \<Rightarrow> string \<Rightarrow> string \<Rightarrow> ('s sys_state_scheme, string, MetadataDrive) op" where
  "create_MetadataDrive os lossy path staging_dir =
     and_then (spawn_blocking os ''metadata_drive_create''
       (and_then (run_checked os ''fallocate'' [''-l'', ''1M'', path] (\<lambda>err. ''fallocate failed: '' @ lossy err)) (\<lambda>_.
        run_checked os ''mke2fs'' [''-t'', ''ext4'', ''-L'', ''METADATA'', ''-d'', staging_dir, path]
          (\<lambda>err. ''mke2fs failed: '' @ lossy err)))) (\<lambda>_.
     ret_ok \<lparr>drive_path = path\<rparr>)"

section \<open>Slots of the thin pool\<close>

definition slot_step :: "'x os_scheme \<Rightarrow> string \<Rightarrow> call list \<Rightarrow> call \<Rightarrow> string set \<Rightarrow> string set" where
  "slot_step os pool tr c slots =
     (case c of
        Run prog args \<Rightarrow>
          if prog = ''dmsetup'' \<and> length args = 4 \<and> take 3 args = [''message'', pool, ''0'']
             \<and> (case run os prog args tr of Inr (success, _) \<Rightarrow> success | Inl _ \<Rightarrow> False)
          then (case strip_prefix (args ! 3) ''create_snap '' of
                  Some ids \<Rightarrow> insert (takeWhile (\<lambda>x. x \<noteq> CHR '' '') ids) slots
                | None \<Rightarrow> (case strip_prefix (args ! 3) ''delete '' of
                            Some i \<Rightarrow> slots - {i} | None \<Rightarrow> slots))
          else slots
      | _ \<Rightarrow> slots)"

fun slots_rev :: "'x os_scheme \<Rightarrow> string \<Rightarrow> call list \<Rightarrow> string set" where
  "slots_rev os pool [] = {}"
| "slots_rev os pool (c # rest) = slot_step os pool (rev rest) c (slots_rev os pool rest)"

definition slots :: "'x os_scheme \<Rightarrow> string \<Rightarrow> call list \<Rightarrow> string set" where
  "slots os pool tr = slots_rev os pool (rev tr)"

lemma slots_snoc [simp]: "slots os pool (tr @ [c]) = slot_step os pool tr c (slots os pool tr)"
  by (simp add: slots_def)

fun no_slot_call :: "call \<Rightarrow> bool" where
  "no_slot_call (Run prog args) \<longleftrightarrow> prog \<noteq> ''dmsetup'' \<or> hd args \<noteq> ''message''"
| "no_slot_call _ \<longleftrightarrow> True"

lemma slot_step_other [simp]: "no_slot_call c \<Longrightarrow> slot_step os pool tr c S = S"
  by (cases c) (auto simp: slot_step_def hd_conv_nth nth_append dest: arg_cong [where f = hd])

lemma slots_append_other: "list_all no_slot_call cs \<Longrightarrow> slots os pool (tr @ cs) = slots os pool tr"
proof (induction cs rule: rev_induct)
  case (snoc c cs)
  then show ?case by (simp flip: append_assoc)
qed simp

lemma makes_slots:
  assumes "makes no_slot_call m" and "m s = (r, t)"
  shows "slots os pool (trace t) = slots os pool (trace s)"
proof -
  obtain cs where "list_all no_slot_call cs" "t = s\<lparr>trace := trace s @ cs\<rparr>"
    using assms by (rule makesE)
  then show ?thesis by (simp add: slots_append_other)
qed

lemma show_word_no_blank: "CHR '' '' \<notin> set (show_word (n :: u32))"
proof
  assume "CHR '' '' \<in> set (show_word n)"
  then have "is_digit CHR '' ''"
    using dec_digits [of "unat n"] by (simp add: show_word_def list_all_iff)
  then show False by (simp add: is_digit_def)
qed

lemma first_word: "takeWhile (\<lambda>x. x \<noteq> CHR '' '') (show_word (n :: u32) @ CHR '' '' # rest) = show_word n"
  using show_word_no_blank [of n] by (subst takeWhile_append2) auto

lemma slot_step_create [simp]:
  "slot_step os pool tr (Run ''dmsetup'' [''message'', pool, ''0'', create_snap_message snap base]) S =
     (case run os ''dmsetup'' [''message'', pool, ''0'', create_snap_message snap base] tr of
        Inr (True, _) \<Rightarrow> insert (show_word snap) S | _ \<Rightarrow> S)"
  using first_word [of snap "show_word base"]
  by (auto simp: slot_step_def create_snap_message_def strip_prefix_def split: sum.splits bool.splits)

lemma slot_step_delete [simp]:
  "slot_step os pool tr (Run ''dmsetup'' [''message'', pool, ''0'', delete_message snap]) S =
     (case run os ''dmsetup'' [''message'', pool, ''0'', delete_message snap] tr of
        Inr (True, _) \<Rightarrow> S - {show_word snap} | _ \<Rightarrow> S)"
  by (auto simp: slot_step_def delete_message_def strip_prefix_def split: sum.splits bool.splits)

section \<open>Outcomes\<close>

lemma run_checked_Inr:
  "run_checked os prog args f s = (Inr u, t) \<longleftrightarrow>
     (\<exists>err. run os prog args (trace s) = Inr (True, err)) \<and> t = s\<lparr>trace := trace s @ [Run prog args]\<rparr>"
  by (auto simp: run_checked_def run_command_def perform_def and_then_def ret_ok_def ret_err_def split: sum.splits)

lemma run_checked_Inl:
  "run_checked os prog args f s = (Inl e, t) \<Longrightarrow>
     \<not> (\<exists>err. run os prog args (trace s) = Inr (True, err)) \<and> t = s\<lparr>trace := trace s @ [Run prog args]\<rparr>"
  by (auto simp: run_checked_def run_command_def perform_def and_then_def ret_ok_def ret_err_def
      split: sum.splits if_splits)

lemma makes_run_checked [trace_intros]: "P (Run prog args) \<Longrightarrow> makes P (run_checked os prog args f)"
proof -
  assume "P (Run prog args)"
  then have "makes P (and_then (run_command os prog args) (\<lambda>(success, stderr). if success then ret_ok () else ret_err (f stderr)))"
    by (intro makes_then makes_calls) (auto intro: makes_ret)
  then show ?thesis by (simp add: run_checked_def)
qed

lemma spawn_blocking_Inr:
  "spawn_blocking os name f s = (Inr x, t) \<longleftrightarrow>
     sys os (Blocking name) (trace s) = Inr () \<and> f (s\<lparr>trace := trace s @ [Blocking name]\<rparr>) = (Inr x, t)"
  by (auto simp: spawn_blocking_def sys_call_def perform_def and_then_def split: sum.splits)

lemma spawn_blocking_Inl:
  "spawn_blocking os name f s = (Inl e, t) \<longleftrightarrow>
     sys os (Blocking name) (trace s) = Inl e \<and> t = s\<lparr>trace := trace s @ [Blocking name]\<rparr>
     \<or> sys os (Blocking name) (trace s) = Inr () \<and> f (s\<lparr>trace := trace s @ [Blocking name]\<rparr>) = (Inl e, t)"
  by (auto simp: spawn_blocking_def sys_call_def perform_def and_then_def split: sum.splits)

lemma slot_create_ok:
  assumes "run_checked os ''dmsetup'' [''message'', pool, ''0'', create_snap_message snap base] f s = (Inr u, t)"
  shows "slots os pool (trace t) = insert (show_word snap) (slots os pool (trace s))"
  using assms by (auto simp: run_checked_Inr)

lemma slot_create_failed:
  assumes "run_checked os ''dmsetup'' [''message'', pool, ''0'', create_snap_message snap base] f s = (Inl e, t)"
  shows "slots os pool (trace t) = slots os pool (trace s)"
  using run_checked_Inl [OF assms] by (auto split: sum.splits bool.splits)

text \<open>The steps after the message to the pool.\<close>

definition device_steps :: "'x os_scheme \<Rightarrow> string \<Rightarrow> u32 \<Rightarrow> string \<Rightarrow> ('s sys_state_scheme, string, string) op" where
  "device_steps os pool snap name =
     and_then (run_checked os ''dmsetup'' [''create'', name, ''--notable''] (\<lambda>_. ''dm_dev_create failed'')) (\<lambda>_.
     and_then (run_checked os ''dmsetup'' [''load'', name, ''--table'', ''0 20971520 thin /dev/mapper/'' @ pool @ '' '' @ show_word snap]
                (\<lambda>_. ''dm_table_load failed'')) (\<lambda>_.
     and_then (run_checked os ''dmsetup'' [''resume'', name] (\<lambda>_. ''dm_dev_resume failed'')) (\<lambda>_.
     ret_ok (''/dev/mapper/'' @ name))))"

lemma makes_device_steps: "makes no_slot_call (device_steps os pool snap name)"
  unfolding device_steps_def by (intro trace_intros) simp_all

lemma snapshot_steps_split:
  "snapshot_steps os pool snap base name =
     and_then (run_checked os ''dmsetup'' [''message'', pool, ''0'', create_snap_message snap base] (\<lambda>_. ''dm_target_msg failed''))
       (\<lambda>_. device_steps os pool snap name)"
  by (simp add: snapshot_steps_def device_steps_def)

lemma snapshot_steps_Inr:
  assumes "snapshot_steps os pool snap base name s = (Inr path, t)"
  shows "slots os pool (trace t) = insert (show_word snap) (slots os pool (trace s))"
    and "path = ''/dev/mapper/'' @ name"
proof -
  obtain u s' where c: "run_checked os ''dmsetup'' [''message'', pool, ''0'', create_snap_message snap base] (\<lambda>_. ''dm_target_msg failed'') s = (Inr u, s')"
    and d: "device_steps os pool snap name s' = (Inr path, t)"
    using assms by (auto simp: snapshot_steps_split and_then_Inr)
  show "slots os pool (trace t) = insert (show_word snap) (slots os pool (trace s))"
    using slot_create_ok [OF c] makes_slots [OF makes_device_steps d, of os pool] by simp
  show "path = ''/dev/mapper/'' @ name" using d by (auto simp: device_steps_def and_then_Inr)
qed

text \<open>When a later step fails, the slot stays taken.\<close>

lemma snapshot_steps_Inl:
  assumes "snapshot_steps os pool snap base name s = (Inl e, t)"
  shows "slots os pool (trace t) =
    (if \<exists>err. run os ''dmsetup'' [''message'', pool, ''0'', create_snap_message snap base] (trace s) = Inr (True, err)
     then insert (show_word snap) (slots os pool (trace s)) else slots os pool (trace s))"
proof -
  let ?msg = "run_checked os ''dmsetup'' [''message'', pool, ''0'', create_snap_message snap base] (\<lambda>_. ''dm_target_msg failed'')"
  consider (refused) "?msg s = (Inl e, t)" | (taken) u s' where "?msg s = (Inr u, s')" "device_steps os pool snap name s' = (Inl e, t)"
    using assms by (auto simp: snapshot_steps_split and_then_Inl)
  then show ?thesis
  proof cases
    case refused
    with slot_create_failed [OF refused] run_checked_Inl [OF refused] show ?thesis by auto
  next
    case taken
    then have "\<exists>err. run os ''dmsetup'' [''message'', pool, ''0'', create_snap_message snap base] (trace s) = Inr (True, err)"
      by (simp add: run_checked_Inr)
    with slot_create_ok [OF taken(1)] makes_slots [OF makes_device_steps taken(2), of os pool]
    show ?thesis by simp
  qed
qed

lemma slots_blocking [simp]: "slots os pool (trace (s\<lparr>trace := trace s @ [Blocking name]\<rparr>)) = slots os pool (trace s)"
  by simp

lemma makes_snapshot_steps: "traces_only (snapshot_steps os pool snap base name)"
  unfolding snapshot_steps_def by (intro trace_intros) simp_all

lemma create_snapshot_Inr:
  assumes "create_snapshot os sm base name s = (Inr (path, snap), t)"
  shows "snap = next_device_id s" and "path = ''/dev/mapper/'' @ name"
    and "slots os (pool_name sm) (trace t) = insert (show_word snap) (slots os (pool_name sm) (trace s))"
    and "\<exists>cs. t = s\<lparr>next_device_id := next_device_id s + 1, trace := trace s @ cs\<rparr>"
proof -
  let ?s = "s\<lparr>next_device_id := next_device_id s + 1\<rparr>"
  let ?r = "?s\<lparr>trace := trace s @ [Blocking ''dm_snapshot_create'']\<rparr>"
  have snap: "snap = next_device_id s"
    and st: "snapshot_steps os (pool_name sm) snap base name ?r = (Inr path, t)"
    using assms by (auto simp: create_snapshot_def and_then_Inr fetch_add_def spawn_blocking_Inr)
  show "snap = next_device_id s" by (rule snap)
  show "path = ''/dev/mapper/'' @ name" by (rule snapshot_steps_Inr(2) [OF st])
  show "slots os (pool_name sm) (trace t) = insert (show_word snap) (slots os (pool_name sm) (trace s))"
    using snapshot_steps_Inr(1) [OF st] by simp
  show "\<exists>cs. t = s\<lparr>next_device_id := next_device_id s + 1, trace := trace s @ cs\<rparr>"
    by (rule makesE [OF makes_snapshot_steps st]) auto
qed

lemma create_snapshot_Inl:
  assumes "create_snapshot os sm base name s = (Inl e, t)"
  shows "\<exists>cs. t = s\<lparr>next_device_id := next_device_id s + 1, trace := trace s @ cs\<rparr>"
proof -
  let ?s = "s\<lparr>next_device_id := next_device_id s + 1\<rparr>"
  have st: "spawn_blocking os ''dm_snapshot_create'' (snapshot_steps os (pool_name sm) (next_device_id s) base name) ?s = (Inl e, t)"
    using assms by (auto simp: create_snapshot_def and_then_Inl fetch_add_def)
  have "traces_only (spawn_blocking os ''dm_snapshot_create'' (snapshot_steps os (pool_name sm) (next_device_id s) base name))"
    by (intro trace_intros makes_snapshot_steps TrueI)
  from this st show ?thesis by (rule makesE) auto
qed

lemma delete_snapshot_Inr:
  assumes "delete_snapshot os sm name snap s = (Inr u, t)"
  shows "slots os (pool_name sm) (trace t) = slots os (pool_name sm) (trace s) - {show_word snap}"
  using assms by (auto simp: delete_snapshot_def spawn_blocking_Inr and_then_Inr run_checked_Inr simp flip: append_assoc)

lemma makes_delete_snapshot [trace_intros]: "traces_only (delete_snapshot os sm name snap)"
  unfolding delete_snapshot_def by (intro trace_intros) simp_all

lemma makes_metadata_drive: "makes no_slot_call (create_MetadataDrive os lossy path staging)"
  unfolding create_MetadataDrive_def by (intro trace_intros) simp_all

text \<open>
  C36. A snapshot takes one slot of the thin pool, named after a counter value that is never
  handed out twice in a row, and deleting it gives back exactly that slot.
\<close>

theorem snapshot_slot_roundtrip:
  assumes "create_snapshot os sm base name s = (Inr (path, snap), t)"
    and "delete_snapshot os sm name snap t = (Inr (), u)"
    and "show_word snap \<notin> slots os (pool_name sm) (trace s)"
  shows "slots os (pool_name sm) (trace t) = insert (show_word snap) (slots os (pool_name sm) (trace s))
    \<and> slots os (pool_name sm) (trace u) = slots os (pool_name sm) (trace s)
    \<and> path = ''/dev/mapper/'' @ name \<and> next_device_id u \<noteq> snap"
proof -
  have "next_device_id u = next_device_id t"
    by (rule makesE [OF makes_delete_snapshot assms(2)]) simp
  then have "next_device_id u \<noteq> snap"
    using create_snapshot_Inr(1,4) [OF assms(1)] by auto
  then show ?thesis
    using create_snapshot_Inr(2,3) [OF assms(1)] delete_snapshot_Inr [OF assms(2)] assms(3) by simp
qed

abbreviation dm_host :: "(string list \<Rightarrow> bool) \<Rightarrow> os" where
  "dm_host fails \<equiv> sample_os (\<lambda>c. case c of Run _ args \<Rightarrow> fails args | _ \<Rightarrow> False) no_files"

definition sample_manager :: StorageManager where "sample_manager = \<lparr>pool_name = ''thin-pool-0''\<rparr>"
definition sample_storage :: storage_state where "sample_storage = \<lparr>trace = [], next_device_id = 100\<rparr>"

lemmas storage_eval =
  create_snapshot_def delete_snapshot_def snapshot_steps_def fetch_add_def spawn_blocking_def sys_call_def
  run_checked_def run_command_def perform_def monad_simps

theorem snapshot_slot_roundtrip_witness:
  "\<exists>t u. create_snapshot (dm_host (\<lambda>_. False)) sample_manager 1 ''vm1'' sample_storage = (Inr (''/dev/mapper/vm1'', 100), t)
     \<and> delete_snapshot (dm_host (\<lambda>_. False)) sample_manager ''vm1'' 100 t = (Inr (), u)
     \<and> slots (dm_host (\<lambda>_. False)) ''thin-pool-0'' (trace u) = {}"
proof -
  let ?os = "dm_host (\<lambda>_. False)"
  obtain t where c: "create_snapshot ?os sample_manager 1 ''vm1'' sample_storage = (Inr (''/dev/mapper/vm1'', 100), t)"
    by (simp add: storage_eval sample_storage_def)
  obtain u where d: "delete_snapshot ?os sample_manager ''vm1'' 100 t = (Inr (), u)"
    by (simp add: storage_eval)
  have "show_word (100 :: u32) \<notin> slots ?os (pool_name sample_manager) (trace sample_storage)"
    by (simp add: sample_storage_def slots_def)
  from snapshot_slot_roundtrip [OF c d this]
  have "slots ?os ''thin-pool-0'' (trace u) = {}"
    by (simp add: sample_manager_def sample_storage_def slots_def)
  with c d show ?thesis by blast
qed

text \<open>
  A snapshot that fails after the pool accepted the message keeps its slot: the error
  carries no identifier, so that no caller can return it.
\<close>

theorem failed_snapshot_keeps_slot:
  assumes "create_snapshot os sm base name s = (Inl e, t)" and "sys os (Blocking ''dm_snapshot_create'') (trace s) = Inr ()"
    and "run os ''dmsetup'' [''message'', pool_name sm, ''0'', create_snap_message (next_device_id s) base]
           (trace s @ [Blocking ''dm_snapshot_create'']) = Inr (True, err)"
  shows "show_word (next_device_id s) \<in> slots os (pool_name sm) (trace t)"
proof -
  let ?r = "s\<lparr>next_device_id := next_device_id s + 1, trace := trace s @ [Blocking ''dm_snapshot_create'']\<rparr>"
  have "snapshot_steps os (pool_name sm) (next_device_id s) base name ?r = (Inl e, t)"
    using assms(1,2) by (auto simp: create_snapshot_def and_then_Inl fetch_add_def spawn_blocking_Inl)
  from snapshot_steps_Inl [OF this] assms(3) show ?thesis by simp
qed

theorem failed_snapshot_keeps_slot_witness:
  "\<exists>t. create_snapshot (dm_host (\<lambda>args. hd args = ''create'')) sample_manager 1 ''vm1'' sample_storage = (Inl ''dm_dev_create failed'', t)
     \<and> show_word (100 :: u32) \<in> slots (dm_host (\<lambda>args. hd args = ''create'')) ''thin-pool-0'' (trace t)"
proof -
  let ?os = "dm_host (\<lambda>args. hd args = ''create'')"
  obtain t where c: "create_snapshot ?os sample_manager 1 ''vm1'' sample_storage = (Inl ''dm_dev_create failed'', t)"
    by (simp add: storage_eval sample_storage_def)
  have "show_word (next_device_id sample_storage) \<in> slots ?os (pool_name sample_manager) (trace t)"
    by (rule failed_snapshot_keeps_slot [OF c]) simp_all
  with c show ?thesis by (simp add: sample_manager_def sample_storage_def)
qed

end
