(* ===== verification/Net_Devices.thy ===== *)
theory Net_Devices
  imports Host_Os
begin

unbundle bit_operations_syntax

text \<open>
  The TAP device of a VM and the loader of its packet programs,
  \<^verbatim>\<open>control-plane/src/vmm/network.rs\<close>. Interface names are copied into a zeroed buffer of
  \<open>IFNAMSIZ\<close> bytes, so that the kernel sees at most 15 of them. The loader is the sequence of
  calls to the \<open>aya\<close> crate; the object is unloaded when a later step fails.

  \<open>tap_status\<close> reads from the trace which interface the open descriptor is bound to and which
  interfaces are persistent. The lemmas show that a device that is created and dropped leaves
  nothing behind, that one whose activation fails does, and that the configuration entry is
  written before a program is attached.
\<close>

section \<open>TAP devices\<close>

definition IFNAMSIZ :: nat where "IFNAMSIZ = 16"
definition IFF_TAP :: u16 where "IFF_TAP = 0x0002"
definition IFF_NO_PI :: u16 where "IFF_NO_PI = 0x1000"
definition IFF_UP :: u16 where "IFF_UP = 0x0001"

record TapDevice =
  tap_name :: string

definition ifr_name :: "string \<Rightarrow> string" where
  "ifr_name name = take (min (length name) (IFNAMSIZ - 1)) name"

definition set_interface_up :: "'x os_scheme \<Rightarrow> string \<Rightarrow> ('s sys_state_scheme, string, unit) op" where
  "set_interface_up os name =
     and_then (sys_call os Socket) (\<lambda>_.
     with_drop
       (and_then (perform (GetIfFlags (ifr_name name)) (if_flags os (ifr_name name))) (\<lambda>flags.
        sys_call os (SetIfFlags (ifr_name name) (flags OR IFF_UP))))
       (sys_call os CloseSocket))"

definition create_TapDevice :: "'x os_scheme \<Rightarrow> string \<Rightarrow> ('s sys_state_scheme, string, TapDevice) op" where
  "create_TapDevice os name =
     spawn_blocking os ''tap_create''
       (and_then (sys_call os OpenTun) (\<lambda>_.
        with_drop
          (and_then (sys_call os (TunSetIff (ifr_name name) (IFF_TAP OR IFF_NO_PI))) (\<lambda>_.
           and_then (sys_call os (TunSetPersist True)) (\<lambda>_.
           and_then (set_interface_up os name) (\<lambda>_.
           ret_ok \<lparr>tap_name = name\<rparr>))))
          (sys_call os CloseTun)))"

definition drop_TapDevice :: "'x os_scheme \<Rightarrow> TapDevice \<Rightarrow> ('s sys_state_scheme, string, unit) op" where
  "drop_TapDevice os tap =
     and_then (sys_call os OpenTun) (\<lambda>_.
     with_drop
       (and_then (sys_call os (TunSetIff (ifr_name (tap_name tap)) (IFF_TAP OR IFF_NO_PI))) (\<lambda>_.
        ignore (sys_call os (TunSetPersist False))))
       (sys_call os CloseTun))"

section \<open>The loader\<close>

definition ok_or :: "string \<Rightarrow> ('s, string, 'a) op \<Rightarrow> ('s, string, 'a) op" where
  "ok_or msg m = map_err (\<lambda>_. msg) m"

definition prefix_err :: "string \<Rightarrow> ('s, string, 'a) op \<Rightarrow> ('s, string, 'a) op" where
  "prefix_err msg m = map_err (\<lambda>e. msg @ e) m"

definition nat_config :: "u32 \<Rightarrow> VmConfig" where
  "nat_config ip = \<lparr>host_ip = to_be ip, guest_ip = to_be 0xA9FE0102, mac = replicate 6 0, pad = replicate 2 0\<rparr>"

definition attach_program :: "'x os_scheme \<Rightarrow> string \<Rightarrow> string \<Rightarrow> string \<Rightarrow> string \<Rightarrow> ('s sys_state_scheme, string, unit) op" where
  "attach_program os prog label tap direction =
     and_then (ok_or (prog @ '' not found'') (sys_call os (BpfFindProgram prog))) (\<lambda>_.
     and_then (prefix_err ''program type: '' (sys_call os (BpfProgramType prog))) (\<lambda>_.
     and_then (prefix_err (label @ '' load: '') (sys_call os (BpfProgramLoad prog))) (\<lambda>_.
     prefix_err (label @ '' attach: '') (sys_call os (BpfAttach prog tap direction)))))"

definition load_nat_program :: "'x os_scheme \<Rightarrow> string \<Rightarrow> u32 \<Rightarrow> ('s sys_state_scheme, string, unit) op" where
  "load_nat_program os tap ip =
     spawn_blocking os ''ebpf_load''
       (and_then (prefix_err ''aya load: '' (sys_call os BpfLoad)) (\<lambda>_.
        on_error
          (and_then (ok_or ''VM_CONFIG map not found'' (sys_call os (BpfFindMap ''VM_CONFIG''))) (\<lambda>_.
           and_then (prefix_err ''array map: '' (sys_call os (BpfMapType ''VM_CONFIG''))) (\<lambda>_.
           and_then (prefix_err ''map set: '' (sys_call os (BpfMapSet ''VM_CONFIG'' 0 (nat_config ip)))) (\<lambda>_.
           and_then (ignore (sys_call os (QdiscAddClsact tap))) (\<lambda>_.
           and_then (attach_program os ''tc_egress'' ''egress'' tap ''Egress'') (\<lambda>_.
           attach_program os ''tc_ingress'' ''ingress'' tap ''Ingress''))))))
          (\<lambda>_. sys_call os BpfUnload)))"

definition drop_EbpfProgram :: "'x os_scheme \<Rightarrow> ('s sys_state_scheme, string, unit) op" where
  "drop_EbpfProgram os = sys_call os BpfUnload"

section \<open>Effects\<close>

fun is_net_call :: "call \<Rightarrow> bool" where
  "is_net_call (Run _ _) = False"
| "is_net_call (Spawn _ _) = False"
| "is_net_call (Kill _) = False"
| "is_net_call (Connect _) = False"
| "is_net_call (Send _) = False"
| "is_net_call (WriteFile _ _) = False"
| "is_net_call (RemoveDirAll _) = False"
| "is_net_call _ = True"

lemma makes_net [trace_intros]:
  "makes is_net_call (create_TapDevice os name)" "makes is_net_call (drop_TapDevice os tap)"
  "makes is_net_call (load_nat_program os name ip)" "makes is_net_call (drop_EbpfProgram os)"
  unfolding create_TapDevice_def set_interface_up_def drop_TapDevice_def load_nat_program_def attach_program_def
    drop_EbpfProgram_def ok_or_def prefix_err_def
  by (intro trace_intros is_net_call.simps [THEN iffD2] TrueI)+

section \<open>Persistent interfaces\<close>

record taps =
  bound :: "string option"
  persistent :: "string set"

definition tap_step :: "'x os_scheme \<Rightarrow> call list \<Rightarrow> call \<Rightarrow> taps \<Rightarrow> taps" where
  "tap_step os tr c t =
     (case c of
        TunSetIff n _ \<Rightarrow> if sys os c tr = Inr () then t\<lparr>bound := Some n\<rparr> else t
      | TunSetPersist b \<Rightarrow>
          (case bound t of
             Some n \<Rightarrow> if sys os c tr = Inr ()
                       then t\<lparr>persistent := (if b then insert n (persistent t) else persistent t - {n})\<rparr> else t
           | None \<Rightarrow> t)
      | CloseTun \<Rightarrow> t\<lparr>bound := None\<rparr>
      | _ \<Rightarrow> t)"

fun taps_rev :: "'x os_scheme \<Rightarrow> call list \<Rightarrow> taps" where
  "taps_rev os [] = \<lparr>bound = None, persistent = {}\<rparr>"
| "taps_rev os (c # rest) = tap_step os (rev rest) c (taps_rev os rest)"

definition tap_status :: "'x os_scheme \<Rightarrow> call list \<Rightarrow> taps" where
  "tap_status os tr = taps_rev os (rev tr)"

lemma tap_status_snoc [simp]: "tap_status os (tr @ [c]) = tap_step os tr c (tap_status os tr)"
  by (simp add: tap_status_def)

lemma tap_status_snoc2 [simp]: "tap_status os (tr @ [c, d]) = tap_step os (tr @ [c]) d (tap_step os tr c (tap_status os tr))"
  using tap_status_snoc [of os "tr @ [c]" d] by simp

lemma sys_call_cases:
  "sys_call os c s = (r, t) \<longleftrightarrow> r = sys os c (trace s) \<and> t = s\<lparr>trace := trace s @ [c]\<rparr>"
  by (auto simp: sys_call_def perform_def)

lemma with_drop_cases: "with_drop m d s = (r, t) \<longleftrightarrow> (\<exists>s'. m s = (r, s') \<and> t = snd (d s'))"
  by (auto simp: with_drop_def split: prod.splits)

text \<open>Activation does not touch the status.\<close>

fun no_tap_call :: "call \<Rightarrow> bool" where
  "no_tap_call (TunSetIff _ _) = False"
| "no_tap_call (TunSetPersist _) = False"
| "no_tap_call CloseTun = False"
| "no_tap_call _ = True"

lemma tap_step_other [simp]: "no_tap_call c \<Longrightarrow> tap_step os tr c t = t"
  by (cases c) (auto simp: tap_step_def)

lemma tap_status_append_other: "list_all no_tap_call cs \<Longrightarrow> tap_status os (tr @ cs) = tap_status os tr"
proof (induction cs rule: rev_induct)
  case (snoc c cs)
  then show ?case using tap_status_snoc [of os "tr @ cs" c] by simp
qed simp

lemma makes_taps:
  assumes "makes no_tap_call m" and "m s = (r, t)"
  shows "tap_status os (trace t) = tap_status os (trace s)"
proof -
  obtain cs where "list_all no_tap_call cs" "t = s\<lparr>trace := trace s @ cs\<rparr>"
    using assms by (rule makesE)
  then show ?thesis by (simp add: tap_status_append_other)
qed

lemma makes_set_interface_up: "makes no_tap_call (set_interface_up os name)"
  unfolding set_interface_up_def by (intro trace_intros) simp_all

text \<open>Binding the descriptor to an interface and marking it.\<close>

lemma bind_and_mark:
  assumes "sys os (TunSetIff n f) (trace s) = Inr ()" and "sys os (TunSetPersist b) (trace s @ [TunSetIff n f]) = Inr ()"
  shows "persistent (tap_status os (trace s @ [TunSetIff n f, TunSetPersist b])) =
     (if b then insert n (persistent (tap_status os (trace s))) else persistent (tap_status os (trace s)) - {n})"
  using assms by (simp add: tap_step_def)

lemma close_keeps [simp]: "persistent (tap_step os tr CloseTun t) = persistent t"
  by (simp add: tap_step_def)

lemma create_TapDevice_status:
  assumes "create_TapDevice os name s = (r, t)"
    and "sys os (Blocking ''tap_create'') (trace s) = Inr ()" "sys os OpenTun (trace s @ [Blocking ''tap_create'']) = Inr ()"
    and "sys os (TunSetIff (ifr_name name) (IFF_TAP OR IFF_NO_PI)) (trace s @ [Blocking ''tap_create'', OpenTun]) = Inr ()"
    and "sys os (TunSetPersist True)
           (trace s @ [Blocking ''tap_create'', OpenTun, TunSetIff (ifr_name name) (IFF_TAP OR IFF_NO_PI)]) = Inr ()"
  shows "persistent (tap_status os (trace t)) = insert (ifr_name name) (persistent (tap_status os (trace s)))"
proof -
  let ?iff = "TunSetIff (ifr_name name) (IFF_TAP OR IFF_NO_PI)"
  let ?s2 = "s\<lparr>trace := trace s @ [Blocking ''tap_create'', OpenTun]\<rparr>"
  let ?s4 = "s\<lparr>trace := trace s @ [Blocking ''tap_create'', OpenTun, ?iff, TunSetPersist True]\<rparr>"
  obtain q u where up: "set_interface_up os name ?s4 = (q, u)" by (cases "set_interface_up os name ?s4")
  then have t: "t = u\<lparr>trace := trace u @ [CloseTun]\<rparr>"
    using assms
    by (cases q) (auto simp: create_TapDevice_def spawn_blocking_def and_then_def with_drop_def sys_call_def perform_def
        ret_ok_def)
  have "persistent (tap_status os (trace u)) = persistent (tap_status os (trace ?s2 @ [?iff, TunSetPersist True]))"
    using makes_taps [OF makes_set_interface_up up, of os] by simp
  also have "\<dots> = insert (ifr_name name) (persistent (tap_status os (trace ?s2)))"
    using bind_and_mark [of os "ifr_name name" "IFF_TAP OR IFF_NO_PI" ?s2 True] assms(4,5) by simp
  also have "tap_status os (trace ?s2) = tap_status os (trace s)" by simp
  finally show ?thesis using t by simp
qed

lemma create_TapDevice_Inr:
  assumes "create_TapDevice os name s = (Inr tap, t)"
  shows "tap_name tap = name"
    and "persistent (tap_status os (trace t)) = insert (ifr_name name) (persistent (tap_status os (trace s)))"
proof -
  show "tap_name tap = name"
    using assms by (auto simp: create_TapDevice_def spawn_blocking_def and_then_Inr with_drop_cases)
  show "persistent (tap_status os (trace t)) = insert (ifr_name name) (persistent (tap_status os (trace s)))"
    using assms
    by (intro create_TapDevice_status [OF assms])
      (auto simp: create_TapDevice_def spawn_blocking_def and_then_Inr with_drop_cases sys_call_cases dest!: sym [of "Inr _"])
qed

lemma drop_TapDevice_status:
  assumes "sys os OpenTun (trace s) = Inr ()"
    and "sys os (TunSetIff (ifr_name (tap_name tap)) (IFF_TAP OR IFF_NO_PI)) (trace s @ [OpenTun]) = Inr ()"
    and "sys os (TunSetPersist False) (trace s @ [OpenTun, TunSetIff (ifr_name (tap_name tap)) (IFF_TAP OR IFF_NO_PI)]) = Inr ()"
  shows "persistent (tap_status os (trace (snd (drop_TapDevice os tap s)))) =
     persistent (tap_status os (trace s)) - {ifr_name (tap_name tap)}"
proof -
  let ?iff = "TunSetIff (ifr_name (tap_name tap)) (IFF_TAP OR IFF_NO_PI)"
  let ?s1 = "s\<lparr>trace := trace s @ [OpenTun]\<rparr>"
  have "trace (snd (drop_TapDevice os tap s)) = (trace ?s1 @ [?iff, TunSetPersist False]) @ [CloseTun]"
    using assms by (simp add: drop_TapDevice_def monad_simps with_drop_def sys_call_def perform_def)
  then have "persistent (tap_status os (trace (snd (drop_TapDevice os tap s)))) =
      persistent (tap_status os (trace ?s1 @ [?iff, TunSetPersist False]))"
    by (simp only: tap_status_snoc close_keeps)
  also have "\<dots> = persistent (tap_status os (trace ?s1)) - {ifr_name (tap_name tap)}"
    using bind_and_mark [of os "ifr_name (tap_name tap)" "IFF_TAP OR IFF_NO_PI" ?s1 False] assms(2,3) by simp
  finally show ?thesis by simp
qed

section \<open>The loading sequence\<close>

lemma follows_attach:
  "follows [BpfFindProgram p, BpfProgramType p, BpfProgramLoad p, BpfAttach p tap d] (attach_program os p label tap d)"
proof -
  have "follows ([BpfFindProgram p] @ [BpfProgramType p] @ [BpfProgramLoad p] @ [BpfAttach p tap d]) (attach_program os p label tap d)"
    unfolding attach_program_def ok_or_def prefix_err_def by (intro script_intros)
  then show ?thesis by simp
qed

definition attach_calls :: "string \<Rightarrow> u32 \<Rightarrow> call list" where
  "attach_calls tap ip =
     [BpfFindMap ''VM_CONFIG'', BpfMapType ''VM_CONFIG'', BpfMapSet ''VM_CONFIG'' 0 (nat_config ip), QdiscAddClsact tap,
      BpfFindProgram ''tc_egress'', BpfProgramType ''tc_egress'', BpfProgramLoad ''tc_egress'', BpfAttach ''tc_egress'' tap ''Egress'',
      BpfFindProgram ''tc_ingress'', BpfProgramType ''tc_ingress'', BpfProgramLoad ''tc_ingress'', BpfAttach ''tc_ingress'' tap ''Ingress'']"

lemma follows_attach_calls:
  "follows (attach_calls tap ip)
     (and_then (ok_or ''VM_CONFIG map not found'' (sys_call os (BpfFindMap ''VM_CONFIG''))) (\<lambda>_.
      and_then (prefix_err ''array map: '' (sys_call os (BpfMapType ''VM_CONFIG''))) (\<lambda>_.
      and_then (prefix_err ''map set: '' (sys_call os (BpfMapSet ''VM_CONFIG'' 0 (nat_config ip)))) (\<lambda>_.
      and_then (ignore (sys_call os (QdiscAddClsact tap))) (\<lambda>_.
      and_then (attach_program os ''tc_egress'' ''egress'' tap ''Egress'') (\<lambda>_.
      attach_program os ''tc_ingress'' ''ingress'' tap ''Ingress''))))))"
  (is "follows _ ?m")
proof -
  have "follows ([BpfFindMap ''VM_CONFIG''] @ [BpfMapType ''VM_CONFIG''] @ [BpfMapSet ''VM_CONFIG'' 0 (nat_config ip)] @ [QdiscAddClsact tap]
     @ [BpfFindProgram ''tc_egress'', BpfProgramType ''tc_egress'', BpfProgramLoad ''tc_egress'', BpfAttach ''tc_egress'' tap ''Egress'']
     @ [BpfFindProgram ''tc_ingress'', BpfProgramType ''tc_ingress'', BpfProgramLoad ''tc_ingress'', BpfAttach ''tc_ingress'' tap ''Ingress'']) ?m"
    unfolding ok_or_def prefix_err_def by (intro script_intros follows_attach)
  then show ?thesis by (simp add: attach_calls_def)
qed

lemma load_calls:
  assumes "load_nat_program os tap ip s = (r, t)"
    and "sys os (Blocking ''ebpf_load'') (trace s) = Inr ()" and "sys os BpfLoad (trace s @ [Blocking ''ebpf_load'']) = Inr ()"
  shows "\<exists>k \<le> length (attach_calls tap ip).
     trace t = trace s @ [Blocking ''ebpf_load'', BpfLoad] @ take k (attach_calls tap ip)
               @ (case r of Inr _ \<Rightarrow> [] | Inl _ \<Rightarrow> [BpfUnload])
     \<and> (r = Inr () \<longrightarrow> k = length (attach_calls tap ip))"
proof -
  let ?s = "s\<lparr>trace := trace s @ [Blocking ''ebpf_load'', BpfLoad]\<rparr>"
  let ?m = "and_then (ok_or ''VM_CONFIG map not found'' (sys_call os (BpfFindMap ''VM_CONFIG''))) (\<lambda>_.
      and_then (prefix_err ''array map: '' (sys_call os (BpfMapType ''VM_CONFIG''))) (\<lambda>_.
      and_then (prefix_err ''map set: '' (sys_call os (BpfMapSet ''VM_CONFIG'' 0 (nat_config ip)))) (\<lambda>_.
      and_then (ignore (sys_call os (QdiscAddClsact tap))) (\<lambda>_.
      and_then (attach_program os ''tc_egress'' ''egress'' tap ''Egress'') (\<lambda>_.
      attach_program os ''tc_ingress'' ''ingress'' tap ''Ingress'')))))"
  have l: "on_error ?m (\<lambda>_. sys_call os BpfUnload) ?s = (r, t)"
    using assms by (simp add: load_nat_program_def spawn_blocking_def prefix_err_def and_then_def map_err_def sys_call_def perform_def)
  obtain q u where m: "?m ?s = (q, u)" by (cases "?m ?s")
  show ?thesis
  proof (cases q)
    case (Inl e)
    with m obtain k where k: "k \<le> length (attach_calls tap ip)" "u = ?s\<lparr>trace := trace ?s @ take k (attach_calls tap ip)\<rparr>"
      using follows_Inl [OF follows_attach_calls] by blast
    with l m Inl show ?thesis
      by (intro exI [of _ k]) (auto simp: on_error_def sys_call_def perform_def)
  next
    case (Inr x)
    with m have "u = ?s\<lparr>trace := trace ?s @ attach_calls tap ip\<rparr>"
      using follows_Inr [OF follows_attach_calls] by blast
    with l m Inr show ?thesis
      by (intro exI [of _ "length (attach_calls tap ip)"]) (auto simp: on_error_def)
  qed
qed

text \<open>
  C35. The loader writes the configuration entry with the VM's address before it attaches a
  program. When it succeeds both programs are attached; when it fails after the object was
  loaded, the last thing it does is to unload it.
\<close>

theorem config_before_attach:
  assumes "load_nat_program os tap ip s = (r, t)"
    and "sys os (Blocking ''ebpf_load'') (trace s) = Inr ()" and "sys os BpfLoad (trace s @ [Blocking ''ebpf_load'']) = Inr ()"
  shows "\<exists>k \<le> length (attach_calls tap ip).
     trace t = trace s @ [Blocking ''ebpf_load'', BpfLoad] @ take k (attach_calls tap ip)
               @ (case r of Inr _ \<Rightarrow> [] | Inl _ \<Rightarrow> [BpfUnload])
     \<and> (r = Inr () \<longrightarrow> k = length (attach_calls tap ip))"
  by (rule load_calls [OF assms])

theorem config_before_attach_witness:
  "\<exists>t k. load_nat_program (sample_os (\<lambda>c. c = QdiscAddClsact ''tap-vm1'') no_files) ''tap-vm1'' 0x0A000001 \<lparr>trace = []\<rparr> = (Inr (), t)
     \<and> trace t = [Blocking ''ebpf_load'', BpfLoad] @ attach_calls ''tap-vm1'' 0x0A000001"
proof -
  let ?os = "sample_os (\<lambda>c. c = QdiscAddClsact ''tap-vm1'') no_files"
  obtain t where l: "load_nat_program ?os ''tap-vm1'' 0x0A000001 \<lparr>trace = []\<rparr> = (Inr (), t)"
    by (simp add: load_nat_program_def attach_program_def ok_or_def prefix_err_def spawn_blocking_def monad_simps
        sys_call_def perform_def)
  from config_before_attach [OF this] have "trace t = [Blocking ''ebpf_load'', BpfLoad] @ attach_calls ''tap-vm1'' 0x0A000001"
    by simp
  with l show ?thesis by blast
qed

section \<open>Life of an interface\<close>

text \<open>
  A TAP device that was created and then dropped, on a host that accepts the calls of the
  drop, leaves no persistent interface: the drop names the interface that the creation made.
\<close>

theorem tap_roundtrip:
  assumes "create_TapDevice os name s = (Inr tap, t)" and "ifr_name name \<notin> persistent (tap_status os (trace s))"
    and "\<And>c later. sys os c (trace t @ later) = Inr ()"
  shows "ifr_name name \<in> persistent (tap_status os (trace t))
    \<and> persistent (tap_status os (trace (snd (drop_TapDevice os tap t)))) = persistent (tap_status os (trace s))"
proof -
  note created = create_TapDevice_Inr [OF assms(1)]
  have "persistent (tap_status os (trace (snd (drop_TapDevice os tap t)))) = persistent (tap_status os (trace t)) - {ifr_name (tap_name tap)}"
    using assms(3) assms(3) [of _ "[]"] by (intro drop_TapDevice_status) simp_all
  with created assms(2) show ?thesis by simp
qed

definition tap_of :: "string \<Rightarrow> TapDevice" where
  "tap_of name = \<lparr>tap_name = name\<rparr>"

theorem tap_roundtrip_witness:
  "\<exists>t. create_TapDevice (sample_os (\<lambda>_. False) no_files) ''tap-vm1'' \<lparr>trace = []\<rparr> = (Inr (tap_of ''tap-vm1''), t)
     \<and> persistent (tap_status (sample_os (\<lambda>_. False) no_files) (trace (snd (drop_TapDevice (sample_os (\<lambda>_. False) no_files) (tap_of ''tap-vm1'') t)))) = {}"
proof -
  let ?os = "sample_os (\<lambda>_. False) no_files"
  obtain t where c: "create_TapDevice ?os ''tap-vm1'' \<lparr>trace = []\<rparr> = (Inr (tap_of ''tap-vm1''), t)"
    by (simp add: create_TapDevice_def set_interface_up_def spawn_blocking_def monad_simps with_drop_def
        sys_call_def perform_def tap_of_def)
  from tap_roundtrip [OF c] have "persistent (tap_status ?os (trace (snd (drop_TapDevice ?os (tap_of ''tap-vm1'') t)))) = {}"
    by (simp add: tap_status_def)
  with c show ?thesis by blast
qed

text \<open>
  When the activation of a new TAP device fails, the interface stays behind: it has been
  made persistent, and no device value exists whose drop would remove it.
\<close>

theorem failed_activation_leaks_tap:
  assumes "create_TapDevice os name s = (Inl e, t)"
    and "sys os (Blocking ''tap_create'') (trace s) = Inr ()" "sys os OpenTun (trace s @ [Blocking ''tap_create'']) = Inr ()"
    and "sys os (TunSetIff (ifr_name name) (IFF_TAP OR IFF_NO_PI)) (trace s @ [Blocking ''tap_create'', OpenTun]) = Inr ()"
    and "sys os (TunSetPersist True)
           (trace s @ [Blocking ''tap_create'', OpenTun, TunSetIff (ifr_name name) (IFF_TAP OR IFF_NO_PI)]) = Inr ()"
  shows "ifr_name name \<in> persistent (tap_status os (trace t))"
  using create_TapDevice_status [OF assms] by simp

theorem failed_activation_leaks_tap_witness:
  "\<exists>t. create_TapDevice (sample_os (\<lambda>c. c = Socket) no_files) ''tap-vm1'' \<lparr>trace = []\<rparr> = (Inl ''refused'', t)
     \<and> ''tap-vm1'' \<in> persistent (tap_status (sample_os (\<lambda>c. c = Socket) no_files) (trace t))"
proof -
  let ?os = "sample_os (\<lambda>c. c = Socket) no_files"
  obtain t where c: "create_TapDevice ?os ''tap-vm1'' \<lparr>trace = []\<rparr> = (Inl ''refused'', t)"
    by (simp add: create_TapDevice_def set_interface_up_def spawn_blocking_def monad_simps with_drop_def
        sys_call_def perform_def)
  have "ifr_name ''tap-vm1'' \<in> persistent (tap_status ?os (trace t))"
    by (rule failed_activation_leaks_tap [OF c]) simp_all
  with c show ?thesis by (simp add: ifr_name_def IFNAMSIZ_def)
qed

text \<open>
  Two VMs get the same network interface exactly when the first eleven bytes of their
  ids agree.
\<close>

theorem tap_names_collide:
  "ifr_name (''tap-'' @ a) = ifr_name (''tap-'' @ b) \<longleftrightarrow> take 11 a = take 11 b"
  by (auto simp: ifr_name_def IFNAMSIZ_def min_def)

end
