(* ===== verification/Firecracker_Api.thy ===== *)
theory Firecracker_Api
  imports Host_Os
begin

text \<open>
  The client of the Firecracker socket, \<^verbatim>\<open>control-plane/src/vmm/firecracker_api.rs\<close>. A request is
  a connection on which the head and the JSON body are sent and one answer of at most 512
  bytes is read, under a deadline that may strike at every await. The JSON encoder of
  \<open>serde_json\<close> is the field \<open>to_vec\<close> of the host.

  Waiting for the socket is a polling loop with a deadline. \<open>poll_socket\<close> runs it for a given
  number of polls; \<open>running_clock\<close> states that sleeping takes at least the time it is asked
  for, and under it 501 polls are always enough.
\<close>

section \<open>Request bodies\<close>

record MachineConfig =
  vcpu_count :: u32
  mc_mem_size_mib :: u32
  smt :: bool

record BootSource =
  kernel_image_path :: string
  boot_args :: string

record Drive =
  drive_id :: string
  path_on_host :: string
  is_root_device :: bool
  is_read_only :: bool

record NetworkInterface =
  iface_id :: string
  host_dev_name :: string

record InstanceAction =
  action_type :: string

datatype api_body =
    MachineConfigBody MachineConfig
  | BootSourceBody BootSource
  | DriveBody Drive
  | NetworkInterfaceBody NetworkInterface
  | InstanceActionBody InstanceAction

record api_os = os +
  to_vec :: "api_body \<Rightarrow> string + bytes"

section \<open>Requests\<close>

definition status_code :: "string \<Rightarrow> u16 option" where
  "status_code response =
     (case lines response of
        [] \<Rightarrow> None
      | line # _ \<Rightarrow> (let words = split_whitespace line
                     in if 1 < length words then parse_u16 (words ! 1) else None))"

definition check_response :: "bytes \<Rightarrow> (timed + unit)" where
  "check_response buf =
     (case from_utf8 buf of
        None \<Rightarrow> Inl (Failure ''non-UTF-8 HTTP response'')
      | Some response \<Rightarrow>
          (case status_code response of
             None \<Rightarrow> Inl (Failure (''unparseable HTTP response: '' @ response))
           | Some status \<Rightarrow>
               if \<not> (200 \<le> status \<and> status < 300)
               then Inl (Failure (''Firecracker API returned HTTP '' @ show_word status @ '': '' @ response))
               else Inr ()))"

definition send_request :: "'x os_scheme \<Rightarrow> string \<Rightarrow> bytes \<Rightarrow> bytes \<Rightarrow> ('s sys_state_scheme, timed, unit) op" where
  "send_request os socket_path headers body =
     and_then (perform (Connect socket_path) (awaited os (Connect socket_path))) (\<lambda>_.
     and_then (perform (Send headers) (awaited os (Send headers))) (\<lambda>_.
     and_then (perform (Send body) (awaited os (Send body))) (\<lambda>_.
     and_then (perform Receive (received os)) (\<lambda>answer.
     lift_res (check_response (take 512 answer))))))"

definition crlf :: string where "crlf = [CHR 0x0D, CHR 0x0A]"

definition request_head :: "string \<Rightarrow> nat \<Rightarrow> string" where
  "request_head path len =
     ''PUT '' @ path @ '' HTTP/1.1'' @ crlf @ ''Host: localhost'' @ crlf @ ''Content-Type: application/json'' @ crlf
     @ ''Content-Length: '' @ dec len @ crlf @ ''Connection: close'' @ crlf @ crlf"

fun timeout_text :: "string \<Rightarrow> timed \<Rightarrow> string" where
  "timeout_text path Elapsed = ''Firecracker API PUT '' @ path @ '' exceeded 100ms''"
| "timeout_text path (Failure e) = e"

definition api_put :: "'x api_os_scheme \<Rightarrow> string \<Rightarrow> string \<Rightarrow> api_body \<Rightarrow> ('s sys_state_scheme, string, unit) op" where
  "api_put os socket_path path body =
     and_then (lift_res (to_vec os body)) (\<lambda>body_bytes.
     map_err (timeout_text path)
       (send_request os socket_path (as_bytes (request_head path (length body_bytes))) body_bytes))"

definition put_machine_config :: "'x api_os_scheme \<Rightarrow> string \<Rightarrow> MachineConfig \<Rightarrow> ('s sys_state_scheme, string, unit) op" where
  "put_machine_config os socket_path cfg = api_put os socket_path ''/machine-config'' (MachineConfigBody cfg)"

definition put_boot_source :: "'x api_os_scheme \<Rightarrow> string \<Rightarrow> BootSource \<Rightarrow> ('s sys_state_scheme, string, unit) op" where
  "put_boot_source os socket_path src = api_put os socket_path ''/boot-source'' (BootSourceBody src)"

definition put_drive :: "'x api_os_scheme \<Rightarrow> string \<Rightarrow> Drive \<Rightarrow> ('s sys_state_scheme, string, unit) op" where
  "put_drive os socket_path drive = api_put os socket_path (''/drives/'' @ drive_id drive) (DriveBody drive)"

definition put_network_interface :: "'x api_os_scheme \<Rightarrow> string \<Rightarrow> NetworkInterface \<Rightarrow> ('s sys_state_scheme, string, unit) op" where
  "put_network_interface os socket_path iface =
     api_put os socket_path (''/network-interfaces/'' @ iface_id iface) (NetworkInterfaceBody iface)"

definition instance_start :: "'x api_os_scheme \<Rightarrow> string \<Rightarrow> ('s sys_state_scheme, string, unit) op" where
  "instance_start os socket_path = api_put os socket_path ''/actions'' (InstanceActionBody \<lparr>action_type = ''InstanceStart''\<rparr>)"

section \<open>Waiting for the socket\<close>

definition SOCKET_READY_TIMEOUT :: nat where "SOCKET_READY_TIMEOUT = 5000"
definition SOCKET_POLL_INTERVAL :: nat where "SOCKET_POLL_INTERVAL = 10"

text \<open>The \<open>Debug\<close> form of a path: quoted, with quotes, backslashes and the common control characters escaped.\<close>

definition debug_char :: "char \<Rightarrow> string" where
  "debug_char c =
     (if c = CHR 0x22 then [CHR 0x5C, CHR 0x22] else if c = CHR 0x5C then [CHR 0x5C, CHR 0x5C]
      else if c = CHR 0x0A then [CHR 0x5C, CHR ''n''] else if c = CHR 0x0D then [CHR 0x5C, CHR ''r'']
      else if c = CHR 0x09 then [CHR 0x5C, CHR ''t''] else [c])"

definition debug_path :: "string \<Rightarrow> string" where
  "debug_path p = [CHR 0x22] @ concat (map debug_char p) @ [CHR 0x22]"

fun poll_socket :: "'x os_scheme \<Rightarrow> string \<Rightarrow> nat \<Rightarrow> nat \<Rightarrow> 's sys_state_scheme \<Rightarrow> (string + unit) option \<times> 's sys_state_scheme" where
  "poll_socket os socket_path start 0 s = (None, s)"
| "poll_socket os socket_path start (Suc polls) s =
     (case exists_path os socket_path s of
        (Inl e, s') \<Rightarrow> (Some (Inl e), s')
      | (Inr present, s') \<Rightarrow>
          if present then (Some (Inr ()), s')
          else if SOCKET_READY_TIMEOUT \<le> clock_ms os (trace s') - start
          then (Some (Inl (''Firecracker socket '' @ debug_path socket_path @ '' did not appear within 5s'')), s')
          else poll_socket os socket_path start polls (s'\<lparr>trace := trace s' @ [Sleep SOCKET_POLL_INTERVAL]\<rparr>))"

definition POLL_LIMIT :: nat where "POLL_LIMIT = 501"

definition wait_for_socket :: "'x os_scheme \<Rightarrow> string \<Rightarrow> ('s sys_state_scheme, string, unit) op" where
  "wait_for_socket os socket_path s =
     (case poll_socket os socket_path (clock_ms os (trace s)) POLL_LIMIT s of
        (Some r, s') \<Rightarrow> (r, s')
      | (None, s') \<Rightarrow> (Inl ''poll limit'', s'))"

section \<open>Effects\<close>

fun is_api_call :: "call \<Rightarrow> bool" where
  "is_api_call (Connect _) = True"
| "is_api_call (Send _) = True"
| "is_api_call Receive = True"
| "is_api_call (Exists _) = True"
| "is_api_call (Sleep _) = True"
| "is_api_call _ = False"

lemma makes_api_put [trace_intros]: "makes is_api_call (api_put os sock path body)"
  unfolding api_put_def send_request_def by (intro trace_intros) simp_all

lemma poll_socket_makes:
  "\<exists>cs. list_all is_api_call cs \<and> snd (poll_socket os sock start n s) = s\<lparr>trace := trace s @ cs\<rparr>"
proof (induction n arbitrary: s)
  case 0
  then show ?case by (auto intro!: exI [of _ "[]"])
next
  case (Suc n)
  let ?t = "s\<lparr>trace := trace s @ [Exists sock, Sleep SOCKET_POLL_INTERVAL]\<rparr>"
  obtain cs where "list_all is_api_call cs" "snd (poll_socket os sock start n ?t) = ?t\<lparr>trace := trace ?t @ cs\<rparr>"
    using Suc [of ?t] by blast
  moreover have "snd (poll_socket os sock start (Suc n) s) = s\<lparr>trace := trace s @ [Exists sock]\<rparr>
      \<or> snd (poll_socket os sock start (Suc n) s) = snd (poll_socket os sock start n ?t)"
    by (simp add: exists_path_def perform_def)
  ultimately consider "snd (poll_socket os sock start (Suc n) s) = s\<lparr>trace := trace s @ [Exists sock]\<rparr>"
    | "snd (poll_socket os sock start (Suc n) s) = s\<lparr>trace := trace s @ (Exists sock # Sleep SOCKET_POLL_INTERVAL # cs)\<rparr>"
    by fastforce
  then show ?case
  proof cases
    case 1
    then show ?thesis by (intro exI [of _ "[Exists sock]"]) (simp del: poll_socket.simps)
  next
    case 2
    with \<open>list_all is_api_call cs\<close> show ?thesis
      by (intro exI [of _ "Exists sock # Sleep SOCKET_POLL_INTERVAL # cs"]) (simp del: poll_socket.simps)
  qed
qed

lemma makes_wait [trace_intros]: "makes is_api_call (wait_for_socket os sock)"
  unfolding makes_def
proof
  fix s
  show "\<exists>cs. list_all is_api_call cs \<and> snd (wait_for_socket os sock s) = s\<lparr>trace := trace s @ cs\<rparr>"
    using poll_socket_makes [of os sock "clock_ms os (trace s)" POLL_LIMIT s]
    by (cases "poll_socket os sock (clock_ms os (trace s)) POLL_LIMIT s") (auto simp: wait_for_socket_def split: option.splits)
qed

lemma makes_api [trace_intros]:
  "makes is_api_call (put_machine_config os sock mc)" "makes is_api_call (put_boot_source os sock bs)"
  "makes is_api_call (put_drive os sock d)" "makes is_api_call (put_network_interface os sock ni)"
  "makes is_api_call (instance_start os sock)"
  unfolding put_machine_config_def put_boot_source_def put_drive_def put_network_interface_def instance_start_def
  by (intro trace_intros)+

section \<open>The polling loop ends\<close>

locale running_clock =
  fixes os :: "'x os_scheme"
  assumes sleeps: "clock_ms os tr + n \<le> clock_ms os (tr @ [Sleep n])"
    and monotone: "clock_ms os tr \<le> clock_ms os (tr @ [c])"
begin

lemma poll_returns:
  assumes "start \<le> clock_ms os (trace s)"
    and "SOCKET_READY_TIMEOUT \<le> clock_ms os (trace s) - start + SOCKET_POLL_INTERVAL * n"
  shows "\<exists>r. fst (poll_socket os sock start (Suc n) s) = Some r"
  using assms
proof (induction n arbitrary: s)
  case 0
  then show ?case
    using monotone [of "trace s" "Exists sock"] by (auto simp: exists_path_def perform_def)
next
  case (Suc n)
  let ?s' = "s\<lparr>trace := trace s @ [Exists sock]\<rparr>"
  let ?t = "?s'\<lparr>trace := trace ?s' @ [Sleep SOCKET_POLL_INTERVAL]\<rparr>"
  have m: "clock_ms os (trace s) \<le> clock_ms os (trace ?s')"
    and sl: "clock_ms os (trace ?s') + SOCKET_POLL_INTERVAL \<le> clock_ms os (trace ?t)"
    using monotone [of "trace s" "Exists sock"] sleeps [of "trace ?s'" SOCKET_POLL_INTERVAL] by simp_all
  have "\<exists>r. fst (poll_socket os sock start (Suc n) ?t) = Some r"
    using m sl Suc.prems by (intro Suc.IH) (auto simp: SOCKET_POLL_INTERVAL_def)
  then show ?case
    by (simp add: exists_path_def perform_def del: poll_socket.simps(2)) (simp add: poll_socket.simps(2) [of os sock start "Suc n"] exists_path_def perform_def)
qed

lemma wait_decides: "\<exists>r. fst (poll_socket os sock (clock_ms os (trace s)) POLL_LIMIT s) = Some r"
proof -
  have "POLL_LIMIT = Suc 500" by (simp add: POLL_LIMIT_def)
  then show ?thesis
    using poll_returns [of "clock_ms os (trace s)" s 500 sock]
    by (simp add: SOCKET_READY_TIMEOUT_def SOCKET_POLL_INTERVAL_def del: poll_socket.simps)
qed

end

text \<open>What the outcome says about the polls.\<close>

lemma poll_outcome:
  assumes "poll_socket os sock start n s = (Some r, t)"
  shows "\<exists>tr. trace t = tr @ [Exists sock] \<and>
    (if r = Inr () then path_exists os sock tr
     else \<not> path_exists os sock tr \<and> SOCKET_READY_TIMEOUT \<le> clock_ms os (trace t) - start)"
  using assms
proof (induction n arbitrary: s)
  case 0
  then show ?case by simp
next
  case (Suc n)
  let ?t = "s\<lparr>trace := trace s @ [Exists sock, Sleep SOCKET_POLL_INTERVAL]\<rparr>"
  consider (again) "poll_socket os sock start n ?t = (Some r, t)"
    | (seen) "trace t = trace s @ [Exists sock]" "path_exists os sock (trace s)" "r = Inr ()"
    | (late) "trace t = trace s @ [Exists sock]" "\<not> path_exists os sock (trace s)" "r \<noteq> Inr ()"
        "SOCKET_READY_TIMEOUT \<le> clock_ms os (trace t) - start"
    using Suc.prems by (auto simp: exists_path_def perform_def split: if_splits)
  then show ?case
  proof cases
    case again
    then show ?thesis by (rule Suc.IH)
  qed simp_all
qed

text \<open>
  C37. Waiting for the API socket ends: on a host whose clock runs, at most 501 polls are
  made; success means that the last poll saw the socket, failure that it did not and that at
  least five seconds have passed.
\<close>

theorem wait_for_socket_ends:
  assumes "running_clock os" and "wait_for_socket os sock s = (r, t)"
  shows "fst (poll_socket os sock (clock_ms os (trace s)) POLL_LIMIT s) = Some r
    \<and> (\<exists>tr. trace t = tr @ [Exists sock] \<and>
        (if r = Inr () then path_exists os sock tr
         else \<not> path_exists os sock tr \<and> SOCKET_READY_TIMEOUT \<le> clock_ms os (trace t) - clock_ms os (trace s)))"
proof -
  obtain q where q: "fst (poll_socket os sock (clock_ms os (trace s)) POLL_LIMIT s) = Some q"
    using running_clock.wait_decides [OF assms(1)] by blast
  then have p: "poll_socket os sock (clock_ms os (trace s)) POLL_LIMIT s = (Some r, t)"
    using assms(2)
    by (cases "poll_socket os sock (clock_ms os (trace s)) POLL_LIMIT s") (simp add: wait_for_socket_def)
  from poll_outcome [OF p] p show ?thesis by simp
qed

interpretation sample_clock: running_clock "sample_os fails files"
  by unfold_locales (simp_all add: slept_def)

theorem wait_for_socket_ends_witness:
  "\<exists>t. wait_for_socket (sample_os (\<lambda>_. False) no_files) ''/s'' \<lparr>trace = []\<rparr> = (Inr (), t) \<and> trace t = [Exists ''/s'']"
proof -
  let ?os = "sample_os (\<lambda>_. False) no_files"
  obtain t where w: "wait_for_socket ?os ''/s'' \<lparr>trace = []\<rparr> = (Inr (), t)"
    by (simp add: wait_for_socket_def POLL_LIMIT_def numeral_eq_Suc exists_path_def perform_def)
  have "trace t = [Exists ''/s'']"
    using wait_for_socket_ends [OF sample_clock.running_clock_axioms w] w
    by (auto simp: wait_for_socket_def POLL_LIMIT_def numeral_eq_Suc exists_path_def perform_def)
  with w show ?thesis by blast
qed

section \<open>Status lines\<close>

lemma split_whitespace_word:
  assumes "\<forall>c \<in> set w. \<not> is_whitespace c" and "w \<noteq> []"
  shows "split_whitespace (w @ CHR '' '' # rest) = w # split_whitespace rest" and "split_whitespace w = [w]"
proof -
  let ?b = "\<lambda>c. if is_whitespace c then CHR '' '' else c"
  have m: "map ?b w = w" using assms(1) by (intro map_idI) auto
  have n: "CHR '' '' \<notin> set w" using assms(1) by (auto simp: is_whitespace_def)
  show "split_whitespace (w @ CHR '' '' # rest) = w # split_whitespace rest"
    using assms(2) split_char_append [OF n] by (simp add: split_whitespace_def m is_whitespace_def [of "CHR '' ''"])
  show "split_whitespace w = [w]"
    using assms(2) split_char_id [OF n] by (simp add: split_whitespace_def m)
qed

lemma lines_first:
  assumes "CHR 0x0A \<notin> set l"
  shows "\<exists>ls. lines (l @ crlf @ rest) = l # ls"
proof -
  obtain w ws where w: "split_char CHR 0x0A rest = w # ws" by (cases "split_char CHR 0x0A rest") auto
  have "split_char CHR 0x0A ((l @ [CHR 0x0D]) @ CHR 0x0A # rest) = (l @ [CHR 0x0D]) # split_char CHR 0x0A rest"
    using assms by (intro split_char_append) auto
  then have "split_char CHR 0x0A (l @ crlf @ rest) = (l @ [CHR 0x0D]) # w # ws"
    by (simp add: crlf_def w)
  then show ?thesis by (simp add: lines_def Let_def strip_cr_def)
qed

lemma status_code_line:
  assumes "CHR 0x0A \<notin> set reason"
  shows "status_code (''HTTP/1.1 '' @ show_word (code :: u16) @ '' '' @ reason @ crlf @ rest) = Some code"
proof -
  let ?l = "''HTTP/1.1 '' @ show_word code @ '' '' @ reason"
  have d: "\<forall>c \<in> set (show_word code). \<not> is_whitespace c" "show_word code \<noteq> []" "CHR 0x0A \<notin> set (show_word code)"
    using dec_digits [of "unat code"] by (auto simp: show_word_def list_all_iff is_digit_def is_whitespace_def)
  have "CHR 0x0A \<notin> set ?l" using assms d(3) by simp
  then obtain ls where ls: "lines (?l @ crlf @ rest) = ?l # ls" using lines_first by blast
  have "split_whitespace ?l = ''HTTP/1.1'' # show_word code # split_whitespace reason"
    using split_whitespace_word(1) [of "''HTTP/1.1''" "show_word code @ '' '' @ reason"] split_whitespace_word(1) [OF d(1,2)]
    by (simp add: is_whitespace_def)
  with ls show ?thesis by (simp add: status_code_def parse_show_u16)
qed

text \<open>
  When the connection works and the server answers with a well-formed status line, a
  request succeeds exactly for the codes 200 to 299; any other code is reported in the error.
\<close>

theorem put_checks_status:
  assumes "to_vec os body = Inr json" and "\<And>c tr. awaited os c tr = Inr ()"
    and "\<And>tr. received os tr = Inr (as_bytes (''HTTP/1.1 '' @ show_word (code :: u16) @ '' '' @ reason @ crlf @ rest))"
    and "CHR 0x0A \<notin> set reason" and "ascii (reason @ rest)"
    and "length (''HTTP/1.1 '' @ show_word code @ '' '' @ reason @ crlf @ rest) \<le> 512"
  shows "fst (api_put os sock path body s) =
    (if 200 \<le> code \<and> code < 300 then Inr ()
     else Inl (''Firecracker API returned HTTP '' @ show_word code @ '': ''
               @ (''HTTP/1.1 '' @ show_word code @ '' '' @ reason @ crlf @ rest)))"
proof -
  let ?r = "''HTTP/1.1 '' @ show_word code @ '' '' @ reason @ crlf @ rest"
  have d: "ascii (show_word code)"
    using dec_digits [of "unat code"] by (auto simp: show_word_def ascii_def list_all_iff is_digit_def)
  have a: "ascii ?r"
    using assms(5) d unfolding ascii_def list_all_append by (simp add: crlf_def)
  have "length (as_bytes ?r) \<le> 512"
    using assms(6) by (simp add: as_bytes_def)
  then have "take 512 (as_bytes ?r) = as_bytes ?r" by (rule take_all)
  then have c: "check_response (take 512 (as_bytes ?r)) =
      (if 200 \<le> code \<and> code < 300 then Inr () else Inl (Failure (''Firecracker API returned HTTP '' @ show_word code @ '': '' @ ?r)))"
    using status_code_line [OF assms(4), of code rest] from_utf8_ascii [OF a]
    by (simp only: check_response_def option.case if_not_P not_not split: if_splits) (simp add: check_response_def)
  show ?thesis
    using assms(1-3) c by (simp add: api_put_def send_request_def monad_simps perform_def)
qed

definition sample_api_os :: "(call \<Rightarrow> bool) \<Rightarrow> (string \<Rightarrow> string + string) \<Rightarrow> api_os" where
  "sample_api_os fails files = os.extend (sample_os fails files) (api_os.fields (\<lambda>_. Inr (as_bytes ''{}'')))"

lemma sample_api_sels [simp]:
  "sys (sample_api_os fails files) c tr = (if fails c then Inl ''refused'' else Inr ())"
  "run (sample_api_os fails files) prog args tr = Inr (\<not> fails (Run prog args), [])"
  "path_exists (sample_api_os fails files) p tr = (\<not> fails (Exists p))"
  "dir_entries (sample_api_os fails files) p tr = (if fails (ReadDir p) then Inl ''refused'' else Inr [Inr ''node0''])"
  "file_text (sample_api_os fails files) p tr = files p"
  "rdev (sample_api_os fails files) p tr = (if fails (Stat p) then Inl ''refused'' else Inr 0)"
  "real_path (sample_api_os fails files) p tr = (if fails (Canonicalize p) then Inl ''refused'' else Inr p)"
  "if_flags (sample_api_os fails files) n tr = (if fails (GetIfFlags n) then Inl ''refused'' else Inr 0)"
  "child_pid (sample_api_os fails files) tr = Inr 4242"
  "clock_ms (sample_api_os fails files) tr = slept tr"
  "awaited (sample_api_os fails files) c tr = (if fails c then Inl (Failure ''refused'') else Inr ())"
  "received (sample_api_os fails files) tr = (if fails Receive then Inl Elapsed else Inr no_content)"
  "to_vec (sample_api_os fails files) b = Inr (as_bytes ''{}'')"
  by (simp_all add: sample_api_os_def os.defs api_os.defs sample_os_def)

lemma show_204: "show_word (204 :: u16) = ''204''"
  by (simp add: show_word_def dec.simps digit_char_def char_of_def bit_iff_odd)

theorem put_checks_status_witness:
  "fst (api_put (sample_api_os (\<lambda>_. False) no_files) ''/s'' ''/actions'' (InstanceActionBody \<lparr>action_type = ''InstanceStart''\<rparr>) \<lparr>trace = []\<rparr>)
     = Inr ()"
proof -
  let ?os = "sample_api_os (\<lambda>_. False) no_files"
  have "received ?os tr = Inr (as_bytes (''HTTP/1.1 '' @ show_word (204 :: u16) @ '' '' @ ''No Content'' @ crlf @ []))" for tr
    by (simp add: no_content_def show_204 crlf_def)
  from put_checks_status [OF _ _ this, of _ "as_bytes ''{}''" "''/s''" "''/actions''" "\<lparr>trace = []\<rparr>"]
  show ?thesis by (simp add: ascii_def show_204 crlf_def word_le_nat_alt word_less_nat_alt)
qed

end
