(* ===== verification/Orchestrator.thy ===== *)
theory Orchestrator
  imports Vm_State Ipam Cgroup Storage Net_Devices Firecracker_Api
begin

text \<open>
  Provisioning of a VM and its rollback, \<^verbatim>\<open>control-plane/src/vmm/mod.rs\<close>. The state is the host
  (trace, device counter, address pool), extended while a VM is provisioned by its state
  machine and by the context that records what has to be undone. \<open>provision_vm\<close> is cut into
  the phases the source numbers; an error inside a phase is wrapped with the session and the
  state the machine is in. Values with a destructor are dropped, newest first, when a later
  phase fails.

  The lemmas show that a failed launch leaves the address pool as it was and returns the
  snapshot's slot, that errors name the phase that failed, and that a launch that succeeds
  went through all phases.
\<close>

section \<open>Configuration and state\<close>

record vmm_VmConfig =
  vm_id :: string
  session_id :: u64
  cpu_count :: u32
  mem_size_mib :: u32
  vcpu_cores :: string
  numa_node :: string
  base_image :: string

datatype CpusetAlloc = NaiveCpusetAllocator | SiblingAwareCpusetAllocator string

fun allocate_cpus :: "'x os_scheme \<Rightarrow> CpusetAlloc \<Rightarrow> string \<Rightarrow> ('s sys_state_scheme, string, string) op" where
  "allocate_cpus os NaiveCpusetAllocator request = naive_allocate_cpus request"
| "allocate_cpus os (SiblingAwareCpusetAllocator root) request = sibling_allocate_cpus os root request"

record Orchestrator =
  cgroup_manager :: string
  storage_manager :: StorageManager
  cpuset_allocator :: CpusetAlloc
  numa_topology :: string
  jailer_path :: string
  firecracker_path :: string
  kernel_path :: string
  chroot_base_dir :: string
  jailer_uid :: u32
  jailer_gid :: u32

record host_state = storage_state +
  pool :: IpAm

record ProvisioningContext =
  ctx_session_id :: u64
  ctx_vm_id :: string
  snapshot_name :: "string option"
  snapshot_internal_id :: "u32 option"
  ctx_host_ip :: "u32 option"
  cgroup :: "VmCgroup option"
  jail_dir :: "string option"
  process :: "u32 option"

definition new_ProvisioningContext :: "u64 \<Rightarrow> string \<Rightarrow> ProvisioningContext" where
  "new_ProvisioningContext sid vid =
     \<lparr>ctx_session_id = sid, ctx_vm_id = vid, snapshot_name = None, snapshot_internal_id = None,
      ctx_host_ip = None, cgroup = None, jail_dir = None, process = None\<rparr>"

record prov_state = host_state +
  machine :: VmStateMachine
  ctx :: ProvisioningContext

record Vm =
  vm_config :: vmm_VmConfig
  vm_cgroup :: VmCgroup
  vm_rootfs :: string
  vm_tap :: TapDevice
  vm_host_ip :: u32
  vm_jail_dir :: string
  vm_process :: "u32 option"

text \<open>The mutable parts of the \<open>Orchestrator\<close> (device counter, address pool) start in the host state.\<close>

definition new_Orchestrator :: "'x os_scheme \<Rightarrow> string \<Rightarrow> string \<Rightarrow> u32 \<Rightarrow> string \<Rightarrow> string \<Rightarrow> string \<Rightarrow> string \<Rightarrow> u32 \<Rightarrow> u32
    \<Rightarrow> (sys_state, string, Orchestrator \<times> u32 \<times> IpAm) op" where
  "new_Orchestrator os cgroup_root pname base jailer firecracker kern chroot_base uid gid =
     and_then (new_CgroupManager os cgroup_root) (\<lambda>cm.
     and_then (perform (Canonicalize jailer) (real_path os jailer)) (\<lambda>jp.
     and_then (perform (Canonicalize firecracker) (real_path os firecracker)) (\<lambda>fp.
     and_then (perform (Canonicalize kern) (real_path os kern)) (\<lambda>kp.
     ret_ok (\<lparr>cgroup_manager = cm, storage_manager = fst (new_StorageManager pname), cpuset_allocator = NaiveCpusetAllocator,
              numa_topology = ''/sys'', jailer_path = jp, firecracker_path = fp, kernel_path = kp,
              chroot_base_dir = chroot_base, jailer_uid = uid, jailer_gid = gid\<rparr>,
             snd (new_StorageManager pname), new_IpAm base)))))"

section \<open>Steps on the provisioning state\<close>

definition at_state :: "u64 \<Rightarrow> ('s prov_state_scheme, string, 'a) op \<Rightarrow> ('s prov_state_scheme, OrchestratorError, 'a) op" where
  "at_state sid m s =
     (case m s of
        (Inl e, s') \<Rightarrow> (Inl (new_OrchestratorError sid (current_state (machine s')) e), s')
      | (Inr x, s') \<Rightarrow> (Inr x, s'))"

definition enter :: "u64 \<Rightarrow> VmState \<Rightarrow> ('s prov_state_scheme, OrchestratorError, unit) op" where
  "enter sid st =
     at_state sid (\<lambda>s. case transition_to st (machine s) of (r, sm) \<Rightarrow> (r, s\<lparr>machine := sm\<rparr>))"

definition set_ctx :: "(ProvisioningContext \<Rightarrow> ProvisioningContext) \<Rightarrow> ('s prov_state_scheme, 'e, unit) op" where
  "set_ctx f s = (Inr (), s\<lparr>ctx := f (ctx s)\<rparr>)"

definition pool_allocate :: "('s host_state_scheme, string, u32) op" where
  "pool_allocate s = (case allocate (pool s) of (r, p) \<Rightarrow> (r, s\<lparr>pool := p\<rparr>))"

section \<open>The jail\<close>

definition to_str :: "string \<Rightarrow> string option" where
  "to_str p = (if utf8_valid (as_bytes p) then Some p else None)"

definition CString_new :: "string \<Rightarrow> string + string" where
  "CString_new p =
     (case find_char (CHR 0x00) p of
        None \<Rightarrow> Inr p
      | Some i \<Rightarrow> Inl (''nul byte found in provided data at position: '' @ dec i))"

definition setup_jail :: "'x os_scheme \<Rightarrow> Orchestrator \<Rightarrow> string \<Rightarrow> string \<Rightarrow> ('s sys_state_scheme, string, unit) op" where
  "setup_jail os orch jail rootfs_dev =
     and_then (exists_path os jail) (\<lambda>stale.
     and_then (if stale then sys_call os (RemoveDirAll jail) else ret_ok ()) (\<lambda>_.
     and_then (sys_call os (CreateDirAll (path_join jail ''run''))) (\<lambda>_.
     and_then (sys_call os (CreateDirAll (path_join jail ''dev''))) (\<lambda>_.
     and_then (\<lambda>s. case sys_call os (HardLink (kernel_path orch) (path_join jail ''vmlinux'')) s of
                 (Inr _, s') \<Rightarrow> (Inr (), s')
               | (Inl _, s') \<Rightarrow> sys_call os (CopyFile (kernel_path orch) (path_join jail ''vmlinux'')) s') (\<lambda>_.
     and_then (perform (Stat rootfs_dev) (rdev os rootfs_dev)) (\<lambda>dev.
     (case to_str (path_join jail ''dev/rootfs'') of
        None \<Rightarrow> ret_err ''jail path is not valid UTF-8''
      | Some dev_node \<Rightarrow>
          and_then (lift_res (CString_new dev_node)) (\<lambda>c_path.
          and_then (sys_call os (Mknod c_path dev)) (\<lambda>_.
          sys_call os (Chown c_path (jailer_uid orch) (jailer_gid orch)))))))))))"

definition jail_path :: "Orchestrator \<Rightarrow> string \<Rightarrow> string" where
  "jail_path orch i = path_join (path_join (path_join (chroot_base_dir orch) ''firecracker'') i) ''root''"

section \<open>Phases\<close>

definition provision_storage :: "'x os_scheme \<Rightarrow> Orchestrator \<Rightarrow> vmm_VmConfig \<Rightarrow> ('s prov_state_scheme, OrchestratorError, string) op" where
  "provision_storage os orch config =
     (let sid = session_id config in
      and_then (enter sid ProvisioningStorage) (\<lambda>_.
      and_then (at_state sid (create_snapshot os (storage_manager orch) 1 (vm_id config))) (\<lambda>(rootfs, snap).
      and_then (set_ctx (\<lambda>c. c\<lparr>snapshot_name := Some (vm_id config), snapshot_internal_id := Some snap\<rparr>)) (\<lambda>_.
      ret_ok rootfs))))"

definition vm_tap_name :: "vmm_VmConfig \<Rightarrow> string" where
  "vm_tap_name config = ''tap-'' @ vm_id config"

definition provision_tap :: "'x os_scheme \<Rightarrow> vmm_VmConfig \<Rightarrow> ('s prov_state_scheme, OrchestratorError, TapDevice) op" where
  "provision_tap os config =
     (let sid = session_id config in
      and_then (enter sid ConfiguringNetwork) (\<lambda>_.
      at_state sid (create_TapDevice os (vm_tap_name config))))"

definition provision_address :: "vmm_VmConfig \<Rightarrow> ('s prov_state_scheme, OrchestratorError, u32) op" where
  "provision_address config =
     and_then (at_state (session_id config) pool_allocate) (\<lambda>ip.
     and_then (set_ctx (\<lambda>c. c\<lparr>ctx_host_ip := Some ip\<rparr>)) (\<lambda>_.
     ret_ok ip))"

definition mem_max_bytes :: "vmm_VmConfig \<Rightarrow> u64" where
  "mem_max_bytes config = ucast (mem_size_mib config) * 1024 * 1024"

definition provision_cgroup :: "'x os_scheme \<Rightarrow> Orchestrator \<Rightarrow> vmm_VmConfig \<Rightarrow> ('s prov_state_scheme, OrchestratorError, string \<times> string) op" where
  "provision_cgroup os orch config =
     (let sid = session_id config in
      and_then (enter sid InitializingCgroup) (\<lambda>_.
      and_then (at_state sid (create_vm_cgroup os (cgroup_manager orch) (vm_id config))) (\<lambda>cg.
      and_then (set_ctx (\<lambda>c. c\<lparr>cgroup := Some cg\<rparr>)) (\<lambda>_.
      and_then (at_state sid (allocate_cpus os (cpuset_allocator orch) (vcpu_cores config))) (\<lambda>cpus.
      and_then (at_state sid (get_mems_string os (numa_topology orch) (numa_node config))) (\<lambda>mems.
      and_then (at_state sid (set_cpuset os cg cpus mems)) (\<lambda>_.
      and_then (at_state sid (set_memory_limit os cg (mem_max_bytes config))) (\<lambda>_.
      ret_ok (cpus, mems)))))))))"

definition jailer_args :: "Orchestrator \<Rightarrow> vmm_VmConfig \<Rightarrow> string \<Rightarrow> string \<Rightarrow> string list" where
  "jailer_args orch config cpus mems =
     [''--exec-file'', (case to_str (firecracker_path orch) of Some p \<Rightarrow> p | None \<Rightarrow> []),
      ''--id'', vm_id config, ''--uid'', show_word (jailer_uid orch), ''--gid'', show_word (jailer_gid orch),
      ''--cgroup-version'', ''2'', ''--cgroup'', ''cpuset.cpus='' @ cpus, ''--cgroup'', ''cpuset.mems='' @ mems,
      ''--cgroup'', ''memory.max='' @ show_word (mem_max_bytes config),
      ''--chroot-base-dir'', (case to_str (chroot_base_dir orch) of Some p \<Rightarrow> p | None \<Rightarrow> []),
      ''--'', ''--api-sock'', ''/run/firecracker.socket'']"

definition launch_jailer :: "'x os_scheme \<Rightarrow> Orchestrator \<Rightarrow> vmm_VmConfig \<Rightarrow> string \<Rightarrow> string \<Rightarrow> string \<Rightarrow> ('s prov_state_scheme, OrchestratorError, string) op" where
  "launch_jailer os orch config rootfs cpus mems =
     (let sid = session_id config; jail = jail_path orch (vm_id config);
          args = jailer_args orch config cpus mems in
      and_then (enter sid LaunchingVMM) (\<lambda>_.
      and_then (set_ctx (\<lambda>c. c\<lparr>jail_dir := Some jail\<rparr>)) (\<lambda>_.
      and_then (at_state sid (setup_jail os orch jail rootfs)) (\<lambda>_.
      and_then (at_state sid (perform (Spawn (jailer_path orch) args) (child_pid os))) (\<lambda>child.
      and_then (set_ctx (\<lambda>c. c\<lparr>process := Some child\<rparr>)) (\<lambda>_.
      ret_ok jail))))))"

definition metadata_drive :: "'x os_scheme \<Rightarrow> (bytes \<Rightarrow> string) \<Rightarrow> Orchestrator \<Rightarrow> string \<Rightarrow> ('s sys_state_scheme, string, unit) op" where
  "metadata_drive os lossy orch jail =
     (let host_path = path_join jail ''metadata.ext4''; staging = path_join jail ''metadata-staging'' in
      and_then (sys_call os (CreateDirAll staging)) (\<lambda>_.
      and_then (create_MetadataDrive os lossy host_path staging) (\<lambda>_.
      (case to_str host_path of
         None \<Rightarrow> ret_err ''metadata path not UTF-8''
       | Some p \<Rightarrow>
           and_then (lift_res (CString_new p)) (\<lambda>c_meta.
           sys_call os (Chown c_meta (jailer_uid orch) (jailer_gid orch)))))))"

definition boot_vmm :: "'x api_os_scheme \<Rightarrow> (bytes \<Rightarrow> string) \<Rightarrow> Orchestrator \<Rightarrow> vmm_VmConfig \<Rightarrow> string \<Rightarrow> ('s sys_state_scheme, string, unit) op" where
  "boot_vmm os lossy orch config jail =
     (let sock = path_join jail ''run/firecracker.socket'' in
      and_then (wait_for_socket os sock) (\<lambda>_.
      and_then (put_machine_config os sock \<lparr>vcpu_count = cpu_count config, mc_mem_size_mib = mem_size_mib config, smt = False\<rparr>) (\<lambda>_.
      and_then (put_boot_source os sock \<lparr>kernel_image_path = ''/vmlinux'',
                  boot_args = ''console=ttyS0 reboot=k panic=1 pci=off nomodules''\<rparr>) (\<lambda>_.
      and_then (put_drive os sock \<lparr>drive_id = ''rootfs'', path_on_host = ''/dev/rootfs'', is_root_device = True, is_read_only = False\<rparr>) (\<lambda>_.
      and_then (metadata_drive os lossy orch jail) (\<lambda>_.
      and_then (put_drive os sock \<lparr>drive_id = ''metadata'', path_on_host = ''/metadata.ext4'', is_root_device = False, is_read_only = False\<rparr>) (\<lambda>_.
      and_then (put_network_interface os sock \<lparr>iface_id = ''eth0'', host_dev_name = vm_tap_name config\<rparr>) (\<lambda>_.
      instance_start os sock))))))))"

definition configure_vmm :: "'x api_os_scheme \<Rightarrow> (bytes \<Rightarrow> string) \<Rightarrow> Orchestrator \<Rightarrow> vmm_VmConfig \<Rightarrow> string \<Rightarrow> ('s prov_state_scheme, OrchestratorError, unit) op" where
  "configure_vmm os lossy orch config jail =
     (let sid = session_id config in
      and_then (enter sid ConfiguringVMM) (\<lambda>_.
      and_then (at_state sid (boot_vmm os lossy orch config jail)) (\<lambda>_.
      enter sid Running)))"

text \<open>
  The success path moves the cgroup and the process out of the context. The cgroup is there:
  the phase before has set it.
\<close>

definition finish_vm :: "vmm_VmConfig \<Rightarrow> string \<Rightarrow> TapDevice \<Rightarrow> u32 \<Rightarrow> string \<Rightarrow> ('s prov_state_scheme, OrchestratorError, Vm) op" where
  "finish_vm config rootfs tap ip jail s =
     (Inr \<lparr>vm_config = config, vm_cgroup = the (cgroup (ctx s)), vm_rootfs = rootfs, vm_tap = tap, vm_host_ip = ip,
           vm_jail_dir = jail, vm_process = process (ctx s)\<rparr>,
      s\<lparr>ctx := (ctx s)\<lparr>cgroup := None, process := None\<rparr>\<rparr>)"

definition run_phases :: "'x api_os_scheme \<Rightarrow> (bytes \<Rightarrow> string) \<Rightarrow> Orchestrator \<Rightarrow> vmm_VmConfig \<Rightarrow> string \<Rightarrow> TapDevice \<Rightarrow> u32 \<Rightarrow> ('s prov_state_scheme, OrchestratorError, Vm) op" where
  "run_phases os lossy orch config rootfs tap ip =
     and_then (provision_cgroup os orch config) (\<lambda>(cpus, mems).
     and_then (launch_jailer os orch config rootfs cpus mems) (\<lambda>jail.
     and_then (configure_vmm os lossy orch config jail) (\<lambda>_.
     finish_vm config rootfs tap ip jail)))"

definition provision_vm :: "'x api_os_scheme \<Rightarrow> (bytes \<Rightarrow> string) \<Rightarrow> Orchestrator \<Rightarrow> vmm_VmConfig \<Rightarrow> ('s prov_state_scheme, OrchestratorError, Vm) op" where
  "provision_vm os lossy orch config =
     and_then (provision_storage os orch config) (\<lambda>rootfs.
     and_then (provision_tap os config) (\<lambda>tap.
     on_error
       (and_then (provision_address config) (\<lambda>ip.
        and_then (at_state (session_id config) (load_nat_program os (vm_tap_name config) ip)) (\<lambda>_.
        on_error (run_phases os lossy orch config rootfs tap ip) (\<lambda>_. ignore (drop_EbpfProgram os)))))
       (\<lambda>_. ignore (drop_TapDevice os tap))))"

section \<open>Rollback\<close>

definition when_some :: "'a option \<Rightarrow> ('a \<Rightarrow> 's \<Rightarrow> 's) \<Rightarrow> 's \<Rightarrow> 's" where
  "when_some x f s = (case x of Some a \<Rightarrow> f a s | None \<Rightarrow> s)"

definition cleanup :: "'x os_scheme \<Rightarrow> StorageManager \<Rightarrow> 's prov_state_scheme \<Rightarrow> 's prov_state_scheme" where
  "cleanup os storage s =
     (let c = ctx s;
          s1 = when_some (process c) (\<lambda>child t. snd (sys_call os (Kill child) t)) (s\<lparr>ctx := c\<lparr>process := None\<rparr>\<rparr>);
          s2 = when_some (cgroup c) (\<lambda>cg t. snd (delete_cgroup os cg t)) (s1\<lparr>ctx := (ctx s1)\<lparr>cgroup := None\<rparr>\<rparr>);
          s3 = when_some (ctx_host_ip c) (\<lambda>ip t. t\<lparr>pool := release ip (pool t)\<rparr>) (s2\<lparr>ctx := (ctx s2)\<lparr>ctx_host_ip := None\<rparr>\<rparr>);
          s4 = (let t = s3\<lparr>ctx := (ctx s3)\<lparr>snapshot_name := None, snapshot_internal_id := None\<rparr>\<rparr>
                in case (snapshot_name c, snapshot_internal_id c) of
                     (Some name, Some i) \<Rightarrow> snd (delete_snapshot os storage name i t)
                   | _ \<Rightarrow> t)
      in when_some (jail_dir c) (\<lambda>jail t. snd (sys_call os (RemoveDirAll jail) t)) (s4\<lparr>ctx := (ctx s4)\<lparr>jail_dir := None\<rparr>\<rparr>))"

definition start_provisioning :: "vmm_VmConfig \<Rightarrow> host_state \<Rightarrow> prov_state" where
  "start_provisioning config s =
     host_state.extend s (prov_state.fields (new_VmStateMachine (session_id config))
       (new_ProvisioningContext (session_id config) (vm_id config)))"

definition launch_vm :: "'x api_os_scheme \<Rightarrow> (bytes \<Rightarrow> string) \<Rightarrow> Orchestrator \<Rightarrow> vmm_VmConfig \<Rightarrow> (host_state, OrchestratorError, Vm) op" where
  "launch_vm os lossy orch config s =
     (case provision_vm os lossy orch config (start_provisioning config s) of
        (Inr vm, t) \<Rightarrow> (Inr vm, host_state.truncate t)
      | (Inl e, t) \<Rightarrow> (Inl e, host_state.truncate (cleanup os (storage_manager orch) t)))"

section \<open>Frames\<close>

text \<open>\<open>keeps f m\<close>: whatever its outcome, \<open>m\<close> leaves the observation \<open>f\<close> of the state as it is.\<close>

definition keeps :: "('s \<Rightarrow> 'o) \<Rightarrow> ('s, 'e, 'a) op \<Rightarrow> bool" where
  "keeps f m \<longleftrightarrow> (\<forall>s. f (snd (m s)) = f s)"

named_theorems keep_intros \<open>operations that keep an observation\<close>

lemma keepsD: "keeps f m \<Longrightarrow> m s = (r, t) \<Longrightarrow> f t = f s"
  by (metis keeps_def snd_conv)

lemma keeps_ret [keep_intros]: "keeps f (ret_ok x)" "keeps f (ret_err e)"
  by (simp_all add: keeps_def ret_ok_def ret_err_def)

lemma keeps_then [keep_intros]: "keeps f m \<Longrightarrow> (\<And>x. keeps f (k x)) \<Longrightarrow> keeps f (and_then m k)"
  unfolding keeps_def and_then_def by (auto split: prod.splits sum.splits) (metis snd_conv)+

lemma keeps_split [keep_intros]: "(\<And>a b. keeps f (k a b)) \<Longrightarrow> keeps f (case p of (a, b) \<Rightarrow> k a b)"
  by (cases p) simp

lemma keeps_ignore [keep_intros]: "keeps f m \<Longrightarrow> keeps f (ignore m)"
  by (simp add: keeps_def ignore_def)

lemma keeps_on_error [keep_intros]: "keeps f m \<Longrightarrow> (\<And>e. keeps f (h e)) \<Longrightarrow> keeps f (on_error m h)"
  unfolding keeps_def on_error_def by (auto split: prod.splits sum.splits) (metis snd_conv)+

lemma keeps_at_state [keep_intros]: "keeps f m \<Longrightarrow> keeps f (at_state sid m)"
  unfolding keeps_def at_state_def by (auto split: prod.splits sum.splits) (metis snd_conv)+

lemma keeps_enter [keep_intros]: "(\<And>s sm. f (s\<lparr>machine := sm\<rparr>) = f s) \<Longrightarrow> keeps f (enter sid st)"
  unfolding enter_def by (intro keeps_at_state) (simp add: keeps_def split: prod.splits)

lemma keeps_set_ctx [keep_intros]: "(\<And>s. f (s\<lparr>ctx := g (ctx s)\<rparr>) = f s) \<Longrightarrow> keeps f (set_ctx g)"
  by (simp add: keeps_def set_ctx_def)

lemma keeps_makes:
  assumes "makes P m" and "\<And>s c. P c \<Longrightarrow> f (s\<lparr>trace := trace s @ [c]\<rparr>) = f s"
  shows "keeps f m"
  unfolding keeps_def
proof
  fix s
  have step: "list_all P cs \<Longrightarrow> f (s\<lparr>trace := trace s @ cs\<rparr>) = f s" for cs
  proof (induction cs rule: rev_induct)
    case (snoc c cs)
    then show ?case using assms(2) [of c "s\<lparr>trace := trace s @ cs\<rparr>"] by simp
  qed simp
  obtain cs where "list_all P cs" "snd (m s) = s\<lparr>trace := trace s @ cs\<rparr>" using assms(1) by (auto simp: makes_def)
  then show "f (snd (m s)) = f s" using step by simp
qed

text \<open>No phase after the storage phase talks to the thin pool.\<close>

lemma setup_jail_link: "makes P m \<Longrightarrow> makes P n \<Longrightarrow>
   makes P (\<lambda>s. case m s of (Inr _, s') \<Rightarrow> (Inr (), s') | (Inl _, s') \<Rightarrow> n s')"
proof -
  assume m: "makes P m" and n: "makes P n"
  show ?thesis
    unfolding makes_def
  proof
    fix s
    obtain cs where "list_all P cs" "snd (m s) = s\<lparr>trace := trace s @ cs\<rparr>" using m by (auto simp: makes_def)
    with makes_after [OF m n, of s]
    show "\<exists>cs. list_all P cs \<and> snd (case m s of (Inr _, s') \<Rightarrow> (Inr (), s') | (Inl _, s') \<Rightarrow> n s') = s\<lparr>trace := trace s @ cs\<rparr>"
      by (cases "m s") (auto split: sum.splits)
  qed
qed

lemma makes_option [trace_intros]: "makes P m \<Longrightarrow> (\<And>x. makes P (n x)) \<Longrightarrow> makes P (case y of None \<Rightarrow> m | Some x \<Rightarrow> n x)"
  by (cases y) auto

lemma makes_setup_jail: "makes no_slot_call (setup_jail os orch jail rootfs)"
  unfolding setup_jail_def by (intro trace_intros setup_jail_link) simp_all

lemma no_slot_calls: "is_fs_call c \<Longrightarrow> no_slot_call c" "is_net_call c \<Longrightarrow> no_slot_call c" "is_api_call c \<Longrightarrow> no_slot_call c"
  by (cases c; simp)+

lemma makes_metadata: "makes no_slot_call (metadata_drive os lossy orch jail)"
  unfolding metadata_drive_def Let_def by (intro trace_intros makes_metadata_drive) simp_all

lemma makes_boot: "makes no_slot_call (boot_vmm os lossy orch config jail)"
  unfolding boot_vmm_def Let_def
  by (intro makes_then makes_metadata makes_mono [OF makes_wait] makes_mono [OF makes_api(1)] makes_mono [OF makes_api(2)]
      makes_mono [OF makes_api(3)] makes_mono [OF makes_api(4)] makes_mono [OF makes_api(5)] no_slot_calls)

lemma makes_allocate_cpus: "makes is_fs_call (allocate_cpus os a r)"
  by (cases a) (auto intro: trace_intros)

text \<open>What the phases after the address phase leave alone.\<close>

definition held :: "'x os_scheme \<Rightarrow> string \<Rightarrow> 's prov_state_scheme \<Rightarrow> IpAm \<times> u32 option \<times> string option \<times> u32 option \<times> string set" where
  "held os p s = (pool s, ctx_host_ip (ctx s), snapshot_name (ctx s), snapshot_internal_id (ctx s), slots os p (trace s))"

lemma keeps_held:
  assumes "makes no_slot_call m"
  shows "keeps (held os p) m"
  using assms by (rule keeps_makes) (simp add: held_def)

lemma held_updates [simp]:
  "held os p (s\<lparr>machine := sm\<rparr>) = held os p s"
  "held os p (s\<lparr>ctx := (ctx s)\<lparr>cgroup := cg\<rparr>\<rparr>) = held os p s"
  "held os p (s\<lparr>ctx := (ctx s)\<lparr>jail_dir := jd\<rparr>\<rparr>) = held os p s"
  "held os p (s\<lparr>ctx := (ctx s)\<lparr>process := pr\<rparr>\<rparr>) = held os p s"
  "held os p (s\<lparr>ctx := (ctx s)\<lparr>cgroup := cg, process := pr\<rparr>\<rparr>) = held os p s"
  by (simp_all add: held_def)

lemma keeps_held_fs: "makes is_fs_call m \<Longrightarrow> keeps (held os p) m"
  by (rule keeps_held, erule makes_mono, rule no_slot_calls)

lemma keeps_held_net: "makes is_net_call m \<Longrightarrow> keeps (held os p) m"
  by (rule keeps_held, erule makes_mono, rule no_slot_calls)

lemma keeps_run_phases: "keeps (held os' p) (run_phases os lossy orch config rootfs tap ip)"
proof -
  have "keeps (held os' p) (provision_cgroup os orch config)"
    unfolding provision_cgroup_def Let_def
    by (intro keep_intros keeps_held_fs makes_cgroup makes_allocate_cpus) simp_all
  moreover have "keeps (held os' p) (launch_jailer os orch config rootfs cpus mems)" for cpus mems
    unfolding launch_jailer_def Let_def
    by (intro keep_intros keeps_held makes_setup_jail makes_perform) simp_all
  moreover have "keeps (held os' p) (configure_vmm os lossy orch config jail)" for jail
    unfolding configure_vmm_def Let_def by (intro keep_intros keeps_held makes_boot) simp_all
  moreover have "keeps (held os' p) (finish_vm config rootfs tap ip jail)" for jail
    by (simp add: keeps_def finish_vm_def)
  ultimately show ?thesis
    unfolding run_phases_def by (intro keep_intros)
qed

section \<open>States of the machine\<close>

text \<open>
  \<open>moves sid a S b m\<close>: started in state \<open>a\<close>, \<open>m\<close> either succeeds and ends in state \<open>b\<close>, or fails with
  an error that carries the session and a state of \<open>S\<close>.
\<close>

definition moves :: "u64 \<Rightarrow> VmState \<Rightarrow> VmState set \<Rightarrow> VmState \<Rightarrow> ('s prov_state_scheme, OrchestratorError, 'a) op \<Rightarrow> bool" where
  "moves sid a S b m \<longleftrightarrow>
     (\<forall>s. current_state (machine s) = a \<longrightarrow>
        (case m s of
           (Inr _, t) \<Rightarrow> current_state (machine t) = b
         | (Inl e, t) \<Rightarrow> err_session_id e = sid \<and> err_state e \<in> S))"

named_theorems move_intros \<open>state changes of the phases\<close>

lemma moves_Inr: "moves sid a S b m \<Longrightarrow> current_state (machine s) = a \<Longrightarrow> m s = (Inr x, t) \<Longrightarrow> current_state (machine t) = b"
  by (auto simp: moves_def dest: spec [of _ s])

lemma moves_Inl: "moves sid a S b m \<Longrightarrow> current_state (machine s) = a \<Longrightarrow> m s = (Inl e, t) \<Longrightarrow> err_session_id e = sid \<and> err_state e \<in> S"
  by (auto simp: moves_def dest: spec [of _ s])

lemma movesI:
  fixes m :: "('s prov_state_scheme, OrchestratorError, 'a) op"
  assumes "\<And>s x t. current_state (machine s) = a \<Longrightarrow> m s = (Inr x, t) \<Longrightarrow> current_state (machine t) = b"
    and "\<And>s e t. current_state (machine s) = a \<Longrightarrow> m s = (Inl e, t) \<Longrightarrow> err_session_id e = sid \<and> err_state e \<in> S"
  shows "moves sid a S b m"
  unfolding moves_def
proof (intro allI impI)
  fix s :: "'s prov_state_scheme"
  assume "current_state (machine s) = a"
  with assms [of s] show "case m s of (Inr _, t) \<Rightarrow> current_state (machine t) = b
      | (Inl e, t) \<Rightarrow> err_session_id e = sid \<and> err_state e \<in> S"
    by (cases "m s") (auto split: sum.splits)
qed

lemma moves_mono: "moves sid a S b m \<Longrightarrow> S \<subseteq> T \<Longrightarrow> moves sid a T b m"
  by (rule movesI) (auto dest: moves_Inr moves_Inl)

lemma moves_then: "moves sid a S b m \<Longrightarrow> (\<And>x. moves sid b S c (k x)) \<Longrightarrow> moves sid a S c (and_then m k)"
  by (rule movesI) (auto simp: and_then_Inr and_then_Inl dest: moves_Inr moves_Inl)

lemma moves_split: "(\<And>x y. moves sid a S b (k x y)) \<Longrightarrow> moves sid a S b (case p of (x, y) \<Rightarrow> k x y)"
  by (cases p) simp

lemma moves_on_error: "moves sid a S b m \<Longrightarrow> moves sid a S b (on_error m h)"
  by (rule movesI) (auto simp: on_error_def split: prod.splits sum.splits dest: moves_Inr moves_Inl)

lemma moves_enter: "is_valid_transition \<lparr>sm_state = a, sm_session_id = 0\<rparr> b \<Longrightarrow> moves sid a S b (enter sid b)"
  by (auto simp: moves_def enter_def at_state_def transition_to_def current_state_def is_valid_transition_def
      split: prod.splits VmState.splits)

lemma moves_keep: "keeps machine m \<Longrightarrow> a \<in> S \<Longrightarrow> moves sid a S a (at_state sid m)"
  by (rule movesI) (auto simp: at_state_def new_OrchestratorError_def split: prod.splits sum.splits dest: keepsD)

lemma moves_pure: "keeps machine m \<Longrightarrow> (\<And>s e t. m s \<noteq> (Inl e, t)) \<Longrightarrow> moves sid a S a m"
  by (rule movesI) (auto dest: keepsD)

lemma keeps_machine: "makes P m \<Longrightarrow> keeps machine m"
  by (rule keeps_makes) simp_all

lemma keeps_machine_create: "keeps machine (create_snapshot os sm base name)"
  unfolding create_snapshot_def
  by (intro keep_intros keeps_machine [OF makes_spawn [OF TrueI makes_snapshot_steps]]) (simp add: keeps_def fetch_add_def)

lemma keeps_machine_allocate: "keeps machine pool_allocate"
  by (simp add: keeps_def pool_allocate_def split: prod.splits)

lemma moves_set_ctx: "moves sid a S a (set_ctx g)"
  by (rule moves_pure) (simp_all add: keeps_def set_ctx_def)

lemma moves_ret: "moves sid a S a (ret_ok x)"
  by (rule moves_pure) (simp_all add: keeps_def ret_ok_def)

lemmas keeps_machine_ops =
  makes_cgroup [THEN keeps_machine] makes_allocate_cpus [THEN keeps_machine] makes_net [THEN keeps_machine]
  makes_setup_jail [THEN keeps_machine] makes_boot [THEN keeps_machine] makes_perform [of "\<lambda>_. True", OF TrueI, THEN keeps_machine]
  keeps_machine_create keeps_machine_allocate

lemma moves_first:
  "is_valid_transition \<lparr>sm_state = a, sm_session_id = 0\<rparr> b \<Longrightarrow> (\<And>x. moves sid b S c (k x)) \<Longrightarrow>
   moves sid a S c (and_then (enter sid b) k)"
  by (rule moves_then [OF moves_enter])

lemma moves_stay: "moves sid a S a m \<Longrightarrow> (\<And>x. moves sid a S c (k x)) \<Longrightarrow> moves sid a S c (and_then m k)"
  by (rule moves_then)

lemma moves_storage: "moves (session_id config) Pending {ProvisioningStorage} ProvisioningStorage (provision_storage os orch config)"
  unfolding provision_storage_def Let_def
  by (rule moves_first)
    (simp add: is_valid_transition_def,
     intro moves_stay moves_split moves_keep keeps_machine_ops moves_set_ctx moves_ret, simp)

lemma moves_tap: "moves (session_id config) ProvisioningStorage {ConfiguringNetwork} ConfiguringNetwork (provision_tap os config)"
  unfolding provision_tap_def Let_def
  by (rule moves_first) (simp add: is_valid_transition_def, intro moves_keep keeps_machine_ops, simp)

lemma moves_address: "moves (session_id config) ConfiguringNetwork {ConfiguringNetwork} ConfiguringNetwork (provision_address config)"
  unfolding provision_address_def
  by (intro moves_stay moves_keep keeps_machine_allocate moves_set_ctx moves_ret) simp

lemma moves_cgroup: "moves (session_id config) ConfiguringNetwork {InitializingCgroup} InitializingCgroup (provision_cgroup os orch config)"
  unfolding provision_cgroup_def Let_def
  by (rule moves_first)
    (simp add: is_valid_transition_def,
     intro moves_stay moves_keep keeps_machine_ops moves_set_ctx moves_ret, simp_all)

lemma moves_jailer: "moves (session_id config) InitializingCgroup {LaunchingVMM} LaunchingVMM (launch_jailer os orch config rootfs cpus mems)"
  unfolding launch_jailer_def Let_def
  by (rule moves_first)
    (simp add: is_valid_transition_def,
     intro moves_stay moves_keep keeps_machine_ops moves_set_ctx moves_ret, simp_all)

lemma moves_configure: "moves (session_id config) LaunchingVMM {ConfiguringVMM} Running (configure_vmm os lossy orch config jail)"
  unfolding configure_vmm_def Let_def
  by (rule moves_first)
    (simp add: is_valid_transition_def, intro moves_stay moves_enter moves_keep keeps_machine_ops, simp_all add: is_valid_transition_def)

lemma moves_finish: "moves sid Running S Running (finish_vm config rootfs tap ip jail)"
  by (rule moves_pure) (simp_all add: keeps_def finish_vm_def)

lemma moves_run_phases:
  "moves (session_id config) ConfiguringNetwork {InitializingCgroup, LaunchingVMM, ConfiguringVMM} Running
     (run_phases os lossy orch config rootfs tap ip)"
  unfolding run_phases_def
  by (rule moves_then [OF moves_mono [OF moves_cgroup]], simp, rule moves_split,
      rule moves_then [OF moves_mono [OF moves_jailer]], simp,
      rule moves_then [OF moves_mono [OF moves_configure]], simp, rule moves_finish)

lemma moves_provision:
  "moves (session_id config) Pending
     {ProvisioningStorage, ConfiguringNetwork, InitializingCgroup, LaunchingVMM, ConfiguringVMM} Running
     (provision_vm os lossy orch config)"
  unfolding provision_vm_def
  by (rule moves_then [OF moves_mono [OF moves_storage]], simp,
      rule moves_then [OF moves_mono [OF moves_tap]], simp, rule moves_on_error,
      rule moves_then [OF moves_mono [OF moves_address]], simp,
      rule moves_stay, intro moves_keep keeps_machine_ops, simp,
      rule moves_on_error, rule moves_mono [OF moves_run_phases], auto)

section \<open>What a failed provisioning leaves behind\<close>

lemma at_state_Inr [simp]: "at_state sid m s = (Inr x, t) \<longleftrightarrow> m s = (Inr x, t)"
  by (auto simp: at_state_def split: prod.splits sum.splits)

lemma at_state_Inl: "at_state sid m s = (Inl e, t) \<Longrightarrow> \<exists>e'. m s = (Inl e', t)"
  by (auto simp: at_state_def split: prod.splits sum.splits)

lemma enter_result: "enter sid st s = (r, t) \<Longrightarrow> \<exists>sm. t = s\<lparr>machine := sm\<rparr>"
  by (auto simp: enter_def at_state_def split: prod.splits sum.splits)

lemma provision_storage_Inr:
  assumes "provision_storage os orch config s = (Inr rootfs, t)"
  shows "held os (pool_name (storage_manager orch)) t =
    (pool s, ctx_host_ip (ctx s), Some (vm_id config), Some (next_device_id s),
     insert (show_word (next_device_id s)) (slots os (pool_name (storage_manager orch)) (trace s)))"
proof -
  obtain u v snap where e: "enter (session_id config) ProvisioningStorage s = (Inr (), u)"
    and c: "create_snapshot os (storage_manager orch) 1 (vm_id config) u = (Inr (rootfs, snap), v)"
    and t: "t = v\<lparr>ctx := (ctx v)\<lparr>snapshot_name := Some (vm_id config), snapshot_internal_id := Some snap\<rparr>\<rparr>"
    using assms by (auto simp: provision_storage_def Let_def and_then_Inr set_ctx_def)
  obtain sm where u: "u = s\<lparr>machine := sm\<rparr>" using enter_result [OF e] by blast
  note created = create_snapshot_Inr [OF c]
  show ?thesis
    using t u created(1,3,4) by (auto simp: held_def)
qed

lemma provision_storage_Inl:
  assumes "provision_storage os orch config s = (Inl e, t)"
  shows "pool t = pool s" and "ctx t = ctx s"
proof -
  have "(pool t, ctx t) = (pool s, ctx s)"
  proof -
    consider "enter (session_id config) ProvisioningStorage s = (Inl e, t)"
      | u e' where "enter (session_id config) ProvisioningStorage s = (Inr (), u)"
          "create_snapshot os (storage_manager orch) 1 (vm_id config) u = (Inl e', t)"
      using assms by (auto simp: provision_storage_def Let_def and_then_Inl set_ctx_def dest!: at_state_Inl)
    then show ?thesis
      by cases (auto dest!: enter_result create_snapshot_Inl)
  qed
  then show "pool t = pool s" and "ctx t = ctx s" by simp_all
qed

lemma keeps_tap: "keeps (held os' p) (provision_tap os config)"
  unfolding provision_tap_def Let_def by (intro keep_intros keeps_held_net) (simp_all add: makes_net)

lemma provision_address_Inr:
  assumes "provision_address config s = (Inr ip, t)"
  shows "allocate (pool s) = (Inr ip, pool t)" and "ctx t = (ctx s)\<lparr>ctx_host_ip := Some ip\<rparr>" and "trace t = trace s"
  using assms by (auto simp: provision_address_def and_then_Inr set_ctx_def pool_allocate_def split: prod.splits)

lemma provision_address_Inl:
  assumes "provision_address config s = (Inl e, t)"
  shows "t = s"
proof -
  obtain e' where "pool_allocate s = (Inl e', t)"
    using assms by (auto simp: provision_address_def and_then_Inl set_ctx_def dest: at_state_Inl)
  then show ?thesis
    using ipam.alloc_fail [of "pool s" e'] by (auto simp: pool_allocate_def split: prod.splits)
qed

lemma on_error_Inl: "on_error m h s = (Inl e, t) \<longleftrightarrow> (\<exists>u. m s = (Inl e, u) \<and> t = snd (h e u))"
  by (auto simp: on_error_def split: prod.splits sum.splits)

lemma keeps_drop_tap: "keeps (held os' p) (ignore (drop_TapDevice os tap))"
  by (intro keep_intros keeps_held_net) (simp add: makes_net)

lemma keeps_attached:
  "keeps (held os' p) (and_then (at_state sid (load_nat_program os name ip)) (\<lambda>_.
     on_error (run_phases os lossy orch config rootfs tap ip) (\<lambda>_. ignore (drop_EbpfProgram os))))"
  by (intro keep_intros keeps_held_net keeps_run_phases) (simp_all add: makes_net)

text \<open>
  The three ways provisioning can fail: without a snapshot; with a snapshot and no address;
  with both.
\<close>

lemma provision_vm_Inl:
  fixes s :: "'s prov_state_scheme"
  assumes "provision_vm os lossy orch config s = (Inl e, t)" and "ctx_host_ip (ctx s) = None"
    and "current_state (machine s) = Pending"
  obtains (storage) "err_state e = ProvisioningStorage" "pool t = pool s" "ctx t = ctx s"
    | (address) "held os (pool_name (storage_manager orch)) t =
        (pool s, None, Some (vm_id config), Some (next_device_id s),
         insert (show_word (next_device_id s)) (slots os (pool_name (storage_manager orch)) (trace s)))"
    | (later) ip p where "allocate (pool s) = (Inr ip, p)"
       "held os (pool_name (storage_manager orch)) t =
        (p, Some ip, Some (vm_id config), Some (next_device_id s),
         insert (show_word (next_device_id s)) (slots os (pool_name (storage_manager orch)) (trace s)))"
proof (cases "fst (provision_storage os orch config s)")
  case (Inl e')
  then have f: "provision_storage os orch config s = (Inl e, t)"
    using assms(1) by (cases "provision_storage os orch config s") (auto simp: provision_vm_def and_then_def)
  show thesis
    using provision_storage_Inl [OF f] moves_Inl [OF moves_storage assms(3) f] by (intro storage) auto
next
  case (Inr rootfs)
  let ?h = "held os (pool_name (storage_manager orch))"
  obtain u where u: "provision_storage os orch config s = (Inr rootfs, u)"
    using Inr by (cases "provision_storage os orch config s") auto
  note hu = provision_storage_Inr [OF u, unfolded assms(2)]
  consider (tap) "provision_tap os config u = (Inl e, t)"
    | (rest) tap v where "provision_tap os config u = (Inr tap, v)"
       "on_error (and_then (provision_address config) (\<lambda>ip.
        and_then (at_state (session_id config) (load_nat_program os (vm_tap_name config) ip)) (\<lambda>_.
        on_error (run_phases os lossy orch config rootfs tap ip) (\<lambda>_. ignore (drop_EbpfProgram os)))))
       (\<lambda>_. ignore (drop_TapDevice os tap)) v = (Inl e, t)"
    using assms(1) u by (auto simp: provision_vm_def and_then_Inl)
  then show thesis
  proof cases
    case tap
    then show thesis using keepsD [OF keeps_tap tap, of os] hu by (intro address) metis
  next
    case rest
    have hv: "?h v = ?h u" by (rule keepsD [OF keeps_tap rest(1)])
    obtain w where w: "and_then (provision_address config) (\<lambda>ip.
        and_then (at_state (session_id config) (load_nat_program os (vm_tap_name config) ip)) (\<lambda>_.
        on_error (run_phases os lossy orch config rootfs tap ip) (\<lambda>_. ignore (drop_EbpfProgram os)))) v = (Inl e, w)"
      and t: "?h t = ?h w"
      using rest(2) keeps_drop_tap [of os "pool_name (storage_manager orch)" os tap]
      by (auto simp: on_error_Inl keeps_def)
    show thesis
    proof (cases "fst (provision_address config v)")
      case (Inl e')
      then have "w = v" using w provision_address_Inl [of config v]
        by (cases "provision_address config v") (auto simp: and_then_def)
      then show thesis using t hv hu by (intro address) simp
    next
      case (Inr ip)
      then obtain x where x: "provision_address config v = (Inr ip, x)" by (cases "provision_address config v") auto
      then have "?h w = ?h x"
        using w keepsD [OF keeps_attached] by (auto simp: and_then_def [of "provision_address config"])
      moreover have "allocate (pool s) = (Inr ip, pool x)"
        using provision_address_Inr(1) [OF x] hv hu by (simp add: held_def)
      moreover have "?h x = (pool x, Some ip, Some (vm_id config), Some (next_device_id s),
         insert (show_word (next_device_id s)) (slots os (pool_name (storage_manager orch)) (trace s)))"
        using provision_address_Inr [OF x] hv hu by (simp add: held_def)
      ultimately show thesis using t by (intro later) simp_all
    qed
  qed
qed

section \<open>The rollback\<close>

lemma makes_pool [simp]: "makes P m \<Longrightarrow> pool (snd (m s)) = pool s"
  using keeps_makes [of P m pool] by (simp add: keeps_def)

lemma makes_ctx [simp]: "makes P m \<Longrightarrow> ctx (snd (m s)) = ctx s"
  using keeps_makes [of P m ctx] by (simp add: keeps_def)

lemma makes_kill: "traces_only (sys_call os c)"
  by (intro trace_intros TrueI)

lemmas rollback_frames =
  makes_pool [OF makes_kill] makes_pool [OF makes_cgroup(9)] makes_pool [OF makes_delete_snapshot]
  makes_ctx [OF makes_kill] makes_ctx [OF makes_cgroup(9)] makes_ctx [OF makes_delete_snapshot]

lemma when_some_frame:
  "(\<And>x. f (g x s) = f s) \<Longrightarrow> f (when_some y g s) = f s"
  by (cases y) (simp_all add: when_some_def)

lemma cleanup_pool: "pool (cleanup os sm s) = (case ctx_host_ip (ctx s) of Some ip \<Rightarrow> release ip (pool s) | None \<Rightarrow> pool s)"
  by (auto simp: cleanup_def Let_def when_some_def rollback_frames split: option.splits prod.splits)

lemma cleanup_ctx:
  "ctx (cleanup os sm s) =
     (ctx s)\<lparr>snapshot_name := None, snapshot_internal_id := None, ctx_host_ip := None, cgroup := None,
             jail_dir := None, process := None\<rparr>"
  by (auto simp: cleanup_def Let_def when_some_def rollback_frames split: option.splits prod.splits)

lemma cleanup_nothing:
  assumes "process (ctx s) = None" "cgroup (ctx s) = None" "ctx_host_ip (ctx s) = None" "snapshot_name (ctx s) = None"
    "snapshot_internal_id (ctx s) = None" "jail_dir (ctx s) = None"
  shows "cleanup os sm s = s"
proof -
  have "(ctx s)\<lparr>process := None\<rparr> = ctx s" "(ctx s)\<lparr>cgroup := None\<rparr> = ctx s" "(ctx s)\<lparr>ctx_host_ip := None\<rparr> = ctx s"
    "(ctx s)\<lparr>snapshot_name := None, snapshot_internal_id := None\<rparr> = ctx s" "(ctx s)\<lparr>jail_dir := None\<rparr> = ctx s"
    using assms by (cases "ctx s"; simp)+
  then show ?thesis using assms by (simp add: cleanup_def when_some_def Let_def)
qed

text \<open>On a host that carries out the two commands of \<open>delete_snapshot\<close>, the slot is free afterwards.\<close>

definition deletes_snapshots :: "'x os_scheme \<Rightarrow> string \<Rightarrow> string \<Rightarrow> u32 \<Rightarrow> bool" where
  "deletes_snapshots os p name i \<longleftrightarrow>
     (\<forall>tr. sys os (Blocking ''dm_snapshot_delete'') tr = Inr ()
       \<and> (\<exists>err. run os ''dmsetup'' [''remove'', name] tr = Inr (True, err))
       \<and> (\<exists>err. run os ''dmsetup'' [''message'', p, ''0'', delete_message i] tr = Inr (True, err)))"

lemma delete_snapshot_ok:
  assumes "deletes_snapshots os (pool_name sm) name i"
  shows "slots os (pool_name sm) (trace (snd (delete_snapshot os sm name i s))) = slots os (pool_name sm) (trace s) - {show_word i}"
proof -
  let ?s1 = "s\<lparr>trace := trace s @ [Blocking ''dm_snapshot_delete'']\<rparr>"
  obtain u where "run_checked os ''dmsetup'' [''remove'', name] (\<lambda>_. ''dm_dev_remove failed'') ?s1 = (Inr (), u)"
    using assms by (auto simp: deletes_snapshots_def run_checked_Inr)
  moreover obtain v where "run_checked os ''dmsetup'' [''message'', pool_name sm, ''0'', delete_message i] (\<lambda>_. ''dm_target_msg delete failed'') u = (Inr (), v)"
    using assms by (auto simp: deletes_snapshots_def run_checked_Inr)
  ultimately have "delete_snapshot os sm name i s = (Inr (), v)"
    using assms by (simp add: delete_snapshot_def spawn_blocking_Inr and_then_Inr deletes_snapshots_def)
  then show ?thesis using delete_snapshot_Inr by fastforce
qed

lemma slots_other [simp]: "makes no_slot_call m \<Longrightarrow> slots os p (trace (snd (m s))) = slots os p (trace s)"
  using keeps_makes [of no_slot_call m "\<lambda>s. slots os p (trace s)"] by (simp add: keeps_def)

lemma makes_other_calls:
  "makes no_slot_call (sys_call os (Kill c))" "makes no_slot_call (sys_call os (RemoveDirAll d))"
  "makes no_slot_call (delete_cgroup os cg)"
  by (auto intro: trace_intros makes_mono [OF makes_cgroup(9) no_slot_calls(1)])

lemma cleanup_slots:
  assumes "snapshot_name (ctx s) = Some name" and "snapshot_internal_id (ctx s) = Some i"
    and "deletes_snapshots os (pool_name sm) name i"
  shows "slots os (pool_name sm) (trace (cleanup os sm s)) = slots os (pool_name sm) (trace s) - {show_word i}"
  using assms(1,2)
  by (auto simp: cleanup_def Let_def when_some_def delete_snapshot_ok [OF assms(3)] slots_other [OF makes_other_calls(1)]
      slots_other [OF makes_other_calls(2)] slots_other [OF makes_other_calls(3)] split: option.splits)

section \<open>Properties of a launch\<close>

lemma start_fields [simp]:
  "pool (start_provisioning config s) = pool s" "trace (start_provisioning config s) = trace s"
  "next_device_id (start_provisioning config s) = next_device_id s"
  "ctx (start_provisioning config s) = new_ProvisioningContext (session_id config) (vm_id config)"
  "machine (start_provisioning config s) = new_VmStateMachine (session_id config)"
  by (simp_all add: start_provisioning_def host_state.defs prov_state.defs)

lemma truncate_fields [simp]:
  "pool (host_state.truncate t) = pool t" "trace (host_state.truncate t) = trace t"
  "next_device_id (host_state.truncate t) = next_device_id t"
  by (simp_all add: host_state.defs)

lemma start_pending: "current_state (machine (start_provisioning config s)) = Pending"
  by (simp add: new_VmStateMachine_def current_state_def)

text \<open>
  C2. A launch that fails gives back what it took from the address pool: the pool is exactly
  as before, whatever failed and whatever the rollback ran into. The error names the session
  and one of the five provisioning states.
\<close>

theorem failed_launch_restores_pool:
  assumes "launch_vm os lossy orch config s = (Inl e, s')" and "unat (base_ip (pool s)) + 64 \<le> 2 ^ 32"
  shows "pool s' = pool s \<and> err_session_id e = session_id config
    \<and> err_state e \<in> {ProvisioningStorage, ConfiguringNetwork, InitializingCgroup, LaunchingVMM, ConfiguringVMM}"
proof -
  let ?s = "start_provisioning config s"
  obtain t where t: "provision_vm os lossy orch config ?s = (Inl e, t)"
    and s': "s' = host_state.truncate (cleanup os (storage_manager orch) t)"
    using assms(1) by (auto simp: launch_vm_def split: prod.splits sum.splits)
  have "ctx_host_ip (ctx ?s) = None" by (simp add: new_ProvisioningContext_def)
  then have "pool (cleanup os (storage_manager orch) t) = pool s"
  proof (rule provision_vm_Inl [OF t _ start_pending])
    fix ip p
    assume a: "allocate (pool ?s) = (Inr ip, p)"
      and h: "held os (pool_name (storage_manager orch)) t =
        (p, Some ip, Some (vm_id config), Some (next_device_id ?s),
         insert (show_word (next_device_id ?s)) (slots os (pool_name (storage_manager orch)) (trace ?s)))"
    have "ipam_wf (pool s)" using assms(2) by (simp add: ipam_wf_def)
    then have "release ip p = pool s" using ipam.free_undo a by simp
    then show ?thesis using h by (simp add: cleanup_pool held_def)
  qed (auto simp: cleanup_pool held_def new_ProvisioningContext_def)
  with s' moves_Inl [OF moves_provision start_pending t] show ?thesis by simp
qed

text \<open>A concrete orchestrator, as the program's entry point sets it up.\<close>

definition sample_orchestrator :: Orchestrator where
  "sample_orchestrator =
     \<lparr>cgroup_manager = ''/sys/fs/cgroup/orchestrator'', storage_manager = \<lparr>pool_name = ''thin-pool-0''\<rparr>,
      cpuset_allocator = NaiveCpusetAllocator, numa_topology = ''/sys'', jailer_path = ''/bin/jailer'',
      firecracker_path = ''/bin/firecracker'', kernel_path = ''/resources/vmlinux'', chroot_base_dir = ''/srv/jailer'',
      jailer_uid = 1000, jailer_gid = 1000\<rparr>"

definition sample_vm :: vmm_VmConfig where
  "sample_vm =
     \<lparr>vm_id = ''vm-test-001'', session_id = 1, cpu_count = 1, mem_size_mib = 256, vcpu_cores = ''0'', numa_node = ''0'',
      base_image = ''resources/browser-rootfs.ext4''\<rparr>"

definition sample_host :: host_state where
  "sample_host = \<lparr>trace = [], next_device_id = 100, pool = new_IpAm 0x0A000001\<rparr>"

text \<open>The address pool is used in the middle of the run, so its first answer is computed beforehand.\<close>

lemma allocate_fresh: "allocate (new_IpAm base) = (Inr base, \<lparr>bits = 1, base_ip = base\<rparr>)"
proof -
  have "trailing_zeros (NOT (0 :: u64)) = 0" by (simp add: trailing_zeros_def upt_conv_Cons)
  then show ?thesis by (simp add: allocate_eq address_def new_IpAm_def)
qed

lemmas launch_eval =
  launch_vm_def provision_vm_def provision_storage_def provision_tap_def provision_address_def
  enter_def at_state_def set_ctx_def pool_allocate_def transition_to_def is_valid_transition_def current_state_def
  create_snapshot_def snapshot_steps_def fetch_add_def run_checked_def run_command_def
  create_TapDevice_def set_interface_up_def with_drop_def
  load_nat_program_def attach_program_def ok_or_def prefix_err_def spawn_blocking_def sys_call_def perform_def
  monad_simps new_VmStateMachine_def

theorem failed_launch_restores_pool_witness:
  "\<exists>e s'. launch_vm (sample_api_os (\<lambda>c. c = BpfLoad) no_files) of_bytes sample_orchestrator sample_vm sample_host = (Inl e, s')
     \<and> err_state e = ConfiguringNetwork \<and> pool s' = new_IpAm 0x0A000001"
proof -
  let ?os = "sample_api_os (\<lambda>c. c = BpfLoad) no_files"
  obtain e s' where l: "launch_vm ?os of_bytes sample_orchestrator sample_vm sample_host = (Inl e, s')" and e: "err_state e = ConfiguringNetwork"
    by (simp add: launch_eval Let_def sample_host_def allocate_fresh new_OrchestratorError_def)
  have "unat (base_ip (pool sample_host)) + 64 \<le> 2 ^ 32" by (simp add: sample_host_def new_IpAm_def)
  from failed_launch_restores_pool [OF l this] l e show ?thesis by (auto simp: sample_host_def)
qed

text \<open>
  C17. On a host that carries out both commands of the rollback (\<open>dmsetup remove\<close> and the delete
  message to the pool), after a failed launch that got past the storage phase and whose snapshot
  number was not in the pool before, the thin pool holds the same slots as before the launch. When
  the host refuses one of the two commands the source logs it and leaves the snapshot.
\<close>

theorem failed_launch_returns_slot:
  assumes "launch_vm os lossy orch config s = (Inl e, s')" and "err_state e \<noteq> ProvisioningStorage"
    and "deletes_snapshots os (pool_name (storage_manager orch)) (vm_id config) (next_device_id s)"
    and "show_word (next_device_id s) \<notin> slots os (pool_name (storage_manager orch)) (trace s)"
  shows "slots os (pool_name (storage_manager orch)) (trace s') = slots os (pool_name (storage_manager orch)) (trace s)"
proof -
  let ?s = "start_provisioning config s" and ?p = "pool_name (storage_manager orch)"
  obtain t where t: "provision_vm os lossy orch config ?s = (Inl e, t)"
    and s': "s' = host_state.truncate (cleanup os (storage_manager orch) t)"
    using assms(1) by (auto simp: launch_vm_def split: prod.splits sum.splits)
  have "ctx_host_ip (ctx ?s) = None" by (simp add: new_ProvisioningContext_def)
  then obtain ips where "held os ?p t = (fst ips, snd ips, Some (vm_id config), Some (next_device_id s),
      insert (show_word (next_device_id s)) (slots os ?p (trace s)))"
    by (rule provision_vm_Inl [OF t _ start_pending]) (use assms(2) in auto)
  then have snap: "snapshot_name (ctx t) = Some (vm_id config)" "snapshot_internal_id (ctx t) = Some (next_device_id s)"
    "slots os ?p (trace t) = insert (show_word (next_device_id s)) (slots os ?p (trace s))"
    by (simp_all add: held_def)
  show ?thesis using s' snap(3) cleanup_slots [OF snap(1,2) assms(3)] assms(4) by simp
qed

theorem failed_launch_returns_slot_witness:
  "\<exists>e s'. launch_vm (sample_api_os (\<lambda>c. c = BpfLoad) no_files) of_bytes sample_orchestrator sample_vm sample_host = (Inl e, s')
     \<and> slots (sample_api_os (\<lambda>c. c = BpfLoad) no_files) ''thin-pool-0'' (trace s') = {}"
proof -
  let ?os = "sample_api_os (\<lambda>c. c = BpfLoad) no_files"
  obtain e s' where l: "launch_vm ?os of_bytes sample_orchestrator sample_vm sample_host = (Inl e, s')" and e: "err_state e = ConfiguringNetwork"
    by (simp add: launch_eval Let_def sample_host_def allocate_fresh new_OrchestratorError_def)
  have p: "pool_name (storage_manager sample_orchestrator) = ''thin-pool-0''" by (simp add: sample_orchestrator_def)
  have "slots ?os ''thin-pool-0'' (trace s') = slots ?os ''thin-pool-0'' (trace sample_host)"
    unfolding p [symmetric]
    by (rule failed_launch_returns_slot [OF l])
      (simp_all add: e p deletes_snapshots_def sample_host_def slots_def)
  with l show ?thesis by (simp add: sample_host_def slots_def)
qed

text \<open>
  The rollback clears every resource it was given and is idempotent: running it again
  changes nothing and makes no call.
\<close>

theorem cleanup_idempotent:
  "ctx_host_ip (ctx (cleanup os sm s)) = None \<and> process (ctx (cleanup os sm s)) = None
    \<and> cgroup (ctx (cleanup os sm s)) = None \<and> snapshot_name (ctx (cleanup os sm s)) = None
    \<and> jail_dir (ctx (cleanup os sm s)) = None \<and> cleanup os sm (cleanup os sm s) = cleanup os sm s"
  using cleanup_nothing [of "cleanup os sm s" os sm] by (simp add: cleanup_ctx)

section \<open>The order of a successful launch\<close>

text \<open>\<open>emits xs m\<close>: when \<open>m\<close> succeeds, the calls \<open>xs\<close> are among those it made, in this order.\<close>

definition emits :: "call list \<Rightarrow> ('s sys_state_scheme, 'e, 'a) op \<Rightarrow> bool" where
  "emits xs m \<longleftrightarrow> (\<forall>s x t. m s = (Inr x, t) \<longrightarrow> (\<exists>cs. trace t = trace s @ cs \<and> subseq xs cs))"

lemma emitsD: "emits xs m \<Longrightarrow> m s = (Inr x, t) \<Longrightarrow> \<exists>cs. trace t = trace s @ cs \<and> subseq xs cs"
  by (auto simp: emits_def)

lemma emits_then:
  assumes "emits xs m" and "\<And>x. emits ys (k x)"
  shows "emits (xs @ ys) (and_then m k)"
  unfolding emits_def and_then_Inr
proof (intro allI impI, elim exE conjE)
  fix s y t x u
  assume "m s = (Inr x, u)" and "k x u = (Inr y, t)"
  then obtain cs ds where "trace u = trace s @ cs" "subseq xs cs" "trace t = trace u @ ds" "subseq ys ds"
    using emitsD [OF assms(1)] emitsD [OF assms(2)] by meson
  then show "\<exists>cs. trace t = trace s @ cs \<and> subseq (xs @ ys) cs"
    by (intro exI [of _ "cs @ ds"]) (simp add: list_emb_append_mono)
qed

lemma emits_none_then: "emits [] m \<Longrightarrow> (\<And>x. emits ys (k x)) \<Longrightarrow> emits ys (and_then m k)"
  using emits_then [of "[]" m ys k] by simp

lemma emits_then_none: "emits xs m \<Longrightarrow> (\<And>x. emits [] (k x)) \<Longrightarrow> emits xs (and_then m k)"
  using emits_then [of xs m "[]" k] by simp

lemma emits_makes: "makes P m \<Longrightarrow> emits [] m"
  unfolding emits_def by (metis makesE list_emb_Nil sys_state.select_convs(1) sys_state.surjective sys_state.update_convs(1))

lemma emits_perform: "emits [c] (perform c f)"
  by (auto simp: emits_def perform_def)

lemma emits_at_state [simp]: "emits xs (at_state sid m) = emits xs m"
  by (simp add: emits_def)

lemma emits_keeps_trace: "keeps trace m \<Longrightarrow> emits [] m"
  unfolding emits_def by (metis append_Nil2 keepsD list_emb_Nil)

lemma emits_quiet: "emits [] (enter sid st)" "emits [] (set_ctx g)" "emits [] (ret_ok x)" "emits [] (finish_vm config rootfs tap ip jail)"
  by (rule emits_keeps_trace, rule keeps_enter, simp)
    (rule emits_keeps_trace, simp add: keeps_def set_ctx_def ret_ok_def finish_vm_def)+

lemma emits_load: "emits [BpfMapSet ''VM_CONFIG'' 0 (nat_config ip), BpfAttach ''tc_egress'' name ''Egress'', BpfAttach ''tc_ingress'' name ''Ingress'']
   (load_nat_program os name ip)"
  unfolding emits_def
proof (intro allI impI)
  fix s x t
  assume l: "load_nat_program os name ip s = (Inr x, t)"
  then have "sys os (Blocking ''ebpf_load'') (trace s) = Inr ()" "sys os BpfLoad (trace s @ [Blocking ''ebpf_load'']) = Inr ()"
    by (auto simp: load_nat_program_def spawn_blocking_def prefix_err_def and_then_Inr sys_call_def perform_def)
  from load_calls [OF l this] have "trace t = trace s @ [Blocking ''ebpf_load'', BpfLoad] @ attach_calls name ip"
    by auto
  then show "\<exists>cs. trace t = trace s @ cs \<and>
      subseq [BpfMapSet ''VM_CONFIG'' 0 (nat_config ip), BpfAttach ''tc_egress'' name ''Egress'', BpfAttach ''tc_ingress'' name ''Ingress''] cs"
    by (auto simp: attach_calls_def)
qed

lemma emits_memory_limit:
  "emits [WriteFile (path_join (cgroup_path cg) ''memory.max'') (show_word b)] (set_memory_limit os cg b)"
  by (auto simp: emits_def set_memory_limit_def spawn_blocking_def sys_call_def and_then_Inr perform_def)

lemma emits_cpuset:
  "emits [WriteFile (path_join (cgroup_path cg) ''cpuset.cpus'') cpus, WriteFile (path_join (cgroup_path cg) ''cpuset.mems'') mems]
     (set_cpuset os cg cpus mems)"
  by (auto simp: emits_def set_cpuset_def spawn_blocking_def sys_call_def and_then_Inr perform_def)

text \<open>
  The requests that configure and start a VMM, in order, and the calls that one of them makes
  on the socket: connect, head, encoded body, answer.
\<close>

definition vmm_requests :: "vmm_VmConfig \<Rightarrow> (string \<times> api_body) list" where
  "vmm_requests config =
     [(''/machine-config'', MachineConfigBody \<lparr>vcpu_count = cpu_count config, mc_mem_size_mib = mem_size_mib config, smt = False\<rparr>),
      (''/boot-source'', BootSourceBody \<lparr>kernel_image_path = ''/vmlinux'',
          boot_args = ''console=ttyS0 reboot=k panic=1 pci=off nomodules''\<rparr>),
      (''/drives/rootfs'', DriveBody \<lparr>drive_id = ''rootfs'', path_on_host = ''/dev/rootfs'', is_root_device = True, is_read_only = False\<rparr>),
      (''/drives/metadata'', DriveBody \<lparr>drive_id = ''metadata'', path_on_host = ''/metadata.ext4'', is_root_device = False, is_read_only = False\<rparr>),
      (''/network-interfaces/eth0'', NetworkInterfaceBody \<lparr>iface_id = ''eth0'', host_dev_name = vm_tap_name config\<rparr>),
      (''/actions'', InstanceActionBody \<lparr>action_type = ''InstanceStart''\<rparr>)]"

definition request_calls :: "'x api_os_scheme \<Rightarrow> string \<Rightarrow> string \<times> api_body \<Rightarrow> call list" where
  "request_calls os sock r =
     (case to_vec os (snd r) of
        Inr json \<Rightarrow> [Connect sock, Send (as_bytes (request_head (fst r) (length json))), Send json, Receive]
      | Inl _ \<Rightarrow> [])"

lemma emits_put: "emits (request_calls os sock (path, body)) (api_put os sock path body)"
  by (auto simp: emits_def request_calls_def api_put_def send_request_def and_then_Inr perform_def lift_res_def)

lemma put_encoded: "api_put os sock path body s = (Inr u, t) \<Longrightarrow> \<not> isl (to_vec os body)"
  by (auto simp: api_put_def and_then_Inr lift_res_def)

lemma boot_encoded:
  assumes "boot_vmm os lossy orch config jail s = (Inr u, t)"
  shows "list_all (\<lambda>(path, body). \<not> isl (to_vec os body)) (vmm_requests config)"
  using assms
  by (auto simp: boot_vmm_def Let_def and_then_Inr put_machine_config_def put_boot_source_def put_drive_def
      put_network_interface_def instance_start_def vmm_requests_def dest!: put_encoded)

definition vm_cgroup_dir :: "Orchestrator \<Rightarrow> string \<Rightarrow> string" where
  "vm_cgroup_dir orch i = path_join (cgroup_manager orch) (''vm-'' @ i)"

lemma create_vm_cgroup_path: "create_vm_cgroup os root i s = (Inr cg, t) \<Longrightarrow> cgroup_path cg = path_join root (''vm-'' @ i)"
  by (auto simp: create_vm_cgroup_def Let_def spawn_blocking_def and_then_Inr)

text \<open>
  The cpuset and the memory nodes are those that the allocator and the topology answer on
  the host as it is at that point of the launch.
\<close>

lemma provision_cgroup_Inr:
  fixes s :: "'s prov_state_scheme"
  assumes "provision_cgroup os orch config s = (Inr (cpus, mems), t)"
  obtains cs and u v u' v' :: "'s prov_state_scheme" where "trace t = trace s @ cs"
    "subseq [WriteFile (path_join (vm_cgroup_dir orch (vm_id config)) ''cpuset.cpus'') cpus,
             WriteFile (path_join (vm_cgroup_dir orch (vm_id config)) ''cpuset.mems'') mems,
             WriteFile (path_join (vm_cgroup_dir orch (vm_id config)) ''memory.max'') (show_word (mem_max_bytes config))] cs"
    "allocate_cpus os (cpuset_allocator orch) (vcpu_cores config) u = (Inr cpus, v)"
    "get_mems_string os (numa_topology orch) (numa_node config) u' = (Inr mems, v')"
    "prefix (trace s) (trace u)" "prefix (trace v) (trace u')" "prefix (trace v') (trace t)"
proof -
  obtain a b cg u v v' w x y where r:
    "enter (session_id config) InitializingCgroup s = (Inr x, a)"
    "create_vm_cgroup os (cgroup_manager orch) (vm_id config) a = (Inr cg, b)"
    "set_ctx (\<lambda>c. c\<lparr>cgroup := Some cg\<rparr>) b = (Inr y :: OrchestratorError + unit, u)"
    "allocate_cpus os (cpuset_allocator orch) (vcpu_cores config) u = (Inr cpus, v)"
    "get_mems_string os (numa_topology orch) (numa_node config) v = (Inr mems, v')"
    "set_cpuset os cg cpus mems v' = (Inr (), w)"
    "set_memory_limit os cg (mem_max_bytes config) w = (Inr (), t)"
    using assms by (auto simp: provision_cgroup_def Let_def and_then_Inr)
  have dir: "cgroup_path cg = vm_cgroup_dir orch (vm_id config)"
    using create_vm_cgroup_path [OF r(2)] by (simp add: vm_cgroup_dir_def)
  obtain c1 c2 c3 c4 c5 c6 c7 where tr:
    "trace a = trace s @ c1" "trace b = trace a @ c2" "trace u = trace b @ c3" "trace v = trace u @ c4" "trace v' = trace v @ c5"
    "trace w = trace v' @ c6" "trace t = trace w @ c7"
    "subseq [WriteFile (path_join (cgroup_path cg) ''cpuset.cpus'') cpus, WriteFile (path_join (cgroup_path cg) ''cpuset.mems'') mems] c6"
    "subseq [WriteFile (path_join (cgroup_path cg) ''memory.max'') (show_word (mem_max_bytes config))] c7"
    using emitsD [OF emits_quiet(1) r(1)] emitsD [OF emits_makes [OF makes_cgroup(5)] r(2)] emitsD [OF emits_quiet(2) r(3)]
      emitsD [OF emits_makes [OF makes_allocate_cpus] r(4)] emitsD [OF emits_makes [OF makes_cgroup(1)] r(5)]
      emitsD [OF emits_cpuset r(6)] emitsD [OF emits_memory_limit r(7)]
    by blast
  show thesis
  proof (rule that [OF _ _ r(4,5)])
    show "trace t = trace s @ (c1 @ c2 @ c3 @ c4 @ c5) @ c6 @ c7" using tr by simp
    show "subseq [WriteFile (path_join (vm_cgroup_dir orch (vm_id config)) ''cpuset.cpus'') cpus,
             WriteFile (path_join (vm_cgroup_dir orch (vm_id config)) ''cpuset.mems'') mems,
             WriteFile (path_join (vm_cgroup_dir orch (vm_id config)) ''memory.max'') (show_word (mem_max_bytes config))]
        ((c1 @ c2 @ c3 @ c4 @ c5) @ c6 @ c7)"
      using list_emb_append2 [OF list_emb_append_mono [OF tr(8,9)], of "c1 @ c2 @ c3 @ c4 @ c5"] dir by simp
  qed (use tr in simp_all)
qed

lemma emits_jailer: "emits [Spawn (jailer_path orch) (jailer_args orch config cpus mems)] (launch_jailer os orch config rootfs cpus mems)"
proof -
  have "emits [] (at_state (session_id config) (setup_jail os orch jail rootfs))" for jail
    by (simp add: emits_makes [OF makes_setup_jail])
  moreover have "emits [Spawn (jailer_path orch) (jailer_args orch config cpus mems)]
      (and_then (at_state (session_id config) (perform (Spawn (jailer_path orch) (jailer_args orch config cpus mems)) (child_pid os)))
        (\<lambda>child. and_then (set_ctx (\<lambda>c. c\<lparr>process := Some child\<rparr>)) (\<lambda>_. ret_ok jail)))" for jail
    by (intro emits_then_none emits_quiet) (simp add: emits_perform)
  ultimately show ?thesis
    unfolding launch_jailer_def Let_def
    by (intro emits_none_then [OF emits_quiet(1)] emits_none_then [OF emits_quiet(2)]) (rule emits_none_then)
qed

lemma emits_configure:
  "emits (concat (map (request_calls os (path_join jail ''run/firecracker.socket'')) (vmm_requests config)))
     (configure_vmm os lossy orch config jail)"
proof -
  let ?r = "request_calls os (path_join jail ''run/firecracker.socket'')"
  have r: "concat (map ?r (vmm_requests config)) =
      ?r (vmm_requests config ! 0) @ ?r (vmm_requests config ! 1) @ ?r (vmm_requests config ! 2)
      @ ?r (vmm_requests config ! 3) @ ?r (vmm_requests config ! 4) @ ?r (vmm_requests config ! 5)"
    by (simp add: vmm_requests_def)
  have "emits (concat (map ?r (vmm_requests config))) (boot_vmm os lossy orch config jail)"
    unfolding boot_vmm_def Let_def r put_machine_config_def put_boot_source_def put_drive_def put_network_interface_def instance_start_def
    by (rule emits_none_then [OF emits_makes [OF makes_wait]])
      (intro emits_then emits_none_then [OF emits_makes [OF makes_metadata]], simp_all add: vmm_requests_def emits_put)
  then show ?thesis
    unfolding configure_vmm_def Let_def
    by (intro emits_none_then [OF emits_quiet(1)] emits_then_none emits_quiet) simp
qed

lemma configure_encoded:
  "configure_vmm os lossy orch config jail s = (Inr u, t) \<Longrightarrow>
     list_all (\<lambda>(path, body). \<not> isl (to_vec os body)) (vmm_requests config)"
  by (auto simp: configure_vmm_def Let_def and_then_Inr dest!: boot_encoded)

lemma emits_storage: "emits [] (provision_storage os orch config)"
proof -
  have "emits [] (create_snapshot os sm base name)" for sm base name
    unfolding emits_def using create_snapshot_Inr(4) by fastforce
  then have "emits [] (at_state sid (create_snapshot os sm base name))" for sid sm base name by simp
  then show ?thesis
    unfolding provision_storage_def Let_def
    by (rule emits_none_then [OF emits_quiet(1) emits_none_then]) (auto intro: emits_none_then emits_quiet split: prod.splits)
qed

lemma emits_tap: "emits [] (provision_tap os config)"
  unfolding provision_tap_def Let_def
  by (rule emits_none_then [OF emits_quiet(1)]) (simp add: emits_makes [OF makes_net(1)])

lemma subseq_join: "subseq xs cs \<Longrightarrow> subseq ys ds \<Longrightarrow> subseq (xs @ ys) (cs @ ds)"
  by (rule list_emb_append_mono)

lemma on_error_Inr [simp]: "on_error m h s = (Inr x, t) \<longleftrightarrow> m s = (Inr x, t)"
  by (auto simp: on_error_def split: prod.splits sum.splits)

text \<open>What the phases from the cgroup on call, in order.\<close>

definition guarded_calls :: "'x api_os_scheme \<Rightarrow> Orchestrator \<Rightarrow> vmm_VmConfig \<Rightarrow> string \<Rightarrow> string \<Rightarrow> call list" where
  "guarded_calls os orch config cpus mems =
     [WriteFile (path_join (vm_cgroup_dir orch (vm_id config)) ''cpuset.cpus'') cpus,
      WriteFile (path_join (vm_cgroup_dir orch (vm_id config)) ''cpuset.mems'') mems,
      WriteFile (path_join (vm_cgroup_dir orch (vm_id config)) ''memory.max'') (show_word (mem_max_bytes config))]
     @ [Spawn (jailer_path orch) (jailer_args orch config cpus mems)]
     @ concat (map (request_calls os (path_join (jail_path orch (vm_id config)) ''run/firecracker.socket'')) (vmm_requests config))"

lemma run_phases_Inr:
  fixes s :: "'s prov_state_scheme"
  assumes "run_phases os lossy orch config rootfs tap ip s = (Inr vm, t)"
  obtains cs cpus mems and u v u' v' :: "'s prov_state_scheme" where "trace t = trace s @ cs" "vm_host_ip vm = ip"
    "subseq (guarded_calls os orch config cpus mems) cs"
    "list_all (\<lambda>(path, body). \<not> isl (to_vec os body)) (vmm_requests config)"
    "allocate_cpus os (cpuset_allocator orch) (vcpu_cores config) u = (Inr cpus, v)"
    "get_mems_string os (numa_topology orch) (numa_node config) u' = (Inr mems, v')"
    "prefix (trace s) (trace u)" "prefix (trace v) (trace u')" "prefix (trace v') (trace t)"
proof -
  obtain cpus mems a jail b x c where r:
    "provision_cgroup os orch config s = (Inr (cpus, mems), a)" "launch_jailer os orch config rootfs cpus mems a = (Inr jail, b)"
    "configure_vmm os lossy orch config jail b = (Inr x, c)" "finish_vm config rootfs tap ip jail c = (Inr vm, t)"
    using assms(1) by (auto simp: run_phases_def and_then_Inr)
  have jail: "jail = jail_path orch (vm_id config)" using r(2) by (auto simp: launch_jailer_def Let_def and_then_Inr)
  obtain xs and u v u' v' :: "'s prov_state_scheme" where cg: "trace a = trace s @ xs"
    "subseq [WriteFile (path_join (vm_cgroup_dir orch (vm_id config)) ''cpuset.cpus'') cpus,
             WriteFile (path_join (vm_cgroup_dir orch (vm_id config)) ''cpuset.mems'') mems,
             WriteFile (path_join (vm_cgroup_dir orch (vm_id config)) ''memory.max'') (show_word (mem_max_bytes config))] xs"
    "allocate_cpus os (cpuset_allocator orch) (vcpu_cores config) u = (Inr cpus, v)"
    "get_mems_string os (numa_topology orch) (numa_node config) u' = (Inr mems, v')"
    "prefix (trace s) (trace u)" "prefix (trace v) (trace u')" "prefix (trace v') (trace a)"
    by (rule provision_cgroup_Inr [OF r(1)])
  obtain y z where t: "trace b = trace a @ y" "trace c = trace b @ z"
    "subseq [Spawn (jailer_path orch) (jailer_args orch config cpus mems)] y"
    "subseq (concat (map (request_calls os (path_join (jail_path orch (vm_id config)) ''run/firecracker.socket'')) (vmm_requests config))) z"
    using emitsD [OF emits_jailer r(2)] emitsD [OF emits_configure r(3)] unfolding jail by blast
  have f: "trace t = trace c" "vm_host_ip vm = ip" using r(4) by (auto simp: finish_vm_def)
  have all: "trace t = trace s @ xs @ y @ z" using f(1) t cg(1) by simp
  have sub: "subseq (guarded_calls os orch config cpus mems) (xs @ y @ z)"
    unfolding guarded_calls_def by (rule subseq_join [OF cg(2) subseq_join [OF t(3,4)]])
  have "prefix (trace v') (trace t)" using cg(7) t f(1) by (simp add: prefix_def) (metis append.assoc)
  then show thesis by (rule that [OF all f(2) sub configure_encoded [OF r(3)] cg(3-6)])
qed

text \<open>
  C13. A guest never runs unprotected or half configured. In a launch that succeeds these calls
  were made, in this order: the NAT configuration is written with the address of the VM, the
  egress and then the ingress program is attached to its tap device; the cpuset, the memory nodes
  and the memory limit are written to its cgroup; the jailer is spawned with the same values; then
  machine configuration, boot source, root drive, metadata drive, network interface and the start of
  the instance are sent over the socket in the jail, each answered before the next. The cpuset
  and the memory nodes are what the allocator and the topology answered during this launch
  for the requested cores and node. The address is one that was free before.
\<close>

theorem launch_order:
  assumes "launch_vm os lossy orch config s = (Inr vm, s')" and "unat (base_ip (pool s)) + 64 \<le> 2 ^ 32"
  shows "\<exists>cs cpus mems. trace s' = trace s @ cs
    \<and> subseq ([BpfMapSet ''VM_CONFIG'' 0 (nat_config (vm_host_ip vm)),
               BpfAttach ''tc_egress'' (vm_tap_name config) ''Egress'', BpfAttach ''tc_ingress'' (vm_tap_name config) ''Ingress'',
               WriteFile (path_join (vm_cgroup_dir orch (vm_id config)) ''cpuset.cpus'') cpus,
               WriteFile (path_join (vm_cgroup_dir orch (vm_id config)) ''cpuset.mems'') mems,
               WriteFile (path_join (vm_cgroup_dir orch (vm_id config)) ''memory.max'') (show_word (mem_max_bytes config)),
               Spawn (jailer_path orch) (jailer_args orch config cpus mems)]
              @ concat (map (request_calls os (path_join (jail_path orch (vm_id config)) ''run/firecracker.socket''))
                  (vmm_requests config))) cs
    \<and> list_all (\<lambda>(path, body). \<not> isl (to_vec os body)) (vmm_requests config)
    \<and> (\<exists>(u :: prov_state) v (u' :: prov_state) v'.
          allocate_cpus os (cpuset_allocator orch) (vcpu_cores config) u = (Inr cpus, v)
          \<and> get_mems_string os (numa_topology orch) (numa_node config) u' = (Inr mems, v')
          \<and> prefix (trace s) (trace u) \<and> prefix (trace v) (trace u') \<and> prefix (trace v') (trace s'))
    \<and> vm_host_ip vm \<notin> in_use (pool s) \<and> in_use (pool s') = insert (vm_host_ip vm) (in_use (pool s))"
proof -
  let ?s = "start_provisioning config s"
  obtain t where p: "provision_vm os lossy orch config ?s = (Inr vm, t)" and s': "s' = host_state.truncate t"
    using assms(1) by (auto simp: launch_vm_def split: prod.splits sum.splits)
  then obtain rootfs a tap b ip c w d where r:
    "provision_storage os orch config ?s = (Inr rootfs, a)" "provision_tap os config a = (Inr tap, b)"
    "provision_address config b = (Inr ip, c)" "load_nat_program os (vm_tap_name config) ip c = (Inr w, d)"
    "run_phases os lossy orch config rootfs tap ip d = (Inr vm, t)"
    by (auto simp: provision_vm_def and_then_Inr)
  obtain x y z where tr: "trace a = trace ?s @ x" "trace b = trace a @ y" "trace d = trace c @ z"
    "subseq [BpfMapSet ''VM_CONFIG'' 0 (nat_config ip), BpfAttach ''tc_egress'' (vm_tap_name config) ''Egress'',
             BpfAttach ''tc_ingress'' (vm_tap_name config) ''Ingress''] z"
    using emitsD [OF emits_storage r(1)] emitsD [OF emits_tap r(2)] emitsD [OF emits_load r(4)] by blast
  obtain cs cpus mems and u v u' v' :: prov_state where ph: "trace t = trace d @ cs" "vm_host_ip vm = ip"
    "subseq (guarded_calls os orch config cpus mems) cs"
    "list_all (\<lambda>(path, body). \<not> isl (to_vec os body)) (vmm_requests config)"
    "allocate_cpus os (cpuset_allocator orch) (vcpu_cores config) u = (Inr cpus, v)"
    "get_mems_string os (numa_topology orch) (numa_node config) u' = (Inr mems, v')"
    "prefix (trace d) (trace u)" "prefix (trace v) (trace u')" "prefix (trace v') (trace t)"
    by (rule run_phases_Inr [OF r(5)])
  have d: "trace d = trace s @ x @ y @ z" using tr provision_address_Inr(3) [OF r(3)] by simp
  then have calls: "trace s' = trace s @ (x @ y) @ z @ cs" "prefix (trace s) (trace u)" "prefix (trace v') (trace s')"
    using ph(1,7,9) s' by (auto simp: prefix_def)
  note sub = list_emb_append2 [OF subseq_join [OF tr(4) ph(3)], of "x @ y"]
  have "pool b = pool s"
    using keepsD [OF keeps_tap r(2), of os "pool_name (storage_manager orch)"] provision_storage_Inr [OF r(1)] by (simp add: held_def)
  moreover have "pool t = pool c"
    using keepsD [OF keeps_held_net [OF makes_net(3)] r(4), of os "[]"] keepsD [OF keeps_run_phases r(5), of os "[]"]
    by (simp add: held_def)
  ultimately have "allocate (pool s) = (Inr ip, pool t)" using provision_address_Inr(1) [OF r(3)] by simp
  moreover have "ipam_wf (pool s)" using assms(2) by (simp add: ipam_wf_def)
  ultimately have grant: "ip \<notin> in_use (pool s)" "in_use (pool t) = insert ip (in_use (pool s))"
    using ipam.alloc_fresh by blast+
  have "vm_host_ip vm \<notin> in_use (pool s)" "in_use (pool s') = insert (vm_host_ip vm) (in_use (pool s))"
    using grant ph(2) s' by simp_all
  then show ?thesis
    using calls ph(4-6,8) sub unfolding guarded_calls_def ph(2) append.simps by blast
qed

section \<open>A launch that succeeds\<close>

text \<open>\<open>fine m\<close>: \<open>m\<close> never fails. The host on which no call fails makes every phase succeed.\<close>

definition fine :: "('s, 'e, 'a) op \<Rightarrow> bool" where
  "fine m \<longleftrightarrow> (\<forall>s. \<exists>x t. m s = (Inr x, t))"

named_theorems fine_intros \<open>operations that succeed\<close>

lemma fine_then [fine_intros]: "fine m \<Longrightarrow> (\<And>x. fine (k x)) \<Longrightarrow> fine (and_then m k)"
  unfolding fine_def and_then_Inr by meson

lemma fine_basic [fine_intros]:
  "fine (ret_ok x)" "fine (set_ctx g)" "fine (finish_vm config rootfs tap ip jail)" "fine (fetch_add n)" "fine (ignore m)"
  by (simp_all add: fine_def ret_ok_def set_ctx_def finish_vm_def fetch_add_def ignore_def)

lemma fine_split [fine_intros]: "(\<And>a b. fine (k a b)) \<Longrightarrow> fine (case p of (a, b) \<Rightarrow> k a b)"
  by (cases p) simp

lemma fine_if [fine_intros]: "fine m \<Longrightarrow> fine n \<Longrightarrow> fine (if b then m else n)"
  by simp

lemma fine_wrap [fine_intros]:
  "fine m \<Longrightarrow> fine (at_state sid m)" "fine n \<Longrightarrow> fine (map_err f n)" "fine p \<Longrightarrow> fine (with_drop p d)" "fine q \<Longrightarrow> fine (on_error q h)"
  by (simp_all add: fine_def) (metis with_drop_cases)

abbreviation good_os :: api_os where
  "good_os \<equiv> sample_api_os (\<lambda>_. False) no_files"

lemma fine_calls [fine_intros]:
  "fine (sys_call good_os c)" "fine (exists_path good_os p)"
  "fine (perform c (rdev good_os p))" "fine (perform c (child_pid good_os))" "fine (perform c (if_flags good_os n))"
  by (auto simp: fine_def sys_call_def exists_path_def perform_def)

lemma fine_run [fine_intros]: "fine (run_checked good_os prog args f)"
  by (auto simp: fine_def run_checked_Inr)

lemma fine_spawn [fine_intros]: "fine f \<Longrightarrow> fine (spawn_blocking good_os name f)"
  unfolding spawn_blocking_def by (intro fine_intros)

lemma fine_link [fine_intros]: "fine m \<Longrightarrow> fine (\<lambda>s. case m s of (Inr _, s') \<Rightarrow> (Inr (), s') | (Inl _, s') \<Rightarrow> n s')"
  unfolding fine_def by (metis (mono_tags, lifting) old.prod.case sum.case(2))

lemma fine_mems [fine_intros]: "fine (get_mems_string good_os root n)"
  by (simp add: fine_def get_mems_string_def Let_def monad_simps exists_path_def perform_def)

lemma fine_put [fine_intros]: "fine (api_put good_os sock path body)"
proof -
  obtain r where r: "no_content = as_bytes r" "ascii r" "status_code r = Some 204"
  proof
    show "no_content = as_bytes (''HTTP/1.1 '' @ show_word (204 :: u16) @ '' '' @ ''No Content'' @ crlf @ [])"
      by (simp add: no_content_def show_204 crlf_def)
    show "ascii (''HTTP/1.1 '' @ show_word (204 :: u16) @ '' '' @ ''No Content'' @ crlf @ [])"
      by (simp add: show_204 crlf_def ascii_def)
    show "status_code (''HTTP/1.1 '' @ show_word (204 :: u16) @ '' '' @ ''No Content'' @ crlf @ []) = Some 204"
      by (rule status_code_line) simp
  qed
  have "take 512 no_content = no_content" by (simp add: no_content_def as_bytes_def)
  moreover have "from_utf8 no_content = Some r" unfolding r(1) by (rule from_utf8_ascii [OF r(2)])
  ultimately have "check_response (take 512 no_content) = Inr ()"
    using r(3) by (simp add: check_response_def word_le_nat_alt word_less_nat_alt)
  then show ?thesis
    by (simp add: fine_def api_put_def send_request_def monad_simps perform_def)
qed

lemma fine_wait [fine_intros]: "fine (wait_for_socket good_os sock)"
proof -
  have l: "POLL_LIMIT = Suc 500" by (simp add: POLL_LIMIT_def)
  show ?thesis unfolding fine_def wait_for_socket_def l poll_socket.simps(2) exists_path_def perform_def by simp
qed

lemma suffix_single: "suffix [c] s \<longleftrightarrow> s \<noteq> [] \<and> last s = c"
  by (cases s rule: rev_cases) (auto simp: suffix_def)

lemma sample_jail: "jail_path sample_orchestrator ''vm-test-001'' = ''/srv/jailer/firecracker/vm-test-001/root''"
  by (simp add: jail_path_def sample_orchestrator_def path_join_def starts_with_def ends_with_def suffix_single)

lemma to_str_ascii: "ascii p \<Longrightarrow> to_str p = Some p"
  by (metis ascii_def from_utf8_ascii from_utf8_def option.distinct(1) to_str_def)

lemma fine_jail:
  "fine (setup_jail good_os orch ''/srv/jailer/firecracker/vm-test-001/root'' rootfs)"
  "fine (metadata_drive good_os lossy orch ''/srv/jailer/firecracker/vm-test-001/root'')"
proof -
  have p: "path_join ''/srv/jailer/firecracker/vm-test-001/root'' ''dev/rootfs'' = ''/srv/jailer/firecracker/vm-test-001/root/dev/rootfs''"
    "path_join ''/srv/jailer/firecracker/vm-test-001/root'' ''metadata.ext4'' = ''/srv/jailer/firecracker/vm-test-001/root/metadata.ext4''"
    by (simp_all add: path_join_def starts_with_def ends_with_def suffix_single)
  have a: "ascii ''/srv/jailer/firecracker/vm-test-001/root/dev/rootfs''" "ascii ''/srv/jailer/firecracker/vm-test-001/root/metadata.ext4''"
    by (simp_all add: ascii_def)
  have c: "CString_new ''/srv/jailer/firecracker/vm-test-001/root/dev/rootfs'' = Inr ''/srv/jailer/firecracker/vm-test-001/root/dev/rootfs''"
    "CString_new ''/srv/jailer/firecracker/vm-test-001/root/metadata.ext4'' = Inr ''/srv/jailer/firecracker/vm-test-001/root/metadata.ext4''"
    by (simp_all add: CString_new_def find_char_def Let_def)
  have l: "fine (lift_res (Inr x))" for x by (simp add: fine_def lift_res_def)
  show "fine (setup_jail good_os orch ''/srv/jailer/firecracker/vm-test-001/root'' rootfs)"
    unfolding setup_jail_def p to_str_ascii [OF a(1)] option.case c by (intro fine_intros l)
  show "fine (metadata_drive good_os lossy orch ''/srv/jailer/firecracker/vm-test-001/root'')"
    unfolding metadata_drive_def Let_def p to_str_ascii [OF a(2)] option.case c create_MetadataDrive_def
    by (intro fine_intros l)
qed

text \<open>\<open>works a m\<close>: started in state \<open>a\<close>, \<open>m\<close> succeeds.\<close>

definition works :: "VmState \<Rightarrow> ('s prov_state_scheme, OrchestratorError, 'a) op \<Rightarrow> bool" where
  "works a m \<longleftrightarrow> (\<forall>s. current_state (machine s) = a \<longrightarrow> (\<exists>x t. m s = (Inr x, t)))"

lemma worksD:
  assumes "works a m" and "current_state (machine s) = a"
  obtains x t where "m s = (Inr x, t)"
  using assms by (auto simp: works_def)

lemma works_fine: "fine m \<Longrightarrow> works a m"
  by (simp add: works_def fine_def)

lemma works_then: "works a m \<Longrightarrow> moves sid a S b m \<Longrightarrow> (\<And>x. works b (k x)) \<Longrightarrow> works a (and_then m k)"
  unfolding works_def and_then_Inr using moves_Inr by (metis (no_types, lifting))

lemma works_enter:
  assumes "is_valid_transition \<lparr>sm_state = a, sm_session_id = 0\<rparr> b"
  shows "works a (enter sid b)"
  using assms
  by (auto simp: works_def enter_def at_state_def transition_to_def current_state_def is_valid_transition_def
      split: prod.splits VmState.splits)

lemma works_phase:
  assumes "is_valid_transition \<lparr>sm_state = a, sm_session_id = 0\<rparr> b" and "\<And>x. fine (k x)"
  shows "works a (and_then (enter sid b) k)"
  using works_then [OF works_enter moves_enter works_fine] assms by blast

lemma sample_phases:
  "works Pending (provision_storage good_os sample_orchestrator sample_vm)"
  "works ProvisioningStorage (provision_tap good_os sample_vm)"
  "works ConfiguringNetwork (provision_cgroup good_os sample_orchestrator sample_vm)"
  "works InitializingCgroup (launch_jailer good_os sample_orchestrator sample_vm rootfs cpus mems)"
  "works LaunchingVMM (configure_vmm good_os lossy sample_orchestrator sample_vm ''/srv/jailer/firecracker/vm-test-001/root'')"
  "fine (load_nat_program good_os name ip)"
proof -
  show "works Pending (provision_storage good_os sample_orchestrator sample_vm)"
    unfolding provision_storage_def Let_def
    by (rule works_phase, simp add: is_valid_transition_def)
      (unfold create_snapshot_def snapshot_steps_def, intro fine_intros)
  show "works ProvisioningStorage (provision_tap good_os sample_vm)"
    unfolding provision_tap_def Let_def
    by (rule works_phase, simp add: is_valid_transition_def)
      (unfold create_TapDevice_def set_interface_up_def, intro fine_intros)
  have cpus: "fine (allocate_cpus good_os (cpuset_allocator sample_orchestrator) r)" for r
    by (simp add: sample_orchestrator_def naive_allocate_cpus_def fine_basic)
  show "works ConfiguringNetwork (provision_cgroup good_os sample_orchestrator sample_vm)"
    unfolding provision_cgroup_def Let_def
    by (rule works_phase, simp add: is_valid_transition_def)
      (unfold create_vm_cgroup_def Let_def set_cpuset_def set_memory_limit_def, intro fine_intros cpus)
  have j: "jail_path sample_orchestrator (vm_id sample_vm) = ''/srv/jailer/firecracker/vm-test-001/root''"
    using sample_jail by (simp add: sample_vm_def)
  show "works InitializingCgroup (launch_jailer good_os sample_orchestrator sample_vm rootfs cpus mems)"
    unfolding launch_jailer_def Let_def j
    by (rule works_phase, simp add: is_valid_transition_def) (intro fine_intros fine_jail)
  have b: "fine (boot_vmm good_os lossy sample_orchestrator sample_vm ''/srv/jailer/firecracker/vm-test-001/root'')"
    unfolding boot_vmm_def Let_def put_machine_config_def put_boot_source_def put_drive_def put_network_interface_def instance_start_def
    by (intro fine_intros fine_jail)
  show "works LaunchingVMM (configure_vmm good_os lossy sample_orchestrator sample_vm ''/srv/jailer/firecracker/vm-test-001/root'')"
    unfolding configure_vmm_def Let_def
    by (rule works_then [OF works_enter moves_enter works_then [OF works_fine moves_keep [where S = "{ConfiguringVMM}"] works_enter]])
      (simp_all add: is_valid_transition_def b fine_wrap keeps_machine [OF makes_boot])
  show "fine (load_nat_program good_os name ip)"
    unfolding load_nat_program_def attach_program_def ok_or_def prefix_err_def by (intro fine_intros)
qed

lemma sample_launch:
  "\<exists>vm s'. launch_vm good_os lossy sample_orchestrator sample_vm sample_host = (Inr vm, s')"
proof -
  let ?s = "start_provisioning sample_vm sample_host"
  obtain rootfs a where a: "provision_storage good_os sample_orchestrator sample_vm ?s = (Inr rootfs, a)"
    using worksD [OF sample_phases(1) start_pending] by blast
  note sa = moves_Inr [OF moves_storage start_pending a]
  obtain tap b where b: "provision_tap good_os sample_vm a = (Inr tap, b)" using worksD [OF sample_phases(2) sa] by blast
  note sb = moves_Inr [OF moves_tap sa b]
  have "pool b = new_IpAm 0x0A000001"
    using keepsD [OF keeps_tap b, of good_os "pool_name (storage_manager sample_orchestrator)"] provision_storage_Inr [OF a]
    by (simp add: held_def sample_host_def)
  then obtain ip c where c: "provision_address sample_vm b = (Inr ip, c)"
    by (auto simp: provision_address_def and_then_Inr set_ctx_def pool_allocate_def allocate_fresh)
  note sc = moves_Inr [OF moves_address sb c]
  obtain u d where d: "load_nat_program good_os (vm_tap_name sample_vm) ip c = (Inr u, d)"
    using sample_phases(6) [of "vm_tap_name sample_vm" ip, unfolded fine_def, THEN spec, of c] by blast
  have sd: "current_state (machine d) = ConfiguringNetwork"
    using keepsD [OF keeps_machine [OF makes_net(3)] d] sc by simp
  obtain cm e where e: "provision_cgroup good_os sample_orchestrator sample_vm d = (Inr cm, e)" using worksD [OF sample_phases(3) sd] by blast
  note se = moves_Inr [OF moves_cgroup sd e]
  obtain jail f where f: "launch_jailer good_os sample_orchestrator sample_vm rootfs (fst cm) (snd cm) e = (Inr jail, f)"
    using worksD [OF sample_phases(4) se] by blast
  then have "jail = ''/srv/jailer/firecracker/vm-test-001/root''"
    using sample_jail by (auto simp: launch_jailer_def Let_def and_then_Inr sample_vm_def)
  moreover note sf = moves_Inr [OF moves_jailer se f]
  ultimately obtain v g where g: "configure_vmm good_os lossy sample_orchestrator sample_vm jail f = (Inr v, g)"
    using worksD [OF sample_phases(5) sf] by blast
  obtain vm h where "finish_vm sample_vm rootfs tap ip jail g = (Inr vm, h)" by (simp add: finish_vm_def)
  with e f g have "run_phases good_os lossy sample_orchestrator sample_vm rootfs tap ip d = (Inr vm, h)"
    by (cases cm) (auto simp: run_phases_def and_then_Inr)
  with a b c d have "provision_vm good_os lossy sample_orchestrator sample_vm ?s = (Inr vm, h)"
    by (auto simp: provision_vm_def and_then_Inr)
  then show ?thesis by (simp add: launch_vm_def)
qed

theorem launch_order_witness:
  "\<exists>vm s' cpus mems. launch_vm good_os of_bytes sample_orchestrator sample_vm sample_host = (Inr vm, s')
     \<and> subseq [BpfAttach ''tc_egress'' ''tap-vm-test-001'' ''Egress'',
               Spawn ''/bin/jailer'' (jailer_args sample_orchestrator sample_vm cpus mems), Send (as_bytes ''{}'')] (trace s')"
proof -
  obtain vm s' where l: "launch_vm good_os of_bytes sample_orchestrator sample_vm sample_host = (Inr vm, s')"
    using sample_launch by blast
  have "unat (base_ip (pool sample_host)) + 64 \<le> 2 ^ 32" by (simp add: sample_host_def new_IpAm_def)
  from launch_order [OF l this] obtain cs cpus mems where cs: "trace s' = trace sample_host @ cs"
    "subseq ([BpfMapSet ''VM_CONFIG'' 0 (nat_config (vm_host_ip vm)),
              BpfAttach ''tc_egress'' (vm_tap_name sample_vm) ''Egress'', BpfAttach ''tc_ingress'' (vm_tap_name sample_vm) ''Ingress'',
              WriteFile (path_join (vm_cgroup_dir sample_orchestrator (vm_id sample_vm)) ''cpuset.cpus'') cpus,
              WriteFile (path_join (vm_cgroup_dir sample_orchestrator (vm_id sample_vm)) ''cpuset.mems'') mems,
              WriteFile (path_join (vm_cgroup_dir sample_orchestrator (vm_id sample_vm)) ''memory.max'') (show_word (mem_max_bytes sample_vm)),
              Spawn (jailer_path sample_orchestrator) (jailer_args sample_orchestrator sample_vm cpus mems)]
              @ concat (map (request_calls good_os (path_join (jail_path sample_orchestrator (vm_id sample_vm)) ''run/firecracker.socket''))
                  (vmm_requests sample_vm))) cs"
    by blast
  let ?r = "concat (map (request_calls good_os (path_join (jail_path sample_orchestrator (vm_id sample_vm)) ''run/firecracker.socket''))
                  (vmm_requests sample_vm))"
  have n: "vm_tap_name sample_vm = ''tap-vm-test-001''" "jailer_path sample_orchestrator = ''/bin/jailer''" "trace sample_host = []"
    by (simp_all add: vm_tap_name_def sample_vm_def sample_orchestrator_def sample_host_def)
  have "Send (as_bytes ''{}'') \<in> set ?r" by (simp add: vmm_requests_def request_calls_def)
  then have f: "subseq [Send (as_bytes ''{}'')] ?r" by (simp only: subseq_singleton_left)
  have "subseq ([b, g] @ [Send (as_bytes ''{}'')]) ([a, b, c, d, d', e, g] @ ?r)" for a b c d d' e g
    by (rule subseq_join [OF _ f]) simp
  then have j: "subseq [b, g, Send (as_bytes ''{}'')] ([a, b, c, d, d', e, g] @ ?r)" for a b c d d' e g
    by (simp only: append.simps)
  have "subseq [BpfAttach ''tc_egress'' ''tap-vm-test-001'' ''Egress'',
      Spawn ''/bin/jailer'' (jailer_args sample_orchestrator sample_vm cpus mems), Send (as_bytes ''{}'')] cs"
    using subseq_order.trans [OF j cs(2)] unfolding n .
  with l cs(1) show ?thesis by (auto simp: n)
qed

section \<open>Limits and paths\<close>

text \<open>
  The memory limit in bytes never overflows: it is the configured number of mebibytes
  times 1048576, for every 32-bit configuration.
\<close>

theorem memory_limit_exact: "unat (mem_max_bytes config) = unat (mem_size_mib config) * 1048576"
proof -
  have "unat (mem_size_mib config) < 2 ^ 32" using unat_bound [of "mem_size_mib config"] by simp
  then have "unat (mem_size_mib config) * 1048576 < 2 ^ 64" by simp
  moreover have "unat (ucast (mem_size_mib config) :: u64) = unat (mem_size_mib config)"
    using unat_bound [of "mem_size_mib config"] by (simp add: unsigned_ucast_eq take_bit_nat_eq_self)
  ultimately show ?thesis
    by (simp add: mem_max_bytes_def unat_mult_lem [THEN iffD1] unat_word_ariths)
qed

text \<open>
  The jail of a VM lies below the configured base directory when the id does not start
  with a slash. An id that does start with a slash replaces the base directory, so that the
  directory tree that is removed and recreated for the VM lies outside it.
\<close>

theorem jail_directory:
  assumes "chroot_base_dir orch \<noteq> []" and "\<not> ends_with (chroot_base_dir orch) ''/''" and "i \<noteq> []" and "\<not> ends_with i ''/''"
  shows "jail_path orch i =
    (if starts_with i ''/'' then i @ ''/root'' else chroot_base_dir orch @ ''/firecracker/'' @ i @ ''/root'')"
proof -
  have b: "path_join (chroot_base_dir orch) ''firecracker'' = chroot_base_dir orch @ ''/firecracker''"
    using assms(1,2) by (simp add: path_join_def starts_with_def)
  show ?thesis
  proof (cases "starts_with i ''/''")
    case True
    with assms(3,4) show ?thesis by (simp add: jail_path_def path_join_def starts_with_def)
  next
    case False
    then have m: "path_join (chroot_base_dir orch @ ''/firecracker'') i = chroot_base_dir orch @ ''/firecracker/'' @ i"
      by (simp add: path_join_def ends_with_def suffix_single)
    have "\<not> ends_with (chroot_base_dir orch @ ''/firecracker/'' @ i) ''/''"
      using assms(3,4) by (simp add: ends_with_def suffix_single)
    then have "path_join (chroot_base_dir orch @ ''/firecracker/'' @ i) ''root'' = (chroot_base_dir orch @ ''/firecracker/'' @ i) @ ''/root''"
      by (simp add: path_join_def starts_with_def)
    with False show ?thesis unfolding jail_path_def b m by simp
  qed
qed

theorem jail_directory_witness:
  "jail_path sample_orchestrator ''/etc'' = ''/etc/root''
   \<and> jail_path sample_orchestrator ''vm1'' = ''/srv/jailer/firecracker/vm1/root''"
  using jail_directory [of sample_orchestrator "''/etc''"] jail_directory [of sample_orchestrator "''vm1''"]
  by (simp add: sample_orchestrator_def ends_with_def starts_with_def suffix_single)

end
