(* ===== verification/Build_Graph.thy ===== *)
theory Build_Graph
  imports Prelude "HOL-Library.Finite_Map" "HOL-Library.AList" "HOL-Library.Multiset"
begin

text \<open>
  The Dockerfile parser of the build system, \<^verbatim>\<open>build-system/src/parser.rs\<close>, with the graph types
  of \<^verbatim>\<open>build-system/src/types.rs\<close>. The parser works line by line on a state that holds the
  finished stages, the stage being read and the release metadata; a bare \<open>FROM\<close> after the first
  stage makes the source index past the end of a vector, which is a panic here.

  The theorem on accepted files says what later parts rely on: parents come before their
  children, every released layer has a stage, and the layer orders are contiguous from zero.
\<close>

section \<open>Types\<close>

record ParsedStage =
  stage_name :: string
  parent_name :: "string option"
  layer_name :: string
  stage_order :: u32
  instructions :: "string list"

record ReleaseMetadata =
  layer_order :: "string list"
  workload_meta :: "(string, string) fmap"

record BuildGraph =
  stages :: "ParsedStage list"
  release_meta :: ReleaseMetadata

text \<open>An \<open>anyhow::Error\<close> is its text; \<open>BuildWaits\<close> is a build that waits for ever for an answer.\<close>

datatype build_error = BuildError string | BuildPanic | BuildWaits

section \<open>The parser\<close>

definition parse_label :: "string \<Rightarrow> (string \<times> string) option" where
  "parse_label full =
     (let line = trim (trim_start_matches full ''LABEL'')
      in case find_char CHR ''='' line of
           None \<Rightarrow> None
         | Some idx \<Rightarrow>
             Some (trim (take idx line), trim_matches CHR 0x22 (trim (drop (idx + 1) line))))"

definition is_instruction :: "string \<Rightarrow> string \<Rightarrow> bool" where
  "is_instruction kw line \<longleftrightarrow> starts_with (to_uppercase line) kw"

definition from_name :: "string list \<Rightarrow> ParsedStage list \<Rightarrow> string" where
  "from_name parts done =
     (if 4 \<le> length parts \<and> to_uppercase (parts ! 2) = ''AS'' then parts ! 3
      else ''stage_'' @ dec (length done))"

definition from_parent :: "string list \<Rightarrow> ParsedStage list \<Rightarrow> build_error + string option" where
  "from_parent parts done =
     (if done = [] then Inr None
      else if length parts < 2 then Inl BuildPanic
      else if to_lowercase (parts ! 1) = ''scratch'' then Inr None
      else Inr (map_option stage_name (find (\<lambda>s. stage_name s = parts ! 1) done)))"

record parser_state =
  finished :: "ParsedStage list"
  current_stage :: "ParsedStage option"
  steel_release_stage :: "ReleaseMetadata option"

text \<open>The stages so far, with the one being read.\<close>

definition all_stages :: "parser_state \<Rightarrow> ParsedStage list" where
  "all_stages s = finished s @ (case current_stage s of None \<Rightarrow> [] | Some st \<Rightarrow> [st])"

definition parse_from :: "string \<Rightarrow> parser_state \<Rightarrow> build_error + parser_state" where
  "parse_from line s =
     (let done = all_stages s; parts = split_whitespace line
      in case from_parent parts done of
           Inl e \<Rightarrow> Inl e
         | Inr parent \<Rightarrow>
             Inr (s\<lparr>finished := done,
                    current_stage := Some \<lparr>stage_name = from_name parts done, parent_name = parent,
                      layer_name = [], stage_order = 0, instructions = [line]\<rparr>\<rparr>))"

definition label_stage :: "string \<Rightarrow> ParsedStage \<Rightarrow> build_error + ParsedStage" where
  "label_stage line st0 =
     (let st = st0\<lparr>instructions := instructions st0 @ [line]\<rparr>
      in case parse_label line of
           None \<Rightarrow> Inr st
         | Some (key, v) \<Rightarrow>
             if key = ''steel.layer'' then Inr (st\<lparr>layer_name := v\<rparr>)
             else if key = ''steel.layer.order'' then
               (case parse_u32_res v of Inl e \<Rightarrow> Inl (BuildError e) | Inr n \<Rightarrow> Inr (st\<lparr>stage_order := n\<rparr>))
             else Inr st)"

definition label_release :: "string \<Rightarrow> ReleaseMetadata option \<Rightarrow> ReleaseMetadata option" where
  "label_release line rel =
     (case parse_label line of
        None \<Rightarrow> rel
      | Some (key, v) \<Rightarrow>
          if starts_with key ''steel.release'' \<or> starts_with key ''steel.meta'' then
            let meta = (case rel of None \<Rightarrow> \<lparr>layer_order = [], workload_meta = fmempty\<rparr> | Some m \<Rightarrow> m)
            in if key = ''steel.release.layers'' then Some (meta\<lparr>layer_order := map trim (split_char CHR '','' v)\<rparr>)
               else if starts_with key ''steel.meta.'' then
                 Some (meta\<lparr>workload_meta := fmupd (trim_start_matches key ''steel.meta.'') v (workload_meta meta)\<rparr>)
               else Some meta
          else rel)"

definition parse_label_line :: "string \<Rightarrow> parser_state \<Rightarrow> build_error + parser_state" where
  "parse_label_line line s =
     (case (case current_stage s of
              None \<Rightarrow> Inr None
            | Some st \<Rightarrow> (case label_stage line st of Inl e \<Rightarrow> Inl e | Inr st' \<Rightarrow> Inr (Some st'))) of
        Inl e \<Rightarrow> Inl e
      | Inr cur \<Rightarrow>
          Inr (s\<lparr>current_stage := cur, steel_release_stage := label_release line (steel_release_stage s)\<rparr>))"

definition parse_line :: "string \<Rightarrow> parser_state \<Rightarrow> build_error + parser_state" where
  "parse_line raw s =
     (let line = trim raw
      in if line = [] \<or> starts_with line ''#'' then Inr s
         else if is_instruction ''FROM'' line then parse_from line s
         else if is_instruction ''LABEL'' line then parse_label_line line s
         else Inr (s\<lparr>current_stage :=
                map_option (\<lambda>st. st\<lparr>instructions := instructions st @ [line]\<rparr>) (current_stage s)\<rparr>))"

fun parse_lines :: "string list \<Rightarrow> parser_state \<Rightarrow> build_error + parser_state" where
  "parse_lines [] s = Inr s"
| "parse_lines (l # ls) s = (case parse_line l s of Inl e \<Rightarrow> Inl e | Inr s' \<Rightarrow> parse_lines ls s')"

text \<open>The layers by name; a later stage replaces an earlier one with the same layer name.\<close>

definition layer_stages :: "ParsedStage list \<Rightarrow> (string \<times> ParsedStage) list" where
  "layer_stages sts = fold (\<lambda>s. AList.update (layer_name s) s) (filter (\<lambda>s. layer_name s \<noteq> []) sts) []"

fun check_orders :: "nat \<Rightarrow> u32 list \<Rightarrow> build_error + unit" where
  "check_orders i [] = Inr ()"
| "check_orders i (n # ns) =
     (if n \<noteq> of_nat i
      then Inl (BuildError (''Layer orders must be contiguous starting from 0, found gap or wrong start at '' @ show_word n))
      else check_orders (Suc i) ns)"

definition validate_graph :: "ParsedStage list \<Rightarrow> ReleaseMetadata \<Rightarrow> build_error + unit" where
  "validate_graph sts meta =
     (case find (\<lambda>n. map_of (layer_stages sts) n = None) (layer_order meta) of
        Some n \<Rightarrow> Inl (BuildError (''Layer '' @ n @ '' referenced in release but not defined in any stage''))
      | None \<Rightarrow> check_orders 0 (sort (map (stage_order \<circ> snd) (layer_stages sts))))"

definition parse_text :: "string \<Rightarrow> build_error + BuildGraph" where
  "parse_text content =
     (case parse_lines (lines content) \<lparr>finished = [], current_stage = None, steel_release_stage = None\<rparr> of
        Inl e \<Rightarrow> Inl e
      | Inr s \<Rightarrow>
          (case steel_release_stage s of
             None \<Rightarrow> Inl (BuildError (''Missing steel.release='' @ [CHR 0x22] @ ''true'' @ [CHR 0x22] @ '' label''))
           | Some meta \<Rightarrow>
               (case validate_graph (all_stages s) meta of
                  Inl e \<Rightarrow> Inl e
                | Inr u \<Rightarrow> Inr \<lparr>stages = all_stages s, release_meta = meta\<rparr>)))"

section \<open>Accepted graphs\<close>

text \<open>Every parent is an earlier stage; every stage starts with the line that opened it.\<close>

definition well_parented :: "ParsedStage list \<Rightarrow> bool" where
  "well_parented sts \<longleftrightarrow>
     (\<forall>i < length sts. instructions (sts ! i) \<noteq> [] \<and>
        (\<forall>p. parent_name (sts ! i) = Some p \<longrightarrow> (\<exists>j < i. stage_name (sts ! j) = p)))"

lemma well_parented_Nil [simp]: "well_parented []"
  by (simp add: well_parented_def)

lemma well_parented_snoc:
  "well_parented (sts @ [st]) \<longleftrightarrow>
     well_parented sts \<and> instructions st \<noteq> [] \<and>
     (\<forall>p. parent_name st = Some p \<longrightarrow> (\<exists>j < length sts. stage_name (sts ! j) = p))"
  by (fastforce simp: well_parented_def nth_append less_Suc_eq)

text \<open>Reading a label or an instruction keeps the name and the parent of the current stage.\<close>

lemma label_stage_keeps:
  "label_stage line st = Inr st' \<Longrightarrow>
     stage_name st' = stage_name st \<and> parent_name st' = parent_name st \<and> instructions st' = instructions st @ [line]"
  by (auto simp: label_stage_def Let_def split: option.splits prod.splits if_splits sum.splits)

lemma well_parented_current:
  assumes "well_parented (all_stages s)" and "current_stage s = Some st"
    and "parent_name st' = parent_name st" and "instructions st' \<noteq> []"
  shows "well_parented (finished s @ [st'])"
  using assms by (simp add: all_stages_def well_parented_snoc)

lemma from_parent_found:
  "from_parent parts sts = Inr (Some p) \<Longrightarrow> \<exists>j < length sts. stage_name (sts ! j) = p"
  by (auto simp: from_parent_def find_Some_iff split: if_splits)

lemma parse_line_cases:
  assumes "parse_line raw s = Inr s'"
  shows "s' = s \<or> parse_from (trim raw) s = Inr s' \<or> parse_label_line (trim raw) s = Inr s' \<or>
    s' = s\<lparr>current_stage := map_option (\<lambda>st. st\<lparr>instructions := instructions st @ [trim raw]\<rparr>) (current_stage s)\<rparr>"
proof (cases "trim raw = [] \<or> starts_with (trim raw) ''#''")
  case True
  with assms show ?thesis by (simp add: parse_line_def Let_def)
next
  case False
  with assms show ?thesis
    by (cases "is_instruction ''FROM'' (trim raw)"; cases "is_instruction ''LABEL'' (trim raw)")
      (simp_all add: parse_line_def Let_def)
qed

lemma parse_line_keeps:
  assumes "parse_line raw s = Inr s'" and "well_parented (all_stages s)"
  shows "well_parented (all_stages s')"
proof -
  let ?line = "trim raw"
  from parse_line_cases [OF assms(1)] consider "s' = s" | "parse_from ?line s = Inr s'" | "parse_label_line ?line s = Inr s'"
    | "s' = s\<lparr>current_stage := map_option (\<lambda>st. st\<lparr>instructions := instructions st @ [?line]\<rparr>) (current_stage s)\<rparr>"
    by blast
  then show ?thesis
  proof cases
    case 1
    then show ?thesis using assms(2) by simp
  next
    case 2
    then obtain parent st where p: "from_parent (split_whitespace ?line) (all_stages s) = Inr parent"
      and s': "s' = s\<lparr>finished := all_stages s, current_stage := Some st\<rparr>" "parent_name st = parent" "instructions st = [?line]"
      by (auto simp: parse_from_def Let_def split: sum.splits)
    then have "all_stages s' = all_stages s @ [st]" by (simp add: all_stages_def)
    with assms(2) s' from_parent_found [of _ "all_stages s"] p show ?thesis by (auto simp: well_parented_snoc)
  next
    case 3
    show ?thesis
    proof (cases "current_stage s")
      case None
      with 3 assms(2) show ?thesis by (auto simp: parse_label_line_def all_stages_def)
    next
      case (Some st)
      then obtain st' where st': "label_stage ?line st = Inr st'" "current_stage s' = Some st'" "finished s' = finished s"
        using 3 by (auto simp: parse_label_line_def split: sum.splits)
      then show ?thesis
        using well_parented_current [OF assms(2) Some, of st'] label_stage_keeps [OF st'(1)]
        by (simp add: all_stages_def)
    qed
  next
    case 4
    then show ?thesis
      using assms(2) well_parented_current [OF assms(2)]
      by (cases "current_stage s") (simp_all add: all_stages_def)
  qed
qed

lemma parse_lines_keep:
  "parse_lines ls s = Inr s' \<Longrightarrow> well_parented (all_stages s) \<Longrightarrow> well_parented (all_stages s')"
proof (induction ls arbitrary: s)
  case (Cons l ls)
  then obtain t where "parse_line l s = Inr t" "parse_lines ls t = Inr s'" by (auto split: sum.splits)
  with Cons parse_line_keeps show ?case by blast
qed simp

lemma map_of_layer_stages:
  "map_of (layer_stages sts) = map_of (rev (map (\<lambda>s. (layer_name s, s)) (filter (\<lambda>s. layer_name s \<noteq> []) sts)))"
proof -
  have "map_of (fold (\<lambda>s. AList.update (layer_name s) s) xs al) =
      map_of al ++ map_of (rev (map (\<lambda>s. (layer_name s, s)) xs))" for xs and al :: "(string \<times> ParsedStage) list"
    by (induction xs arbitrary: al) (simp_all add: update_conv' map_add_upd_left map_add_assoc [symmetric] map_add_upd)
  then show ?thesis by (simp add: layer_stages_def)
qed

lemma check_orders_Inr: "check_orders i ns = Inr () \<longleftrightarrow> ns = map of_nat [i..<i + length ns]"
proof (induction i ns rule: check_orders.induct)
  case (2 i n ns)
  have "map of_nat [i..<i + length (n # ns)] = of_nat i # map of_nat [Suc i..<Suc i + length ns]"
    by (subst upt_conv_Cons) simp_all
  with 2 show ?case by auto
qed simp

lemma accepted_graph:
  assumes "parse_text content = Inr g"
  shows "well_parented (stages g)"
    and "\<forall>n \<in> set (layer_order (release_meta g)). n \<noteq> [] \<and> (\<exists>st \<in> set (stages g). layer_name st = n)"
    and "mset (map (stage_order \<circ> snd) (layer_stages (stages g))) = mset (map of_nat [0..<length (layer_stages (stages g))])"
proof -
  from assms obtain s meta where s: "parse_lines (lines content) \<lparr>finished = [], current_stage = None, steel_release_stage = None\<rparr> = Inr s"
    and v: "validate_graph (all_stages s) meta = Inr ()" and g: "g = \<lparr>stages = all_stages s, release_meta = meta\<rparr>"
    by (auto simp: parse_text_def split: sum.splits option.splits)
  show "well_parented (stages g)"
    using parse_lines_keep [OF s] g by (simp add: all_stages_def)
  have none: "find (\<lambda>n. map_of (layer_stages (stages g)) n = None) (layer_order (release_meta g)) = None"
    and ord: "check_orders 0 (sort (map (stage_order \<circ> snd) (layer_stages (stages g)))) = Inr ()"
    using v g by (auto simp: validate_graph_def split: option.splits)
  have named: "n \<noteq> [] \<and> (\<exists>st \<in> set (stages g). layer_name st = n)" if n: "n \<in> set (layer_order (release_meta g))" for n
  proof -
    obtain st where "map_of (layer_stages (stages g)) n = Some st"
      using none n by (fastforce simp: find_None_iff)
    then have "(n, st) \<in> set (rev (map (\<lambda>s. (layer_name s, s)) (filter (\<lambda>s. layer_name s \<noteq> []) (stages g))))"
      unfolding map_of_layer_stages by (rule map_of_SomeD)
    then show ?thesis by auto
  qed
  show "mset (map (stage_order \<circ> snd) (layer_stages (stages g))) = mset (map of_nat [0..<length (layer_stages (stages g))])"
    using ord [unfolded check_orders_Inr] by (metis add_0 length_map length_sort mset_sort)
  show "\<forall>n \<in> set (layer_order (release_meta g)). n \<noteq> [] \<and> (\<exists>st \<in> set (stages g). layer_name st = n)"
    using named by blast
qed

text \<open>
  C33. A Dockerfile that is accepted yields a graph in which every parent stage comes before the
  stages built on it, every released layer is the layer of some stage, and the orders of the layers
  are exactly 0, 1, 2 and so on.
\<close>

theorem accepted_graph_valid:
  assumes "parse_text content = Inr g"
  shows "(\<forall>i < length (stages g). instructions (stages g ! i) \<noteq> [] \<and>
       (\<forall>p. parent_name (stages g ! i) = Some p \<longrightarrow> (\<exists>j < i. stage_name (stages g ! j) = p))) \<and>
    (\<forall>n \<in> set (layer_order (release_meta g)). n \<noteq> [] \<and> (\<exists>st \<in> set (stages g). layer_name st = n)) \<and>
    mset (map (stage_order \<circ> snd) (layer_stages (stages g))) = mset (map of_nat [0..<length (layer_stages (stages g))])"
  using accepted_graph [OF assms] by (auto simp: well_parented_def)

text \<open>A file with two layers and a release stage.\<close>

definition newline :: string where
  "newline = [CHR 0x0A]"

definition sample_dockerfile :: "string list" where
  "sample_dockerfile =
     [''FROM debian AS base'', ''LABEL steel.layer=base-os'', ''LABEL steel.layer.order=0'', ''# comment'', ''RUN x'',
      ''FROM base AS app'', ''LABEL steel.layer=app'', ''LABEL steel.layer.order=1'',
      ''FROM scratch AS release'', ''LABEL steel.release.layers=base-os,app'']"

lemmas parser_eval =
  parse_lines.simps parse_line_def parse_from_def parse_label_line_def label_stage_def label_release_def parse_label_def
  is_instruction_def from_name_def from_parent_def all_stages_def trim_def trim_start_def trim_end_def is_whitespace_def
  starts_with_def to_uppercase_def to_lowercase_def to_upper_def to_lower_def find_char_def trim_matches_def
  split_whitespace_def Let_def

lemmas number_eval =
  parse_u32_res_def parse_u32_def parse_dec_def is_digit_def dec_value_def digit_val_def

lemma lines_join:
  assumes "ls \<noteq> []" and "\<And>l. l \<in> set ls \<Longrightarrow> CHR 0x0A \<notin> set l \<and> CHR 0x0D \<notin> set l \<and> l \<noteq> []"
  shows "lines (join [CHR 0x0A] ls) = ls"
proof -
  have "split_char CHR 0x0A (join [CHR 0x0A] ls) = ls" using assms by (intro split_join) blast+
  moreover have "strip_cr l = l" if "l \<in> set ls" for l
    using assms(2) [OF that] by (auto simp: strip_cr_def strip_suffix_def suffix_def)
  moreover have "last ls \<in> set ls" using assms(1) by simp
  ultimately show ?thesis
    using assms by (simp add: lines_def Let_def map_idI append_butlast_last_id in_set_butlastD)
qed

definition sample_graph :: BuildGraph where
  "sample_graph =
     \<lparr>stages =
        [\<lparr>stage_name = ''base'', parent_name = None, layer_name = ''base-os'', stage_order = 0,
          instructions = [''FROM debian AS base'', ''LABEL steel.layer=base-os'', ''LABEL steel.layer.order=0'', ''RUN x'']\<rparr>,
         \<lparr>stage_name = ''app'', parent_name = Some ''base'', layer_name = ''app'', stage_order = 1,
          instructions = [''FROM base AS app'', ''LABEL steel.layer=app'', ''LABEL steel.layer.order=1'']\<rparr>,
         \<lparr>stage_name = ''release'', parent_name = None, layer_name = [], stage_order = 0,
          instructions = [''FROM scratch AS release'', ''LABEL steel.release.layers=base-os,app'']\<rparr>],
      release_meta = \<lparr>layer_order = [''base-os'', ''app''], workload_meta = fmempty\<rparr>\<rparr>"

lemma sample_dockerfile_parsed: "parse_text (join [CHR 0x0A] sample_dockerfile) = Inr sample_graph"
proof -
  have l: "lines (join [CHR 0x0A] sample_dockerfile) = sample_dockerfile"
    by (rule lines_join) (auto simp: sample_dockerfile_def)
  have p: "parse_lines sample_dockerfile \<lparr>finished = [], current_stage = None, steel_release_stage = None\<rparr> =
      Inr \<lparr>finished = butlast (stages sample_graph), current_stage = Some (last (stages sample_graph)),
           steel_release_stage = Some (release_meta sample_graph)\<rparr>"
    by (simp add: parser_eval number_eval sample_dockerfile_def sample_graph_def trim_start_matches.simps char_of_def bit_iff_odd)
  have "validate_graph (stages sample_graph) (release_meta sample_graph) = Inr ()"
    by (simp add: validate_graph_def layer_stages_def sample_graph_def)
  with p l show ?thesis by (simp add: parse_text_def all_stages_def sample_graph_def)
qed

theorem accepted_graph_valid_witness:
  "\<exists>j < 1. stage_name (stages sample_graph ! j) = ''base''"
proof -
  have "parent_name (stages sample_graph ! 1) = Some ''base''" "1 < length (stages sample_graph)"
    by (simp_all add: sample_graph_def)
  with accepted_graph_valid [OF sample_dockerfile_parsed] show ?thesis by blast
qed

end
