(* ===== verification/Layer_Types.thy ===== *)
theory Layer_Types
  imports Prelude Packet_Bytes "HOL-Library.Finite_Map" "HOL-Library.AList" "HOL-Library.List_Lexorder" "HOL-Library.Char_ord"
begin

text \<open>
  The types of the layer store, \<^verbatim>\<open>fs-storage/src/types.rs\<close>, and its readers.
  A hash is an array of 32 bytes, a type of its own. The printer and parser of the \<open>hex\<close> crate,
  the digest of the \<open>sha2\<close> crate and the encoders of \<open>serde_json\<close> are the fields of a record
  \<open>store_ext\<close>, and the locale \<open>store_codec\<close> states what their documentation promises. A
  \<open>HashMap\<close> with string keys is a finite map, so that two maps with the same entries are equal.

  An \<open>AsyncRead\<close> is the list of answers it gives to successive polls: data, not ready yet, or
  an error; after the last one it reports the end of the stream, as it does with an empty read.
  The hashing reader of \<^verbatim>\<open>layer_store.rs\<close> wraps one.
\<close>

section \<open>Hashes\<close>

text \<open>A Rust array \<open>[u8; 32]\<close>.\<close>

typedef array32 = "{bs :: bytes. length bs = 32}"
  morphisms array_bytes Array32
  by (rule exI [of _ "replicate 32 0"]) simp

lemma array_length [simp]: "length (array_bytes a) = 32"
  using array_bytes [of a] by simp

lemma array_inverse [simp]: "length bs = 32 \<Longrightarrow> array_bytes (Array32 bs) = bs"
  by (rule Array32_inverse) simp

lemma array_eq [simp]: "length a = 32 \<Longrightarrow> length b = 32 \<Longrightarrow> Array32 a = Array32 b \<longleftrightarrow> a = b"
  by (rule Array32_inject) simp_all

lemma array_cases: obtains bs where "a = Array32 bs" "length bs = 32"
  by (rule that [of "array_bytes a"]) (simp_all add: array_bytes_inverse)

datatype ContentHash = ContentHash (content_array: array32)
datatype InputHash = InputHash (input_array: array32)
datatype ArtifactFormat = Deploy | BuildCache
datatype BuildId = BuildId string

definition content_bytes :: "ContentHash \<Rightarrow> bytes" where
  "content_bytes h = array_bytes (content_array h)"

definition input_bytes :: "InputHash \<Rightarrow> bytes" where
  "input_bytes h = array_bytes (input_array h)"

fun extension :: "ArtifactFormat \<Rightarrow> string" where
  "extension Deploy = ''ext4.zst''"
| "extension BuildCache = ''oci.tar.zst''"

fun show_BuildId :: "BuildId \<Rightarrow> string" where
  "show_BuildId (BuildId s) = s"

datatype StoreError =
    NotFound
  | HashCollision ContentHash
  | InvalidTagName string
  | InvalidHash string
  | Io string
  | Serialization string

section \<open>Records\<close>

record LayerMeta =
  input_hash :: InputHash
  content_hash :: ContentHash
  parent_input_hash :: "InputHash option"
  uncompressed_size :: u64
  compressed_size_deploy :: u64
  compressed_size_cache :: u64
  file_checksum_deploy :: ContentHash
  file_checksum_cache :: ContentHash
  builder_version :: string
  build_timestamp :: u64
  build_host :: string
  stage_definition_hash :: ContentHash
  dockerfile_hash :: ContentHash

record ManifestLayer =
  ml_name :: string
  ml_order :: u32
  ml_input_hash :: InputHash
  ml_content_hash :: ContentHash
  ml_size_bytes :: u64
  ml_size_compressed_bytes :: u64
  ml_parent_input_hash :: "InputHash option"

record BuildMetadata =
  bm_dockerfile_hash :: ContentHash
  bm_build_timestamp :: u64
  bm_builder_version :: string
  bm_build_host :: string

record ReleaseManifest =
  schema_version :: string
  manifest_id :: string
  build_metadata :: BuildMetadata
  layers :: "ManifestLayer list"
  workload_metadata :: "(string, string) fmap"

record BuildCatalogEntry =
  build_id :: BuildId
  release_name :: string
  manifest_hash :: ContentHash
  ce_build_timestamp :: u64
  spec_hash :: ContentHash
  ce_layers :: "ContentHash list"

record BuildFilter =
  filter_tag :: "string option"
  release_name_prefix :: "string option"
  layer_hash :: "ContentHash option"
  from_timestamp :: "u64 option"
  to_timestamp :: "u64 option"

record CorruptEntry =
  corrupt_path :: string
  expected_hash :: ContentHash
  actual_hash :: ContentHash

record VerificationReport =
  valid :: "ContentHash list"
  corrupt :: "CorruptEntry list"

record GcCandidate =
  gc_content_hash :: ContentHash
  size_deploy_bytes :: u64
  size_cache_bytes :: u64

record GcReport =
  candidates :: "GcCandidate list"
  total_reclaimable_bytes :: u64

record GcSummary =
  deleted_blobs :: u64
  deleted_bytes :: u64

section \<open>External functions\<close>

record store_ext =
  hex_encode :: "bytes \<Rightarrow> string"
  hex_decode :: "string \<Rightarrow> bytes option"
  sha256 :: "bytes \<Rightarrow> bytes"
  meta_to_vec :: "LayerMeta \<Rightarrow> string + bytes"
  meta_from_slice :: "bytes \<Rightarrow> string + LayerMeta"
  manifest_to_vec :: "ReleaseManifest \<Rightarrow> string + bytes"
  manifest_from_slice :: "bytes \<Rightarrow> string + ReleaseManifest"
  catalog_to_vec :: "BuildCatalogEntry \<Rightarrow> string + bytes"
  catalog_from_slice :: "bytes \<Rightarrow> string + BuildCatalogEntry"

definition show_ContentHash :: "store_ext \<Rightarrow> ContentHash \<Rightarrow> string" where
  "show_ContentHash x h = hex_encode x (content_bytes h)"

definition show_InputHash :: "store_ext \<Rightarrow> InputHash \<Rightarrow> string" where
  "show_InputHash x h = hex_encode x (input_bytes h)"

definition ContentHash_from_str :: "store_ext \<Rightarrow> string \<Rightarrow> StoreError + ContentHash" where
  "ContentHash_from_str x s =
     (case hex_decode x s of
        None \<Rightarrow> Inl (InvalidHash s)
      | Some bs \<Rightarrow> if length bs \<noteq> 32 then Inl (InvalidHash s) else Inr (ContentHash (Array32 bs)))"

definition InputHash_from_str :: "store_ext \<Rightarrow> string \<Rightarrow> StoreError + InputHash" where
  "InputHash_from_str x s =
     (case hex_decode x s of
        None \<Rightarrow> Inl (InvalidHash s)
      | Some bs \<Rightarrow> if length bs \<noteq> 32 then Inl (InvalidHash s) else Inr (InputHash (Array32 bs)))"

definition show_StoreError :: "store_ext \<Rightarrow> StoreError \<Rightarrow> string" where
  "show_StoreError x e =
     (case e of
        NotFound \<Rightarrow> ''Not found''
      | HashCollision h \<Rightarrow> ''Hash collision detected: '' @ show_ContentHash x h
      | InvalidTagName n \<Rightarrow> ''Invalid tag name: '' @ n
      | InvalidHash s \<Rightarrow> ''Invalid hash: '' @ s
      | Io msg \<Rightarrow> ''I/O error: '' @ msg
      | Serialization msg \<Rightarrow> ''Serialization error: '' @ msg)"

text \<open>A lower-case hexadecimal digit.\<close>

definition is_hex :: "char \<Rightarrow> bool" where
  "is_hex c \<longleftrightarrow> is_digit c \<or> (97 \<le> (of_char c :: nat) \<and> (of_char c :: nat) \<le> 102)"

lemma is_hex_plain: "is_hex c \<Longrightarrow> (of_char c :: nat) < 128 \<and> \<not> is_whitespace c \<and> to_lower c = c \<and> c \<noteq> CHR ''/''"
  by (auto simp: is_hex_def is_digit_def is_whitespace_def to_lower_def)

text \<open>
  What the external crates document: \<open>hex\<close> prints two lower-case digits per byte (\<open>00\<close> for zero)
  and reads either case, a SHA-256 digest has 32 bytes, and \<open>serde_json\<close> reads back what it wrote.
\<close>

locale store_codec =
  fixes x :: store_ext
  assumes hex_chars: "list_all is_hex (hex_encode x bs)"
    and hex_length: "length (hex_encode x bs) = 2 * length bs"
    and hex_exact: "hex_decode x s = Some bs \<longleftrightarrow> to_lowercase s = hex_encode x bs"
    and hex_zero: "hex_encode x (replicate n 0) = replicate (2 * n) (CHR ''0'')"
    and sha_length: "length (sha256 x bs) = 32"
    and meta_inverse: "meta_to_vec x m = Inr bs \<Longrightarrow> meta_from_slice x bs = Inr m"
    and manifest_inverse: "manifest_to_vec x mf = Inr bs \<Longrightarrow> manifest_from_slice x bs = Inr mf"
    and catalog_inverse: "catalog_to_vec x ce = Inr bs \<Longrightarrow> catalog_from_slice x bs = Inr ce"
begin

lemma hex_lower: "to_lowercase (hex_encode x bs) = hex_encode x bs"
  using hex_chars [of bs] unfolding to_lowercase_def
  by (intro map_idI) (auto simp: list_all_iff dest: is_hex_plain)

lemma hex_inverse [simp]: "hex_decode x (hex_encode x bs) = Some bs"
  by (simp add: hex_exact hex_lower)

lemma hex_inj [simp]: "hex_encode x a = hex_encode x b \<longleftrightarrow> a = b"
  by (metis hex_inverse option.inject)

lemma hex_ascii [simp]: "ascii (hex_encode x bs)"
  using hex_chars [of bs] by (auto simp: ascii_def list_all_iff dest: is_hex_plain)

lemma hex_trim [simp]: "trim (hex_encode x bs) = hex_encode x bs"
  using hex_chars [of bs] by (intro trim_id) (auto simp: list_all_iff dest: is_hex_plain)

lemma content_from_str_iff:
  "ContentHash_from_str x s = Inr h \<longleftrightarrow> to_lowercase s = show_ContentHash x h"
proof (cases h)
  case (ContentHash a)
  obtain bs where a: "a = Array32 bs" "length bs = 32" by (rule array_cases)
  show ?thesis
  proof (cases "hex_decode x s")
    case None
    then have "to_lowercase s \<noteq> hex_encode x bs" using hex_exact [of s bs] by simp
    with None a ContentHash show ?thesis
      by (simp add: ContentHash_from_str_def show_ContentHash_def content_bytes_def)
  next
    case (Some cs)
    then have "to_lowercase s = hex_encode x cs" using hex_exact by simp
    with Some a ContentHash show ?thesis
      by (auto simp: ContentHash_from_str_def show_ContentHash_def content_bytes_def)
  qed
qed

lemma input_from_str_iff:
  "InputHash_from_str x s = Inr h \<longleftrightarrow> to_lowercase s = show_InputHash x h"
proof (cases h)
  case (InputHash a)
  obtain bs where a: "a = Array32 bs" "length bs = 32" by (rule array_cases)
  show ?thesis
  proof (cases "hex_decode x s")
    case None
    then have "to_lowercase s \<noteq> hex_encode x bs" using hex_exact [of s bs] by simp
    with None a InputHash show ?thesis
      by (simp add: InputHash_from_str_def show_InputHash_def input_bytes_def)
  next
    case (Some cs)
    then have "to_lowercase s = hex_encode x cs" using hex_exact by simp
    with Some a InputHash show ?thesis
      by (auto simp: InputHash_from_str_def show_InputHash_def input_bytes_def)
  qed
qed

lemma content_roundtrip [simp]: "ContentHash_from_str x (show_ContentHash x h) = Inr h"
  by (simp add: content_from_str_iff show_ContentHash_def hex_lower)

lemma input_roundtrip [simp]: "InputHash_from_str x (show_InputHash x h) = Inr h"
  by (simp add: input_from_str_iff show_InputHash_def hex_lower)

lemma show_content_inj [simp]: "show_ContentHash x a = show_ContentHash x b \<longleftrightarrow> a = b"
  by (metis content_roundtrip sum.inject(2))

lemma show_input_inj [simp]: "show_InputHash x a = show_InputHash x b \<longleftrightarrow> a = b"
  by (metis input_roundtrip sum.inject(2))

lemma stored_hash [simp]:
  "from_utf8 (as_bytes (show_ContentHash x h)) = Some (show_ContentHash x h)"
  "trim (show_ContentHash x h) = show_ContentHash x h"
  by (simp_all add: show_ContentHash_def)

lemma from_str_error: "ContentHash_from_str x s = Inl e \<Longrightarrow> e = InvalidHash s"
  by (auto simp: ContentHash_from_str_def split: option.splits if_splits)

end

section \<open>Readers\<close>

datatype read_event = Chunk bytes | NotReady | Failure string

record reader =
  events :: "read_event list"

datatype poll = Ready_Ok | Ready_Err string | Pending

text \<open>The \<open>poll_read\<close> of the wrapped reader: what it appends to the filled part of the buffer.\<close>

fun inner_poll_read :: "reader \<Rightarrow> bytes \<Rightarrow> poll \<times> bytes \<times> reader" where
  "inner_poll_read r buf =
     (case events r of
        [] \<Rightarrow> (Ready_Ok, buf, r)
      | Chunk c # es \<Rightarrow> (Ready_Ok, buf @ c, r\<lparr>events := es\<rparr>)
      | NotReady # es \<Rightarrow> (Pending, buf, r\<lparr>events := es\<rparr>)
      | Failure e # es \<Rightarrow> (Ready_Err e, buf, r\<lparr>events := es\<rparr>))"

text \<open>The hasher state is the list of the bytes given to it so far.\<close>

record HashingReader =
  inner :: reader
  hasher :: bytes

definition new_HashingReader :: "reader \<Rightarrow> HashingReader" where
  "new_HashingReader r = \<lparr>inner = r, hasher = []\<rparr>"

definition finalize :: "store_ext \<Rightarrow> HashingReader \<Rightarrow> ContentHash" where
  "finalize x hr = ContentHash (Array32 (sha256 x (hasher hr)))"

definition poll_read :: "HashingReader \<Rightarrow> bytes \<Rightarrow> poll \<times> bytes \<times> HashingReader" where
  "poll_read this buf =
     (let filled_before = length buf;
          (p, buf', r') = inner_poll_read (inner this) buf;
          this' = this\<lparr>inner := r'\<rparr>
      in case p of
           Ready_Ok \<Rightarrow>
             let filled_after = length buf'
             in (Ready_Ok, buf',
                 if filled_before < filled_after
                 then this'\<lparr>hasher := hasher this' @ drop filled_before buf'\<rparr> else this')
         | other \<Rightarrow> (other, buf', this'))"

text \<open>
  \<open>tokio::io::copy\<close>: poll, wait while the reader is not ready, stop at the first empty read,
  pass an error on.
\<close>

function copy_all :: "bytes \<Rightarrow> HashingReader \<Rightarrow> (StoreError + bytes) \<times> HashingReader" where
  "copy_all out hr =
     (if events (inner hr) = [] then (Inr out, hr)
      else case poll_read hr [] of
        (Ready_Ok, buf, hr') \<Rightarrow> if buf = [] then (Inr out, hr') else copy_all (out @ buf) hr'
      | (Ready_Err e, buf, hr') \<Rightarrow> (Inl (Io e), hr')
      | (Pending, buf, hr') \<Rightarrow> copy_all out hr')"
  by pat_completeness auto
termination
  by (relation "measure (\<lambda>(out, hr). length (events (inner hr)))")
    (auto simp: poll_read_def Let_def split: list.splits read_event.splits if_splits prod.splits poll.splits)

declare copy_all.simps [simp del]

text \<open>What a reader delivers to one who reads it to the end.\<close>

fun drain :: "read_event list \<Rightarrow> string + bytes" where
  "drain [] = Inr []"
| "drain (NotReady # es) = drain es"
| "drain (Failure e # es) = Inl e"
| "drain (Chunk c # es) =
     (if c = [] then Inr [] else case drain es of Inl e \<Rightarrow> Inl e | Inr d \<Rightarrow> Inr (c @ d))"

lemma copy_all_drain:
  "copy_all out hr = (r, hr') \<Longrightarrow>
     (case drain (events (inner hr)) of
        Inl e \<Rightarrow> r = Inl (Io e)
      | Inr d \<Rightarrow> r = Inr (out @ d) \<and> hasher hr' = hasher hr @ d)"
proof (induction "events (inner hr)" arbitrary: out hr)
  case Nil
  then show ?case by (simp add: copy_all.simps)
next
  case (Cons ev es)
  note ev = Cons.hyps(2) [symmetric]
  note IH = Cons.hyps(1)
  show ?case
  proof (cases ev)
    case NotReady
    let ?hr = "hr\<lparr>inner := (inner hr)\<lparr>events := es\<rparr>\<rparr>"
    have "copy_all out ?hr = (r, hr')"
      using Cons.prems ev NotReady by (subst (asm) copy_all.simps) (simp add: poll_read_def)
    then show ?thesis using IH [of ?hr out] ev NotReady by (auto split: sum.splits)
  next
    case (Failure e)
    then show ?thesis
      using Cons.prems ev by (subst (asm) copy_all.simps) (simp add: poll_read_def)
  next
    case (Chunk c)
    show ?thesis
    proof (cases "c = []")
      case True
      then show ?thesis
        using Cons.prems ev Chunk by (subst (asm) copy_all.simps) (auto simp: poll_read_def)
    next
      case False
      let ?hr = "hr\<lparr>inner := (inner hr)\<lparr>events := es\<rparr>, hasher := hasher hr @ c\<rparr>"
      have "copy_all (out @ c) ?hr = (r, hr')"
        using Cons.prems ev Chunk False by (subst (asm) copy_all.simps) (simp add: poll_read_def)
      then show ?thesis using IH [of ?hr "out @ c"] ev Chunk False by (auto split: sum.splits)
    qed
  qed
qed

section \<open>A codec that satisfies the laws\<close>

text \<open>
  Hexadecimal text, a stand-in digest and a self-delimiting binary encoding of the records. It
  shows that the laws of \<open>store_codec\<close> can hold together for every value of the types.
\<close>

definition hex_digit :: "nat \<Rightarrow> char" where
  "hex_digit d = (if d < 10 then char_of (48 + d) else char_of (87 + d))"

definition hex_val :: "char \<Rightarrow> nat option" where
  "hex_val c =
     (let n = of_char (to_lower c) :: nat
      in if 48 \<le> n \<and> n \<le> 57 then Some (n - 48) else if 97 \<le> n \<and> n \<le> 102 then Some (n - 87) else None)"

fun hex_text :: "bytes \<Rightarrow> string" where
  "hex_text [] = []"
| "hex_text (b # bs) = hex_digit (unat b div 16) # hex_digit (unat b mod 16) # hex_text bs"

fun hex_parse :: "string \<Rightarrow> bytes option" where
  "hex_parse [] = Some []"
| "hex_parse [c] = None"
| "hex_parse (c # d # s) =
     (case (hex_val c, hex_val d, hex_parse s) of
        (Some i, Some j, Some bs) \<Rightarrow> Some (of_nat (16 * i + j) # bs)
      | _ \<Rightarrow> None)"

lemma to_lower_idem [simp]: "to_lower (to_lower c) = to_lower c"
  by (auto simp: to_lower_def)

lemma hex_digit_props:
  assumes "d < 16"
  shows "is_hex (hex_digit d)" and "to_lower c = hex_digit d \<longleftrightarrow> hex_val c = Some d"
proof -
  have v: "(of_char (hex_digit d) :: nat) = (if d < 10 then 48 + d else 87 + d)"
    using assms by (simp add: hex_digit_def)
  then show "is_hex (hex_digit d)" using assms by (auto simp: is_hex_def is_digit_def)
  have "to_lower c = hex_digit d \<longleftrightarrow> (of_char (to_lower c) :: nat) = of_char (hex_digit d)"
    by simp
  with v assms show "to_lower c = hex_digit d \<longleftrightarrow> hex_val c = Some d"
    by (auto simp: hex_val_def Let_def)
qed

lemma hex_val_bound: "hex_val c = Some d \<Longrightarrow> d < 16"
  by (auto simp: hex_val_def Let_def split: if_splits)

lemma hex_pair:
  assumes "i < 16" and "j < 16"
  shows "16 * of_nat i + of_nat j = (b :: u8) \<longleftrightarrow> i = unat b div 16 \<and> j = unat b mod 16"
proof -
  have "of_nat n = b \<longleftrightarrow> n = unat b" if "n < 256" for n
    using that by (auto simp: unat_of_nat)
  moreover have "16 * i + j = k \<longleftrightarrow> i = k div 16 \<and> j = k mod 16" for k
    using assms by auto
  ultimately have "of_nat (16 * i + j) = b \<longleftrightarrow> i = unat b div 16 \<and> j = unat b mod 16"
    using assms by (simp only: mult.commute)
  then show ?thesis by simp
qed

lemma hex_parse_exact: "hex_parse s = Some bs \<longleftrightarrow> to_lowercase s = hex_text bs"
proof (induction s arbitrary: bs rule: hex_parse.induct)
  case 1
  then show ?case by (cases bs) (auto simp: to_lowercase_def)
next
  case (2 c)
  then show ?case by (cases bs) (auto simp: to_lowercase_def)
next
  case (3 c d s)
  show ?case
  proof (cases bs)
    case Nil
    then show ?thesis by (auto simp: to_lowercase_def split: option.splits)
  next
    case (Cons b cs)
    have b: "unat b div 16 < 16" using unat_bound [of b] by simp
    have "hex_parse (c # d # s) = Some bs \<longleftrightarrow>
        hex_val c = Some (unat b div 16) \<and> hex_val d = Some (unat b mod 16) \<and> hex_parse s = Some cs"
      using Cons b by (auto split: option.splits simp: hex_pair hex_val_bound)
    also have "\<dots> \<longleftrightarrow> to_lowercase (c # d # s) = hex_text bs"
      using Cons "3.IH" [of cs]
      by (cases "hex_parse s") (auto simp: to_lowercase_def hex_digit_props b)
    finally show ?thesis .
  qed
qed

lemma hex_text_zero: "hex_text (replicate n 0) = replicate (2 * n) (CHR ''0'')"
proof (induction n)
  case (Suc n)
  have "hex_digit 0 = CHR ''0''" by (simp add: hex_digit_def char_of_def bit_iff_odd)
  with Suc show ?case by simp
qed simp

lemma hex_text_props: "length (hex_text bs) = 2 * length bs" "list_all is_hex (hex_text bs)"
proof (induction bs)
  case (Cons b bs)
  have "unat b div 16 < 16" using unat_bound [of b] by simp
  with Cons show "length (hex_text (b # bs)) = 2 * length (b # bs)" "list_all is_hex (hex_text (b # bs))"
    by (simp_all add: hex_digit_props)
qed simp_all

text \<open>Encoders append to what follows; decoders return the value and the rest.\<close>

type_synonym 'a decoder = "bytes \<Rightarrow> ('a \<times> bytes) option"

definition decodes :: "('a \<Rightarrow> bytes) \<Rightarrow> 'a decoder \<Rightarrow> bool" where
  "decodes en de \<longleftrightarrow> (\<forall>a rest. de (en a @ rest) = Some (a, rest))"

lemma decodesD: "decodes en de \<Longrightarrow> de (en a @ rest) = Some (a, rest)"
  by (simp add: decodes_def)

definition enc_word :: "'w::len word \<Rightarrow> bytes" where
  "enc_word w = le_bytes 8 (unat w)"

definition dec_word :: "'w::len word decoder" where
  "dec_word bs = Some (of_nat (le_nat (take 8 bs)), drop 8 bs)"

definition enc_array :: "array32 \<Rightarrow> bytes" where
  "enc_array a = array_bytes a"

definition dec_array :: "array32 decoder" where
  "dec_array bs = Some (Array32 (take 32 bs), drop 32 bs)"

fun enc_list :: "('a \<Rightarrow> bytes) \<Rightarrow> 'a list \<Rightarrow> bytes" where
  "enc_list en [] = [0]"
| "enc_list en (a # as) = 1 # en a @ enc_list en as"

text \<open>The length of the input bounds the number of elements.\<close>

fun dec_list :: "nat \<Rightarrow> 'a decoder \<Rightarrow> 'a list decoder" where
  "dec_list 0 de bs = None"
| "dec_list (Suc n) de [] = None"
| "dec_list (Suc n) de (b # bs) =
     (if b = 0 then Some ([], bs)
      else case de bs of
        None \<Rightarrow> None
      | Some (a, rest) \<Rightarrow> map_option (\<lambda>(as, rest'). (a # as, rest')) (dec_list n de rest))"

definition dec_items :: "'a decoder \<Rightarrow> 'a list decoder" where
  "dec_items de bs = dec_list (length bs) de bs"

lemma decodes_word: "LENGTH('w::len) \<le> 64 \<Longrightarrow> decodes enc_word (dec_word :: 'w word decoder)"
proof -
  assume "LENGTH('w) \<le> 64"
  then have "unat w < 256 ^ 8" for w :: "'w word"
    using less_le_trans [OF unat_bound [of w] power_increasing [of "LENGTH('w)" 64 "2 :: nat"]] by simp
  then show ?thesis
    by (simp add: decodes_def enc_word_def dec_word_def le_nat_le_bytes)
qed

lemma decodes_array: "decodes enc_array dec_array"
  by (simp add: decodes_def enc_array_def dec_array_def array_bytes_inverse)

lemma dec_list_enc:
  "decodes en de \<Longrightarrow> length as < n \<Longrightarrow> dec_list n de (enc_list en as @ rest) = Some (as, rest)"
proof (induction as arbitrary: n)
  case Nil
  then show ?case by (cases n) auto
next
  case (Cons a as)
  then show ?case by (cases n) (auto simp: decodesD)
qed

lemma length_enc_list: "length as < length (enc_list en as)"
  by (induction as) auto

lemma decodes_items: "decodes en de \<Longrightarrow> decodes (enc_list en) (dec_items de)"
  unfolding decodes_def [of "enc_list en"] dec_items_def
  using dec_list_enc length_enc_list by (metis length_append trans_less_add1)

definition enc_pair :: "('a \<Rightarrow> bytes) \<Rightarrow> ('b \<Rightarrow> bytes) \<Rightarrow> 'a \<times> 'b \<Rightarrow> bytes" where
  "enc_pair e1 e2 p = e1 (fst p) @ e2 (snd p)"

definition dec_pair :: "'a decoder \<Rightarrow> 'b decoder \<Rightarrow> ('a \<times> 'b) decoder" where
  "dec_pair d1 d2 bs =
     (case d1 bs of None \<Rightarrow> None
      | Some (a, r) \<Rightarrow> (case d2 r of None \<Rightarrow> None | Some (b, r') \<Rightarrow> Some ((a, b), r')))"

definition dec_map :: "('a \<Rightarrow> 'b) \<Rightarrow> 'a decoder \<Rightarrow> 'b decoder" where
  "dec_map f de bs = map_option (\<lambda>(a, r). (f a, r)) (de bs)"

lemma decodes_pair: "decodes e1 d1 \<Longrightarrow> decodes e2 d2 \<Longrightarrow> decodes (enc_pair e1 e2) (dec_pair d1 d2)"
  by (simp add: decodes_def enc_pair_def dec_pair_def)

lemma decodes_map: "decodes en de \<Longrightarrow> (\<And>b. g (f b) = b) \<Longrightarrow> decodes (\<lambda>b. en (f b)) (dec_map g de)"
  by (simp add: decodes_def dec_map_def)

definition enc_string :: "string \<Rightarrow> bytes" where
  "enc_string s = enc_list enc_word (as_bytes s)"

definition dec_string :: "string decoder" where
  "dec_string = dec_map of_bytes (dec_items dec_word)"

definition enc_content :: "ContentHash \<Rightarrow> bytes" where
  "enc_content h = enc_array (content_array h)"

definition dec_content :: "ContentHash decoder" where
  "dec_content = dec_map ContentHash dec_array"

definition enc_input :: "InputHash \<Rightarrow> bytes" where
  "enc_input h = enc_array (input_array h)"

definition dec_input :: "InputHash decoder" where
  "dec_input = dec_map InputHash dec_array"

definition enc_option :: "('a \<Rightarrow> bytes) \<Rightarrow> 'a option \<Rightarrow> bytes" where
  "enc_option en z = enc_list en (case z of None \<Rightarrow> [] | Some a \<Rightarrow> [a])"

definition dec_option :: "'a decoder \<Rightarrow> 'a option decoder" where
  "dec_option de = dec_map (\<lambda>as. case as of [] \<Rightarrow> None | a # _ \<Rightarrow> Some a) (dec_items de)"

lemma decodes_string: "decodes enc_string dec_string"
  unfolding enc_string_def dec_string_def
  by (intro decodes_map decodes_items decodes_word) simp_all

lemma decodes_content: "decodes enc_content dec_content"
  unfolding enc_content_def dec_content_def by (intro decodes_map decodes_array) simp

lemma decodes_input: "decodes enc_input dec_input"
  unfolding enc_input_def dec_input_def by (intro decodes_map decodes_array) simp

lemma decodes_option: "decodes en de \<Longrightarrow> decodes (enc_option en) (dec_option de)"
  unfolding enc_option_def dec_option_def
  by (intro decodes_map decodes_items) (auto split: option.splits)

lemma decodes_u64: "decodes enc_word (dec_word :: u64 decoder)"
  by (rule decodes_word) simp

lemma decodes_u32: "decodes enc_word (dec_word :: u32 decoder)"
  by (rule decodes_word) simp

lemmas decodes_intros =
  decodes_pair decodes_u64 decodes_u32 decodes_string decodes_content decodes_input decodes_option decodes_items

definition meta_fields ::
  "LayerMeta \<Rightarrow> InputHash \<times> ContentHash \<times> InputHash option \<times> u64 \<times> u64 \<times> u64 \<times> ContentHash \<times> ContentHash \<times>
     string \<times> u64 \<times> string \<times> ContentHash \<times> ContentHash" where
  "meta_fields m =
     (input_hash m, content_hash m, parent_input_hash m, uncompressed_size m, compressed_size_deploy m,
      compressed_size_cache m, file_checksum_deploy m, file_checksum_cache m, builder_version m,
      build_timestamp m, build_host m, stage_definition_hash m, dockerfile_hash m)"

definition meta_of_fields where
  "meta_of_fields = (\<lambda>(i, c, p, u, d, k, fd, fk, v, t, h, s, df).
     \<lparr>input_hash = i, content_hash = c, parent_input_hash = p, uncompressed_size = u,
      compressed_size_deploy = d, compressed_size_cache = k, file_checksum_deploy = fd,
      file_checksum_cache = fk, builder_version = v, build_timestamp = t, build_host = h,
      stage_definition_hash = s, dockerfile_hash = df\<rparr> :: LayerMeta)"

definition enc_meta :: "LayerMeta \<Rightarrow> bytes" where
  "enc_meta m =
     enc_pair enc_input (enc_pair enc_content (enc_pair (enc_option enc_input) (enc_pair enc_word
       (enc_pair enc_word (enc_pair enc_word (enc_pair enc_content (enc_pair enc_content (enc_pair enc_string
       (enc_pair enc_word (enc_pair enc_string (enc_pair enc_content enc_content))))))))))) (meta_fields m)"

definition dec_meta :: "LayerMeta decoder" where
  "dec_meta =
     dec_map meta_of_fields (dec_pair dec_input (dec_pair dec_content (dec_pair (dec_option dec_input)
       (dec_pair dec_word (dec_pair dec_word (dec_pair dec_word (dec_pair dec_content (dec_pair dec_content
       (dec_pair dec_string (dec_pair dec_word (dec_pair dec_string (dec_pair dec_content dec_content))))))))))))"

lemma decodes_meta: "decodes enc_meta dec_meta"
  unfolding enc_meta_def dec_meta_def
  by (intro decodes_map decodes_intros) (simp add: meta_fields_def meta_of_fields_def)

definition layer_fields where
  "layer_fields (l :: ManifestLayer) =
     (ml_name l, ml_order l, ml_input_hash l, ml_content_hash l, ml_size_bytes l,
      ml_size_compressed_bytes l, ml_parent_input_hash l)"

definition layer_of_fields where
  "layer_of_fields = (\<lambda>(n, ord, i, c, sz, cs, p).
     \<lparr>ml_name = n, ml_order = ord, ml_input_hash = i, ml_content_hash = c, ml_size_bytes = sz,
      ml_size_compressed_bytes = cs, ml_parent_input_hash = p\<rparr> :: ManifestLayer)"

definition enc_layer :: "ManifestLayer \<Rightarrow> bytes" where
  "enc_layer l =
     enc_pair enc_string (enc_pair enc_word (enc_pair enc_input (enc_pair enc_content (enc_pair enc_word
       (enc_pair enc_word (enc_option enc_input)))))) (layer_fields l)"

definition dec_layer :: "ManifestLayer decoder" where
  "dec_layer =
     dec_map layer_of_fields (dec_pair dec_string (dec_pair dec_word (dec_pair dec_input
       (dec_pair dec_content (dec_pair dec_word (dec_pair dec_word (dec_option dec_input)))))))"

lemma decodes_layer: "decodes enc_layer dec_layer"
  unfolding enc_layer_def dec_layer_def
  by (intro decodes_map decodes_intros) (simp add: layer_fields_def layer_of_fields_def)

text \<open>The entries of a finite map are written in the order of their keys, as a \<open>BTreeMap\<close> does.\<close>

definition enc_fmap :: "(string, string) fmap \<Rightarrow> bytes" where
  "enc_fmap m = enc_list (enc_pair enc_string enc_string) (sorted_list_of_fmap m)"

definition dec_fmap :: "(string, string) fmap decoder" where
  "dec_fmap = dec_map fmap_of_list (dec_items (dec_pair dec_string dec_string))"

lemma decodes_fmap: "decodes enc_fmap dec_fmap"
  unfolding enc_fmap_def dec_fmap_def
  by (intro decodes_map decodes_intros) (auto intro: fmap_ext simp: fmlookup_of_list)

definition manifest_fields where
  "manifest_fields (mf :: ReleaseManifest) =
     (schema_version mf, manifest_id mf, bm_dockerfile_hash (build_metadata mf),
      bm_build_timestamp (build_metadata mf), bm_builder_version (build_metadata mf),
      bm_build_host (build_metadata mf), layers mf, workload_metadata mf)"

definition manifest_of_fields where
  "manifest_of_fields = (\<lambda>(sv, i, d, t, v, h, ls, w).
     \<lparr>schema_version = sv, manifest_id = i,
      build_metadata = \<lparr>bm_dockerfile_hash = d, bm_build_timestamp = t, bm_builder_version = v, bm_build_host = h\<rparr>,
      layers = ls, workload_metadata = w\<rparr> :: ReleaseManifest)"

definition enc_manifest :: "ReleaseManifest \<Rightarrow> bytes" where
  "enc_manifest mf =
     enc_pair enc_string (enc_pair enc_string (enc_pair enc_content (enc_pair enc_word (enc_pair enc_string
       (enc_pair enc_string (enc_pair (enc_list enc_layer) enc_fmap)))))) (manifest_fields mf)"

definition dec_manifest :: "ReleaseManifest decoder" where
  "dec_manifest =
     dec_map manifest_of_fields (dec_pair dec_string (dec_pair dec_string (dec_pair dec_content
       (dec_pair dec_word (dec_pair dec_string (dec_pair dec_string (dec_pair (dec_items dec_layer) dec_fmap)))))))"

lemma decodes_manifest: "decodes enc_manifest dec_manifest"
  unfolding enc_manifest_def dec_manifest_def
  by (intro decodes_map decodes_intros decodes_layer decodes_fmap)
    (simp add: manifest_fields_def manifest_of_fields_def)

definition catalog_fields where
  "catalog_fields (ce :: BuildCatalogEntry) =
     (show_BuildId (build_id ce), release_name ce, manifest_hash ce, ce_build_timestamp ce,
      spec_hash ce, ce_layers ce)"

definition catalog_of_fields where
  "catalog_of_fields = (\<lambda>(i, n, h, t, sp, ls).
     \<lparr>build_id = BuildId i, release_name = n, manifest_hash = h, ce_build_timestamp = t,
      spec_hash = sp, ce_layers = ls\<rparr> :: BuildCatalogEntry)"

definition enc_catalog :: "BuildCatalogEntry \<Rightarrow> bytes" where
  "enc_catalog ce =
     enc_pair enc_string (enc_pair enc_string (enc_pair enc_content (enc_pair enc_word
       (enc_pair enc_content (enc_list enc_content))))) (catalog_fields ce)"

definition dec_catalog :: "BuildCatalogEntry decoder" where
  "dec_catalog =
     dec_map catalog_of_fields (dec_pair dec_string (dec_pair dec_string (dec_pair dec_content
       (dec_pair dec_word (dec_pair dec_content (dec_items dec_content))))))"

lemma show_BuildId_inverse [simp]: "BuildId (show_BuildId b) = b"
  by (cases b) simp

lemma decodes_catalog: "decodes enc_catalog dec_catalog"
  unfolding enc_catalog_def dec_catalog_def
  by (intro decodes_map decodes_intros) (simp add: catalog_fields_def catalog_of_fields_def)

definition from_slice :: "'a decoder \<Rightarrow> bytes \<Rightarrow> string + 'a" where
  "from_slice de bs = (case de bs of Some (a, []) \<Rightarrow> Inr a | _ \<Rightarrow> Inl ''invalid document'')"

lemma from_slice_decodes: "decodes en de \<Longrightarrow> from_slice de (en a) = Inr a"
  using decodesD [of en de a "[]"] by (simp add: from_slice_def)

definition sample_codec :: store_ext where
  "sample_codec =
     \<lparr>hex_encode = hex_text, hex_decode = hex_parse, sha256 = (\<lambda>bs. take 32 (bs @ replicate 32 0)),
      meta_to_vec = (\<lambda>m. Inr (enc_meta m)), meta_from_slice = from_slice dec_meta,
      manifest_to_vec = (\<lambda>mf. Inr (enc_manifest mf)), manifest_from_slice = from_slice dec_manifest,
      catalog_to_vec = (\<lambda>ce. Inr (enc_catalog ce)), catalog_from_slice = from_slice dec_catalog\<rparr>"

interpretation sample: store_codec sample_codec
  by unfold_locales
    (auto simp: sample_codec_def hex_parse_exact hex_text_props hex_text_zero
      intro: from_slice_decodes decodes_meta decodes_manifest decodes_catalog)

lemma sample_to_vec [simp]:
  "meta_to_vec sample_codec m = Inr (enc_meta m)"
  "manifest_to_vec sample_codec mf = Inr (enc_manifest mf)"
  "catalog_to_vec sample_codec ce = Inr (enc_catalog ce)"
  by (simp_all add: sample_codec_def)

end
