(* ===== verification/Build_Hash.thy ===== *)
theory Build_Hash
  imports Build_Graph Layer_Types
begin

text \<open>
  The hashes of the build system, \<^verbatim>\<open>build-system/src/hasher.rs\<close>. The input hash of a stage is the
  digest of the parent's hash text, a zero byte and the normalised instructions, one per line; it
  is the key under which the store is asked for a layer. The output hash is the digest of a file
  read in pieces.

  The theorem on chains says that the input hash identifies the words of the instructions of a stage
  and of all stages below it, as far as the digest has no collision among the texts hashed. What a
  word is, is defined apart from the code's normalisation, which is shown to find the words.
\<close>

section \<open>Input hashes\<close>

datatype BuildInputHash = BuildInputHash (input_text: string)

datatype OutputHash = OutputHash (output_text: string)

definition normalize_instruction :: "string \<Rightarrow> string" where
  "normalize_instruction instr =
     (let line = (case find_char CHR ''#'' instr of Some idx \<Rightarrow> take idx instr | None \<Rightarrow> instr)
      in join '' '' (split_whitespace line))"

text \<open>The bytes given to the hasher for the instructions.\<close>

fun hash_instructions :: "string list \<Rightarrow> bytes" where
  "hash_instructions [] = []"
| "hash_instructions (instr # rest) =
     (let normalized = normalize_instruction instr
      in (if normalized \<noteq> [] then as_bytes normalized @ [10] else []) @ hash_instructions rest)"

definition hash_preimage :: "ParsedStage \<Rightarrow> BuildInputHash option \<Rightarrow> bytes" where
  "hash_preimage stage parent_hash =
     (case parent_hash of Some h \<Rightarrow> as_bytes (input_text h) | None \<Rightarrow> []) @ [0] @
     hash_instructions (instructions stage)"

definition compute_input_hash :: "store_ext \<Rightarrow> ParsedStage \<Rightarrow> BuildInputHash option \<Rightarrow> BuildInputHash" where
  "compute_input_hash x stage parent_hash = BuildInputHash (hex_encode x (sha256 x (hash_preimage stage parent_hash)))"

section \<open>What an input hash identifies\<close>

text \<open>
  The words of a text are its maximal runs of characters that are no white space, in order. What
  counts of an instruction are the words of the text before its first number sign, and what counts
  of a stage are the lists of words of its instructions, without the instructions that have none.
\<close>

function words :: "string \<Rightarrow> string list" where
  "words [] = []"
| "words (c # cs) =
     (if is_whitespace c then words cs
      else (c # takeWhile (\<lambda>c. \<not> is_whitespace c) cs) # words (dropWhile (\<lambda>c. \<not> is_whitespace c) cs))"
  by pat_completeness auto
termination
  by (relation "measure length") (auto simp: le_imp_less_Suc length_dropWhile_le)

definition instruction_words :: "string \<Rightarrow> string list" where
  "instruction_words instr = words (takeWhile (\<lambda>c. c \<noteq> CHR ''#'') instr)"

definition stage_words :: "ParsedStage \<Rightarrow> string list list" where
  "stage_words stage = filter (\<lambda>ws. ws \<noteq> []) (map instruction_words (instructions stage))"

text \<open>
  A stage with the stages below it, the base first; the hash of each is the parent hash of the
  next, and the inputs of the digest along the way.
\<close>

fun chain_hash :: "store_ext \<Rightarrow> BuildInputHash option \<Rightarrow> ParsedStage list \<Rightarrow> BuildInputHash option" where
  "chain_hash x parent [] = parent"
| "chain_hash x parent (stage # rest) = chain_hash x (Some (compute_input_hash x stage parent)) rest"

fun chain_inputs :: "store_ext \<Rightarrow> BuildInputHash option \<Rightarrow> ParsedStage list \<Rightarrow> bytes set" where
  "chain_inputs x parent [] = {}"
| "chain_inputs x parent (stage # rest) =
     insert (hash_preimage stage parent) (chain_inputs x (Some (compute_input_hash x stage parent)) rest)"

lemma hash_instructions_lines:
  "hash_instructions ins = concat (map (\<lambda>n. as_bytes n @ [10]) (filter (\<lambda>n. n \<noteq> []) (map normalize_instruction ins)))"
  by (induction ins) (simp_all add: Let_def)

lemma append_separated:
  "c \<notin> set a \<Longrightarrow> c \<notin> set b \<Longrightarrow> a @ c # r = b @ c # r' \<longleftrightarrow> a = b \<and> r = r'"
proof (induction a arbitrary: b)
  case Nil
  then show ?case by (cases b) auto
next
  case (Cons y a)
  then show ?case by (cases b) auto
qed

lemma concat_terminated:
  assumes "\<forall>w \<in> set a. c \<notin> set w" and "\<forall>w \<in> set b. c \<notin> set w"
    and "concat (map (\<lambda>w. w @ [c]) a) = concat (map (\<lambda>w. w @ [c]) b)"
  shows "a = b"
  using assms
proof (induction a arbitrary: b)
  case Nil
  then show ?case by (cases b) auto
next
  case (Cons w a)
  then obtain v b' where b: "b = v # b'" by (cases b) auto
  let ?t = "\<lambda>ws. concat (map (\<lambda>w. w @ [c]) ws)"
  have "w @ c # ?t a = v @ c # ?t b'" "c \<notin> set w" "c \<notin> set v" using Cons.prems b by auto
  then have "w = v \<and> ?t a = ?t b'" using append_separated [of c w v "?t a" "?t b'"] by blast
  moreover have "\<forall>w \<in> set a. c \<notin> set w" "\<forall>w \<in> set b'. c \<notin> set w" using Cons.prems(1,2) b by auto
  ultimately have "w = v \<and> a = b'" using Cons.IH by blast
  then show ?case unfolding b by blast
qed

lemma set_join: "set (join sep ws) \<subseteq> set sep \<union> \<Union> (set ` set ws)"
  by (induction sep ws rule: join.induct) auto

text \<open>The code's white space splitting finds the words, and its joined text determines them.\<close>

lemma split_whitespace_eq_words: "split_whitespace s = words s"
proof (induction s rule: words.induct)
  case 1
  then show ?case by (simp add: split_whitespace_def)
next
  case (2 c cs)
  let ?f = "map (\<lambda>c. if is_whitespace c then CHR '' '' else c)"
  let ?w = "c # takeWhile (\<lambda>c. \<not> is_whitespace c) cs" and ?r = "dropWhile (\<lambda>c. \<not> is_whitespace c) cs"
  show ?case
  proof (cases "is_whitespace c")
    case True
    then show ?thesis using 2 by (simp add: split_whitespace_def)
  next
    case False
    then have nw: "\<forall>d \<in> set ?w. \<not> is_whitespace d" by (auto dest: set_takeWhileD)
    then have w: "?f ?w = ?w" by (intro map_idI) auto
    have "is_whitespace CHR '' ''" by (simp add: is_whitespace_def)
    with nw have free: "CHR '' '' \<notin> set ?w" by blast
    have cs: "c # cs = ?w @ ?r" by simp
    have IH: "split_whitespace ?r = words ?r" using 2(2) False by simp
    have step: "split_whitespace (?w @ ?r) = ?w # split_whitespace ?r"
    proof (cases ?r)
      case Nil
      have "split_char CHR '' '' ?w = [?w]" using free by (rule split_char_id)
      then show ?thesis unfolding Nil split_whitespace_def append_Nil2 w by simp
    next
      case (Cons d ds)
      then have d: "is_whitespace d" by (metis hd_dropWhile list.sel(1) list.distinct(1))
      have e: "?f (?w @ d # ds) = ?w @ CHR '' '' # ?f ds" using w d by simp
      have "split_char CHR '' '' (?w @ CHR '' '' # ?f ds) = ?w # split_char CHR '' '' (?f ds)"
        using free by (rule split_char_append)
      then have "split_whitespace (?w @ d # ds) = ?w # split_whitespace ds"
        unfolding split_whitespace_def e by simp
      moreover have "split_whitespace (d # ds) = split_whitespace ds"
        using d by (simp add: split_whitespace_def)
      ultimately show ?thesis unfolding Cons by simp
    qed
    show ?thesis unfolding cs step IH using False by simp
  qed
qed

lemma words_chars:
  assumes "w \<in> set (words s)"
  shows "w \<noteq> []" and "\<forall>c \<in> set w. \<not> is_whitespace c"
  using assms split_whitespace_words [of w s] by (simp_all add: split_whitespace_eq_words)

lemma normalize_instruction_words: "normalize_instruction i = join '' '' (instruction_words i)"
proof -
  define t where "t = takeWhile (\<lambda>c. c \<noteq> CHR ''#'') i"
  obtain r where i: "i = t @ r" unfolding t_def by (metis takeWhile_dropWhile_id)
  have "(case find_char CHR ''#'' i of Some idx \<Rightarrow> take idx i | None \<Rightarrow> i) = t"
    unfolding find_char_def Let_def t_def [symmetric] by (auto simp: i)
  then show ?thesis
    by (simp add: normalize_instruction_def instruction_words_def split_whitespace_eq_words t_def)
qed

lemma join_words_eq:
  assumes "\<forall>w \<in> set a. w \<noteq> [] \<and> (\<forall>c \<in> set w. \<not> is_whitespace c)"
    and "\<forall>w \<in> set b. w \<noteq> [] \<and> (\<forall>c \<in> set w. \<not> is_whitespace c)"
  shows "join '' '' a = join '' '' b \<longleftrightarrow> a = b"
proof
  assume eq: "join '' '' a = join '' '' b"
  have blank: "is_whitespace CHR '' ''" by (simp add: is_whitespace_def)
  have sp: "ws \<noteq> [] \<Longrightarrow> split_char CHR '' '' (join '' '' ws) = ws"
    if "\<forall>w \<in> set ws. w \<noteq> [] \<and> (\<forall>c \<in> set w. \<not> is_whitespace c)" for ws
    using that blank by (intro split_join) blast+
  have nil: "join '' '' ws = [] \<longleftrightarrow> ws = []"
    if "\<forall>w \<in> set ws. w \<noteq> [] \<and> (\<forall>c \<in> set w. \<not> is_whitespace c)" for ws
    using that by (cases "('' '', ws)" rule: join.cases) auto
  show "a = b" using eq sp [OF assms(1)] sp [OF assms(2)] nil [OF assms(1)] nil [OF assms(2)] by metis
qed simp

lemma instruction_words_chars:
  "\<forall>w \<in> set (instruction_words i). w \<noteq> [] \<and> (\<forall>c \<in> set w. \<not> is_whitespace c)"
  using words_chars by (auto simp: instruction_words_def)

lemma normalize_empty: "normalize_instruction i = [] \<longleftrightarrow> instruction_words i = []"
  using join_words_eq [OF instruction_words_chars [of i], of "[]"] by (simp add: normalize_instruction_words)

text \<open>The lines given to the hasher.\<close>

lemma normalized_lines:
  "filter (\<lambda>n. n \<noteq> []) (map normalize_instruction ins) =
     map (join '' '') (filter (\<lambda>ws. ws \<noteq> []) (map instruction_words ins))"
  by (induction ins) (simp_all add: normalize_empty, simp add: normalize_instruction_words)

lemma stage_words_chars:
  "\<forall>ws \<in> set (stage_words s). \<forall>w \<in> set ws. w \<noteq> [] \<and> (\<forall>c \<in> set w. \<not> is_whitespace c)"
  using instruction_words_chars by (auto simp: stage_words_def)

lemma join_stage_words:
  "map (join '' '') (stage_words s) = map (join '' '') (stage_words t) \<longleftrightarrow> stage_words s = stage_words t"
proof -
  have "inj_on (join '' '') (set (stage_words s) \<union> set (stage_words t))"
    using stage_words_chars [of s] stage_words_chars [of t] by (intro inj_onI) (metis UnE join_words_eq)
  then show ?thesis by (rule inj_on_map_eq_map)
qed

lemma normalize_no_newline: "CHR 0x0A \<notin> set (normalize_instruction i)"
proof
  assume "CHR 0x0A \<in> set (normalize_instruction i)"
  then obtain w where "w \<in> set (instruction_words i)" "CHR 0x0A \<in> set w"
    using set_join [of "'' ''" "instruction_words i"] by (auto simp: normalize_instruction_words)
  then have "\<not> is_whitespace CHR 0x0A" using instruction_words_chars by blast
  then show False by (simp add: is_whitespace_def)
qed

lemma as_bytes_simps [simp]: "as_bytes [] = []" "as_bytes s = as_bytes t \<longleftrightarrow> s = t"
  by (simp add: as_bytes_def) (metis of_bytes_as_bytes)

lemma as_bytes_mem: "word_of_nat (of_char c) \<in> set (as_bytes s) \<longleftrightarrow> c \<in> set s"
proof
  assume "word_of_nat (of_char c) \<in> set (as_bytes s)"
  then obtain d where "d \<in> set s" "as_bytes [c] = as_bytes [d]" by (auto simp: as_bytes_def)
  then show "c \<in> set s" unfolding as_bytes_simps(2) by simp
qed (simp add: as_bytes_def)

lemma hash_instructions_eq:
  "hash_instructions (instructions s) = hash_instructions (instructions t) \<longleftrightarrow> stage_words s = stage_words t"
proof -
  let ?l = "\<lambda>s. filter (\<lambda>n. n \<noteq> []) (map normalize_instruction (instructions s))"
  have lines: "hash_instructions (instructions s) = concat (map (\<lambda>w. w @ [10]) (map as_bytes (?l s)))" for s
    by (simp add: hash_instructions_lines comp_def)
  have free: "\<forall>w \<in> set (map as_bytes (?l s)). 10 \<notin> set w" for s
  proof
    fix w assume "w \<in> set (map as_bytes (?l s))"
    then obtain i where "w = as_bytes (normalize_instruction i)" by auto
    then show "10 \<notin> set w"
      using as_bytes_mem [of "CHR 0x0A" "normalize_instruction i"] normalize_no_newline [of i] by simp
  qed
  have "inj as_bytes" by (rule injI) simp
  then have "hash_instructions (instructions s) = hash_instructions (instructions t) \<longleftrightarrow> ?l s = ?l t"
    unfolding lines using concat_terminated [OF free free] by (metis inj_map_eq_map)
  then show ?thesis by (simp add: normalized_lines join_stage_words flip: stage_words_def)
qed

lemma chain_hash_snoc: "chain_hash x parent (a @ [s]) = Some (compute_input_hash x s (chain_hash x parent a))"
  by (induction x parent a rule: chain_hash.induct) simp_all

lemma chain_inputs_snoc:
  "chain_inputs x parent (a @ [s]) = insert (hash_preimage s (chain_hash x parent a)) (chain_inputs x parent a)"
  by (induction x parent a rule: chain_hash.induct) auto

context store_codec
begin

lemma parent_no_zero: "0 \<notin> set (case chain_hash x None a of Some h \<Rightarrow> as_bytes (input_text h) | None \<Rightarrow> [])"
proof (cases a rule: rev_cases)
  case (snoc a' s)
  have "\<not> is_hex CHR 0x00" by (simp add: is_hex_def is_digit_def)
  then have "CHR 0x00 \<notin> set (hex_encode x bs)" for bs
    using hex_chars [of bs] by (auto simp: list_all_iff)
  then have "(0 :: u8) \<notin> set (as_bytes (hex_encode x bs))" for bs
    using as_bytes_mem [of "CHR 0x00" "hex_encode x bs"] by simp
  with snoc show ?thesis by (simp add: chain_hash_snoc compute_input_hash_def)
qed simp

lemma preimage_eq:
  "hash_preimage s (chain_hash x None a) = hash_preimage t (chain_hash x None b) \<longleftrightarrow>
     chain_hash x None a = chain_hash x None b \<and> stage_words s = stage_words t"
proof
  let ?p = "\<lambda>a. case chain_hash x None a of Some h \<Rightarrow> as_bytes (input_text h) | None \<Rightarrow> []"
  assume "hash_preimage s (chain_hash x None a) = hash_preimage t (chain_hash x None b)"
  then have "?p a @ 0 # hash_instructions (instructions s) = ?p b @ 0 # hash_instructions (instructions t)"
    by (simp add: hash_preimage_def)
  then have eq: "?p a = ?p b" "stage_words s = stage_words t"
    unfolding append_separated [OF parent_no_zero parent_no_zero] by (simp_all add: hash_instructions_eq)
  have some: "chain_hash x None c = None \<longleftrightarrow> ?p c = []" for c
  proof (cases c rule: rev_cases)
    case (snoc c' u)
    have "length (hex_encode x (sha256 x bs)) = 64" for bs by (simp add: hex_length sha_length)
    then have "hex_encode x (sha256 x bs) \<noteq> []" for bs by (metis length_0_conv zero_neq_numeral)
    then have "as_bytes (hex_encode x (sha256 x bs)) \<noteq> as_bytes []" for bs unfolding as_bytes_simps(2) .
    with snoc show ?thesis by (simp add: chain_hash_snoc compute_input_hash_def)
  qed simp
  have "chain_hash x None a = chain_hash x None b"
    using eq(1) some [of a] some [of b] by (auto split: option.splits simp: BuildInputHash.expand)
  with eq(2) show "chain_hash x None a = chain_hash x None b \<and> stage_words s = stage_words t" by simp
next
  assume "chain_hash x None a = chain_hash x None b \<and> stage_words s = stage_words t"
  then show "hash_preimage s (chain_hash x None a) = hash_preimage t (chain_hash x None b)"
    by (simp add: hash_preimage_def hash_instructions_eq)
qed

lemma chain_hash_eq:
  "inj_on (sha256 x) (chain_inputs x None a \<union> chain_inputs x None b) \<Longrightarrow>
     chain_hash x None a = chain_hash x None b \<longleftrightarrow> map stage_words a = map stage_words b"
proof (induction a arbitrary: b rule: rev_induct)
  case Nil
  then show ?case by (cases b rule: rev_cases) (simp_all add: chain_hash_snoc)
next
  case (snoc s a)
  show ?case
  proof (cases b rule: rev_cases)
    case (snoc b' t)
    let ?u = "hash_preimage s (chain_hash x None a)" and ?v = "hash_preimage t (chain_hash x None b')"
    have "?u \<in> chain_inputs x None (a @ [s]) \<union> chain_inputs x None b" "?v \<in> chain_inputs x None (a @ [s]) \<union> chain_inputs x None b"
      by (simp_all add: chain_inputs_snoc snoc)
    then have "sha256 x ?u = sha256 x ?v \<longleftrightarrow> ?u = ?v" by (rule inj_on_eq_iff [OF snoc.prems])
    moreover have "inj_on (sha256 x) (chain_inputs x None a \<union> chain_inputs x None b')"
      using snoc.prems by (rule inj_on_subset) (auto simp: snoc chain_inputs_snoc)
    ultimately show ?thesis
      using snoc.IH [of b'] snoc by (auto simp: chain_hash_snoc compute_input_hash_def preimage_eq)
  qed (simp add: chain_hash_snoc)
qed

end


text \<open>Two stages on different bases; the digest of the sample codec has no collision on their texts.\<close>

definition sample_stage :: "string \<Rightarrow> string \<Rightarrow> ParsedStage" where
  "sample_stage base step =
     \<lparr>stage_name = ''app'', parent_name = None, layer_name = ''app'', stage_order = 0,
      instructions = [''FROM  '' @ base, ''# comment'', step]\<rparr>"


section \<open>Output hashes\<close>

text \<open>
  The loop reads into a buffer of \<open>n\<close> bytes until a read returns nothing; an error ends it. A file
  opened for reading is the list of what its reads deliver.
\<close>

function hash_file :: "nat \<Rightarrow> bytes \<Rightarrow> read_event list \<Rightarrow> string + bytes" where
  "hash_file n acc [] = Inr acc"
| "hash_file n acc (NotReady # es) = hash_file n acc es"
| "hash_file n acc (Failure e # es) = Inl e"
| "hash_file n acc (Chunk c # es) =
     (if c = [] \<or> n = 0 then Inr acc
      else hash_file n (acc @ take n c) (if length c \<le> n then es else Chunk (drop n c) # es))"
  by pat_completeness auto
termination
  by (relation "measure (\<lambda>(n, acc, es). sum_list (map (\<lambda>e. case e of Chunk c \<Rightarrow> Suc (length c) | _ \<Rightarrow> 1) es))") auto

declare hash_file.simps(4) [simp del]

lemma hash_file_drain:
  "0 < n \<Longrightarrow> hash_file n acc es = (case drain es of Inl e \<Rightarrow> Inl e | Inr d \<Rightarrow> Inr (acc @ d))"
proof (induction n acc es rule: hash_file.induct)
  case (4 n acc c es)
  show ?case
  proof (cases "c = []")
    case True
    then show ?thesis by (simp add: hash_file.simps(4))
  next
    case False
    let ?rest = "if length c \<le> n then es else Chunk (drop n c) # es"
    have "hash_file n acc (Chunk c # es) = hash_file n (acc @ take n c) ?rest"
      using False "4.prems" by (subst hash_file.simps(4)) simp
    moreover have "hash_file n (acc @ take n c) ?rest =
        (case drain ?rest of Inl e \<Rightarrow> Inl e | Inr d \<Rightarrow> Inr ((acc @ take n c) @ d))"
      using "4.IH" False "4.prems" by blast
    ultimately show ?thesis using False by (auto split: sum.splits)
  qed
qed simp_all

text \<open>Everything from the first number sign on is ignored, inside a quoted argument too.\<close>

lemma normalize_cut:
  assumes "CHR ''#'' \<notin> set a"
  shows "normalize_instruction (a @ CHR ''#'' # b) = normalize_instruction a"
proof -
  have t: "takeWhile (\<lambda>c. c \<noteq> CHR ''#'') (a @ CHR ''#'' # b) = a" "takeWhile (\<lambda>c. c \<noteq> CHR ''#'') a = a"
    using assms by (induction a) auto
  show ?thesis unfolding normalize_instruction_def find_char_def t by simp
qed

end
