(* ===== verification/Build_Format.thy ===== *)
theory Build_Format
  imports Build_Hash Host_Os "HOL-Library.Log_Nat"
begin

text \<open>
  The artifacts of a layer: packing and unpacking in \<^verbatim>\<open>build-system/src/converter.rs\<close>, the output
  hash of \<^verbatim>\<open>hasher.rs\<close> and the call of BuildKit in \<^verbatim>\<open>buildkit.rs\<close>. The programs that are run
  and the file system are answers of the host; \<open>build_os\<close> extends those of the control plane.

  The size of the file system image is computed with 64-bit floating point numbers. Every value is a
  whole number of units in the last place, so that rounding to 53 bits, ties to even, on natural
  numbers gives the exact result.
\<close>

section \<open>The host of a build\<close>

text \<open>
  \<open>file_stream\<close> opens a file and gives what its reads deliver, \<open>walk\<close> lists the entries below a
  directory, each with its kind and the answer to a request for its length. A server call is delivered, refused, cut after some items of its
  request stream, or loses its reply.
\<close>

datatype transport = Delivered | Refused string | CutAfter nat string | ReplyLost string

record build_os = os +
  file_stream :: "string \<Rightarrow> call list \<Rightarrow> string + read_event list"
  file_len :: "string \<Rightarrow> call list \<Rightarrow> string + u64"
  walk :: "string \<Rightarrow> call list \<Rightarrow> (string + bool \<times> (string + u64)) list"
  now_secs :: "call list \<Rightarrow> u64"
  now_millis :: "call list \<Rightarrow> nat option"
  host_name :: "call list \<Rightarrow> string + string"
  new_uuid :: "call list \<Rightarrow> string"
  wire :: "string \<Rightarrow> call list \<Rightarrow> transport"

text \<open>The question mark operator turns an I/O error into an \<open>anyhow::Error\<close>.\<close>

abbreviation io :: "('s, string, 'a) op \<Rightarrow> ('s, build_error, 'a) op" where
  "io m \<equiv> map_err BuildError m"

section \<open>Paths\<close>

text \<open>
  \<open>Path::parent\<close> and \<open>Path::file_name\<close> work on components: empty pieces and single dots do not count,
  except a dot at the start of a relative path.
\<close>

definition no_component :: "string \<Rightarrow> bool" where
  "no_component p \<longleftrightarrow> p = [] \<or> p = ''.''"

definition path_root :: "string \<Rightarrow> string" where
  "path_root s = (if prefix ''/'' s then ''/'' else if s = ''.'' \<or> prefix ''./'' s then ''.'' else [])"

definition path_body :: "string \<Rightarrow> string list" where
  "path_body s =
     dropWhile no_component (rev (split_char CHR ''/''
       (if prefix ''/'' s then drop 1 s else if prefix ''./'' s then drop 2 s else s)))"

definition path_parent :: "string \<Rightarrow> string option" where
  "path_parent s =
     (case path_body s of
        [] \<Rightarrow> (if path_root s = ''.'' then Some [] else None)
      | _ # front \<Rightarrow>
          (let kept = join ''/'' (rev (dropWhile no_component front))
           in Some (if path_root s = ''.'' \<and> kept \<noteq> [] then ''./'' @ kept else path_root s @ kept)))"

definition path_file_name :: "string \<Rightarrow> string option" where
  "path_file_name s = (case path_body s of [] \<Rightarrow> None | p # _ \<Rightarrow> if p = ''..'' then None else Some p)"

section \<open>Floating point\<close>

text \<open>A natural number rounded to 53 significant bits, ties to even.\<close>

definition round53 :: "nat \<Rightarrow> nat" where
  "round53 n =
     (if n < 2 ^ 53 then n
      else let k = floorlog 2 n - 53; q = n div 2 ^ k; r = n mod 2 ^ k; half = 2 ^ (k - 1)
           in (if half < r \<or> (r = half \<and> odd q) then Suc q else q) * 2 ^ k)"

text \<open>
  The size of the image in MiB: \<open>1.1\<close> is the number 4953959590107546 in units of \<open>2 ^ -52\<close>, and the
  division by \<open>1024 * 1024\<close> is exact.
\<close>

definition ext4_size_mb :: "u64 \<Rightarrow> u64" where
  "ext4_size_mb size_bytes =
     (let scaled = round53 (round53 (unat size_bytes) * 4953959590107546);
          mb = (word_of_nat ((scaled + 2 ^ 72 - 1) div 2 ^ 72) :: u64);
          rounded = ((mb + 3) div 4) * 4
      in max rounded 64)"

lemma round53_close:
  "n * (2 ^ 53 - 1) \<le> round53 n * 2 ^ 53 \<and> round53 n * 2 ^ 53 \<le> n * (2 ^ 53 + 1)"
proof (cases "n < 2 ^ 53")
  case True
  then show ?thesis by (simp add: round53_def algebra_simps)
next
  case False
  define k where "k = floorlog 2 n - 53"
  have big: "2 ^ 53 \<le> n" using False by simp
  have fl: "2 ^ (floorlog 2 n - 1) \<le> n" "n < 2 ^ floorlog 2 n"
    using floorlog_bounds [of n 2] big by auto
  have "53 < floorlog 2 n"
  proof (rule ccontr)
    assume "\<not> 53 < floorlog 2 n"
    then have "(2::nat) ^ floorlog 2 n \<le> 2 ^ 53" by (intro power_increasing) auto
    with fl(2) big show False by linarith
  qed
  then have k: "0 < k" "floorlog 2 n - 1 = 52 + k" by (auto simp: k_def)
  define q r where "q = n div 2 ^ k" and "r = n mod 2 ^ k"
  have n: "n = q * 2 ^ k + r" unfolding q_def r_def by (rule div_mult_mod_eq [symmetric])
  have two: "(2::nat) ^ k = 2 * 2 ^ (k - 1)" using k(1) by (cases k) simp_all
  have r: "r < 2 * 2 ^ (k - 1)" unfolding two [symmetric] by (simp add: r_def)
  have low: "2 ^ 53 * 2 ^ (k - 1) \<le> n"
    using fl(1) k two by (simp add: power_add)
  have R: "round53 n = (if 2 ^ (k - 1) < r \<or> (r = 2 ^ (k - 1) \<and> odd q) then Suc q else q) * 2 ^ k"
    using False by (simp add: round53_def Let_def k_def [symmetric] q_def [symmetric] r_def [symmetric])
  have up: "round53 n \<le> n + 2 ^ (k - 1)" and dn: "n \<le> round53 n + 2 ^ (k - 1)"
    using R n r two by (auto split: if_splits)
  show ?thesis using up dn low by (auto simp: algebra_simps)
qed

section \<open>Packing\<close>

text \<open>\<open>compute_output_hash\<close> with the buffer of 8192 bytes.\<close>

definition compute_output_hash :: "'x build_os_scheme \<Rightarrow> store_ext \<Rightarrow> string \<Rightarrow> ('s sys_state_scheme, build_error, OutputHash) op" where
  "compute_output_hash os x path =
     and_then (io (perform (OpenFile path) (file_stream os path))) (\<lambda>es.
     and_then (io (lift_res (hash_file 8192 [] es))) (\<lambda>d.
     ret_ok (OutputHash (hex_encode x (sha256 x d)))))"

text \<open>The loop of \<open>get_dir_size\<close>; the sum wraps like the addition of a release build.\<close>

fun sum_entries :: "u64 \<Rightarrow> (string + bool \<times> (string + u64)) list \<Rightarrow> string + u64" where
  "sum_entries total_size [] = Inr total_size"
| "sum_entries total_size (Inl e # entries) = Inl e"
| "sum_entries total_size (Inr (is_file, len) # entries) =
     (if is_file then (case len of Inl e \<Rightarrow> Inl e | Inr n \<Rightarrow> sum_entries (total_size + n) entries)
      else sum_entries total_size entries)"

definition get_dir_size :: "'x build_os_scheme \<Rightarrow> string \<Rightarrow> ('s sys_state_scheme, build_error, u64) op" where
  "get_dir_size os path =
     and_then (perform (WalkDir path) (\<lambda>tr. Inr (walk os path tr))) (\<lambda>entries. io (lift_res (sum_entries 0 entries)))"

definition status_or :: "'x build_os_scheme \<Rightarrow> string \<Rightarrow> string \<Rightarrow> string list \<Rightarrow> ('s sys_state_scheme, build_error, unit) op" where
  "status_or os msg prog args =
     and_then (io (run_command os prog args)) (\<lambda>(success, _). if success then ret_ok () else ret_err (BuildError msg))"

record LayerArtifacts =
  deploy_artifact :: string
  build_cache_artifact :: string
  artifact_hash :: OutputHash

definition pack :: "'x build_os_scheme \<Rightarrow> store_ext \<Rightarrow> string \<Rightarrow> string \<Rightarrow> ('s sys_state_scheme, build_error, LayerArtifacts) op" where
  "pack os x source_dir output_dir =
     (let ext4_path = path_join output_dir ''layer.ext4'';
          ext4_zst_path = path_join output_dir ''layer.ext4.zst'';
          oci_tar_path = path_join output_dir ''layer.oci.tar'';
          oci_tar_zst_path = path_join output_dir ''layer.oci.tar.zst''
      in and_then (get_dir_size os source_dir) (\<lambda>size_bytes.
         and_then (status_or os ''mke2fs failed'' ''mke2fs''
           [''-t'', ''ext4'', ''-d'', source_dir, ext4_path, show_word (ext4_size_mb size_bytes) @ ''M'']) (\<lambda>_.
         and_then (compute_output_hash os x ext4_path) (\<lambda>output_hash.
         and_then (status_or os ''zstd failed for ext4'' ''zstd'' [''-19'', ext4_path, ''-o'', ext4_zst_path]) (\<lambda>_.
         and_then (status_or os ''tar failed'' ''tar'' [''-cf'', oci_tar_path, ''-C'', source_dir, ''.'']) (\<lambda>_.
         and_then (status_or os ''zstd failed for OCI'' ''zstd'' [''-19'', oci_tar_path, ''-o'', oci_tar_zst_path]) (\<lambda>_.
         and_then (ignore (sys_call os (RemoveFile ext4_path))) (\<lambda>_.
         and_then (ignore (sys_call os (RemoveFile oci_tar_path))) (\<lambda>_.
         ret_ok \<lparr>deploy_artifact = ext4_zst_path, build_cache_artifact = oci_tar_zst_path,
                 artifact_hash = output_hash\<rparr>)))))))))"

definition unpack_for_build :: "'x build_os_scheme \<Rightarrow> string \<Rightarrow> string \<Rightarrow> ('s sys_state_scheme, build_error, unit) op" where
  "unpack_for_build os artifact target =
     (let tmp_tar = path_join target ''tmp.tar''
      in and_then (status_or os ''zstd decompress failed'' ''zstd'' [''-d'', artifact, ''-o'', tmp_tar]) (\<lambda>_.
         and_then (status_or os ''tar unpack failed'' ''tar'' [''-xf'', tmp_tar, ''-C'', target]) (\<lambda>_.
         ignore (sys_call os (RemoveFile tmp_tar)))))"

section \<open>Building a stage\<close>

record SolveRequest =
  req_stage_name :: string
  dockerfile_path :: string
  context_path :: string
  parent_cache_override :: "(string \<times> string) option"
  export_dir :: string

definition buildctl_args :: "SolveRequest \<Rightarrow> string list" where
  "buildctl_args req =
     [''build'', ''--frontend'', ''dockerfile.v0'',
      ''--local'', ''context='' @ context_path req,
      ''--local'', ''dockerfile='' @ (case path_parent (dockerfile_path req) of Some p \<Rightarrow> p | None \<Rightarrow> ''.''),
      ''--opt'', ''filename='' @ (case path_file_name (dockerfile_path req) of Some n \<Rightarrow> n | None \<Rightarrow> []),
      ''--opt'', ''target='' @ req_stage_name req,
      ''--output'', ''type=local,dest='' @ export_dir req] @
     (case parent_cache_override req of
        Some (parent_stage, oci_dir) \<Rightarrow> [''--opt'', ''context:'' @ parent_stage @ ''=oci-layout://'' @ oci_dir]
      | None \<Rightarrow> [])"

definition solve_stage :: "'x build_os_scheme \<Rightarrow> SolveRequest \<Rightarrow> ('s sys_state_scheme, build_error, string) op" where
  "solve_stage os req =
     and_then (status_or os ''buildctl failed'' ''buildctl'' (buildctl_args req)) (\<lambda>_. ret_ok (export_dir req))"

section \<open>Properties\<close>

text \<open>The result before the conversion to 64 bits fits by far.\<close>

lemma scaled_mb_bound:
  fixes sz :: u64
  defines "mb \<equiv> (round53 (round53 (unat sz) * 4953959590107546) + 2 ^ 72 - 1) div 2 ^ 72"
  shows "unat sz \<le> mb * 2 ^ 20" and "1000 * (mb * 2 ^ 20) \<le> 1101 * unat sz + 1000 * 2 ^ 20" and "mb < 2 ^ 46"
proof -
  define f where "f = round53 (unat sz)"
  define p where "p = round53 (f * 4953959590107546)"
  have f: "unat sz * (2 ^ 53 - 1) \<le> f * 2 ^ 53" "f * 2 ^ 53 \<le> unat sz * (2 ^ 53 + 1)"
    using round53_close [of "unat sz"] by (simp_all add: f_def)
  have p: "f * 4953959590107546 * (2 ^ 53 - 1) \<le> p * 2 ^ 53" "p * 2 ^ 53 \<le> f * 4953959590107546 * (2 ^ 53 + 1)"
    using round53_close [of "f * 4953959590107546"] by (simp_all add: p_def)
  have mb: "mb = (p + 2 ^ 72 - 1) div 2 ^ 72" by (simp add: mb_def p_def f_def)
  have m: "p \<le> mb * 2 ^ 72" "mb * 2 ^ 72 \<le> p + 2 ^ 72 - 1"
    unfolding mb by simp_all
  have lo: "unat sz * 2 ^ 52 \<le> p" using f(1) p(1) by simp
  have hi: "1000 * p \<le> 1101 * unat sz * 2 ^ 52" using f(2) p(2) by simp
  show "unat sz \<le> mb * 2 ^ 20" using lo m(1) by simp
  show up: "1000 * (mb * 2 ^ 20) \<le> 1101 * unat sz + 1000 * 2 ^ 20" using hi m(2) by simp
  show "mb < 2 ^ 46" using up unat_bound [of sz] by simp
qed

text \<open>
  C30. The image that is made for a directory is a multiple of four MiB, at least 64 MiB, holds the
  bytes of the directory and exceeds them, when it is larger than 64 MiB, by at most 10.1 per cent and
  four MiB: neither the rounding of the floating point numbers nor the width of the integers breaks
  this for any directory size.
\<close>

theorem ext4_size_bounds:
  "64 \<le> unat (ext4_size_mb sz) \<and> 4 dvd unat (ext4_size_mb sz) \<and>
   unat sz \<le> unat (ext4_size_mb sz) * 2 ^ 20 \<and>
   (unat (ext4_size_mb sz) = 64 \<or> 1000 * (unat (ext4_size_mb sz) * 2 ^ 20) \<le> 1101 * unat sz + 4000 * 2 ^ 20)"
proof -
  let ?n = "(round53 (round53 (unat sz) * 4953959590107546) + 2 ^ 72 - 1) div 2 ^ 72"
  note b = scaled_mb_bound [of sz]
  define w where "w = (word_of_nat ?n :: u64)"
  have w: "unat w = ?n" using b(3) by (simp add: w_def unat_of_nat take_bit_nat_eq_self)
  have r: "unat (((w + 3) div 4) * 4) = (?n + 3) div 4 * 4"
  proof -
    have "unat (w + 3) = ?n + 3" using w b(3) by (simp add: unat_plus_simple [THEN iffD1] unat_word_ariths)
    then show ?thesis using b(3) by (simp add: unat_mult_lem [THEN iffD1] unat_div unat_word_ariths)
  qed
  have e: "unat (ext4_size_mb sz) = max ((?n + 3) div 4 * 4) 64"
    unfolding ext4_size_mb_def Let_def w_def [symmetric]
    using r by (simp add: max_def word_le_nat_alt)
  have n: "?n \<le> (?n + 3) div 4 * 4" "(?n + 3) div 4 * 4 \<le> ?n + 3" by simp_all
  show ?thesis unfolding e using b(1,2) n by (auto simp: max_def)
qed

lemma makes_build [trace_intros]:
  "P (OpenFile path) \<Longrightarrow> makes P (compute_output_hash os x path)"
  "P (WalkDir path) \<Longrightarrow> makes P (get_dir_size os path)"
  "P (Run prog args) \<Longrightarrow> makes P (status_or os msg prog args)"
  by (auto simp: compute_output_hash_def get_dir_size_def status_or_def split_beta intro!: trace_intros)

lemma status_or_Inr: "status_or os msg prog args s = (Inr u, t) \<longleftrightarrow>
    (\<exists>err. run os prog args (trace s) = Inr (True, err)) \<and> t = s\<lparr>trace := trace s @ [Run prog args]\<rparr>"
  by (auto simp: status_or_def and_then_Inr run_command_def perform_def split: if_splits)

lemma get_dir_size_Inr: "get_dir_size os path s = (Inr n, t) \<longleftrightarrow>
    sum_entries 0 (walk os path (trace s)) = Inr n \<and> t = s\<lparr>trace := trace s @ [WalkDir path]\<rparr>"
  by (auto simp: get_dir_size_def and_then_Inr perform_def lift_res_def)

lemma compute_output_hash_Inr: "compute_output_hash os x path s = (Inr h, t) \<longleftrightarrow>
    (\<exists>es d. file_stream os path (trace s) = Inr es \<and> drain es = Inr d \<and> h = OutputHash (hex_encode x (sha256 x d))) \<and>
    t = s\<lparr>trace := trace s @ [OpenFile path]\<rparr>"
  by (auto simp: compute_output_hash_def op_defs perform_def hash_file_drain split: sum.splits prod.splits)

lemma sum_entries_Inr:
  "sum_entries n es = Inr m \<Longrightarrow> m = n + sum_list (map (\<lambda>e. case e of Inr (True, Inr len) \<Rightarrow> len | _ \<Rightarrow> 0) es)"
  by (induction n es rule: sum_entries.induct) (auto split: sum.splits if_splits simp: algebra_simps)

text \<open>The calls of a packing run on a directory with \<open>n\<close> bytes.\<close>

definition image_calls :: "string \<Rightarrow> string \<Rightarrow> u64 \<Rightarrow> call list" where
  "image_calls source_dir output_dir n =
     [WalkDir source_dir,
      Run ''mke2fs'' [''-t'', ''ext4'', ''-d'', source_dir, path_join output_dir ''layer.ext4'', show_word (ext4_size_mb n) @ ''M'']]"

definition compress_calls :: "string \<Rightarrow> string \<Rightarrow> call list" where
  "compress_calls source_dir output_dir =
     (let raw = path_join output_dir ''layer.ext4''; tar = path_join output_dir ''layer.oci.tar''
      in [Run ''zstd'' [''-19'', raw, ''-o'', path_join output_dir ''layer.ext4.zst''],
          Run ''tar'' [''-cf'', tar, ''-C'', source_dir, ''.''],
          Run ''zstd'' [''-19'', tar, ''-o'', path_join output_dir ''layer.oci.tar.zst''],
          RemoveFile raw, RemoveFile tar])"

text \<open>Every program of a list of calls exits with status zero.\<close>

fun succeeded :: "'x build_os_scheme \<Rightarrow> call list \<Rightarrow> call list \<Rightarrow> bool" where
  "succeeded os tr [] \<longleftrightarrow> True"
| "succeeded os tr (c # cs) \<longleftrightarrow>
     (case c of Run prog args \<Rightarrow> (case run os prog args tr of Inr (success, _) \<Rightarrow> success | Inl _ \<Rightarrow> False) | _ \<Rightarrow> True) \<and>
     succeeded os (tr @ [c]) cs"

lemma status_or_succeeded: "status_or os msg prog args s = (Inr u, t) \<longleftrightarrow>
    succeeded os (trace s) [Run prog args] \<and> t = s\<lparr>trace := trace s @ [Run prog args]\<rparr>"
  by (auto simp: status_or_Inr split: sum.splits)

lemma succeeded_step:
  "succeeded os tr (c # d # cs) \<longleftrightarrow> succeeded os tr [c] \<and> succeeded os (tr @ [c]) (d # cs)"
  "succeeded os tr [WalkDir p]" "succeeded os tr [OpenFile p]" "succeeded os tr [RemoveFile p]"
  by simp_all

declare succeeded.simps(2) [simp del]

text \<open>
  Packing succeeds exactly when the directory can be measured, every program exits with status
  zero and the image can be read; it then has made one image of the computed size, hashed the bytes of
  the image as they were before compression, compressed the image and an archive of the directory and
  removed the intermediate files, in this order.
\<close>

theorem pack_exact:
  "pack os x source_dir output_dir s = (Inr a, t) \<longleftrightarrow>
   (\<exists>n es d. sum_entries 0 (walk os source_dir (trace s)) = Inr n \<and>
      file_stream os (path_join output_dir ''layer.ext4'') (trace s @ image_calls source_dir output_dir n) = Inr es \<and>
      drain es = Inr d \<and>
      (let calls = image_calls source_dir output_dir n @ [OpenFile (path_join output_dir ''layer.ext4'')] @
             compress_calls source_dir output_dir
       in succeeded os (trace s) calls \<and> t = s\<lparr>trace := trace s @ calls\<rparr>) \<and>
      a = \<lparr>deploy_artifact = path_join output_dir ''layer.ext4.zst'',
           build_cache_artifact = path_join output_dir ''layer.oci.tar.zst'',
           artifact_hash = OutputHash (hex_encode x (sha256 x d))\<rparr>)"
proof -
  have remove: "ignore (sys_call os c) u = (Inr v, w) \<longleftrightarrow> w = u\<lparr>trace := trace u @ [c]\<rparr>" for c u v w
    by (auto simp: ignore_def sys_call_def perform_def)
  show ?thesis
    unfolding pack_def Let_def and_then_Inr get_dir_size_Inr status_or_succeeded compute_output_hash_Inr remove
      ret_ok_Inr image_calls_def compress_calls_def
    by (auto simp: succeeded_step)
qed

end
