(* ===== verification/Store_Backend.thy ===== *)
theory Store_Backend
  imports Layer_Types
begin

text \<open>
  The storage interface of the layer store, \<^verbatim>\<open>fs-storage/src/traits.rs\<close>, and its in-memory
  implementation, \<^verbatim>\<open>fs-storage/src/backends/memory.rs\<close>.

  A backend is a record of its methods over a state of its own. The locale \<open>storage_backend\<close> is
  its contract: the state shows two partial maps, blobs by hash and format and documents by
  key; a method that fails leaves both as they were. The flag \<open>overwrites\<close> says
  whether a blob that is already there is always read and stored again; without it the upload may be
  skipped, which leaves the blob and the reader as they are. \<open>reliable_backend\<close> adds that methods
  fail only when the caller's reader does. The in-memory backend satisfies both.
\<close>

section \<open>The interface\<close>

record 'b StorageBackend =
  has_blob :: "ContentHash \<Rightarrow> ArtifactFormat \<Rightarrow> ('b, StoreError, bool) op"
  put_blob :: "ContentHash \<Rightarrow> ArtifactFormat \<Rightarrow> HashingReader \<Rightarrow> 'b \<Rightarrow> (StoreError + unit) \<times> HashingReader \<times> 'b"
  get_blob :: "ContentHash \<Rightarrow> ArtifactFormat \<Rightarrow> ('b, StoreError, reader) op"
  delete_blob :: "ContentHash \<Rightarrow> ArtifactFormat \<Rightarrow> ('b, StoreError, unit) op"
  put_meta :: "string \<Rightarrow> bytes \<Rightarrow> ('b, StoreError, unit) op"
  get_meta :: "string \<Rightarrow> ('b, StoreError, bytes option) op"
  list_meta :: "string \<Rightarrow> ('b, StoreError, string list) op"
  delete_meta :: "string \<Rightarrow> ('b, StoreError, unit) op"

text \<open>The sections of the key space that the layer store lists.\<close>

definition meta_sections :: "string list" where
  "meta_sections = [''index/'', ''layers/'', ''builds/'', ''manifests/'', ''tags/'']"

locale storage_backend =
  fixes b :: "'b StorageBackend"
    and blobs :: "'b \<Rightarrow> ContentHash \<times> ArtifactFormat \<Rightarrow> bytes option"
    and metas :: "'b \<Rightarrow> string \<Rightarrow> bytes option"
    and ok :: "'b \<Rightarrow> bool"
    and key_ok :: "string \<Rightarrow> bool"
    and overwrites :: bool
  assumes has_blob_spec:
      "ok s \<Longrightarrow> has_blob b h f s = (rb, s') \<Longrightarrow>
         ok s' \<and> blobs s' = blobs s \<and> metas s' = metas s \<and> (\<forall>present. rb = Inr present \<longrightarrow> present = (blobs s (h, f) \<noteq> None))"
    and put_blob_spec:
      "ok s \<Longrightarrow> put_blob b h f hr s = (ru, hr', s') \<Longrightarrow>
         ok s' \<and> metas s' = metas s \<and>
         (\<forall>e. ru = Inl e \<longrightarrow> blobs s' = blobs s) \<and>
         (ru = Inr () \<longrightarrow> (\<exists>d. blobs s' = (blobs s)((h, f) \<mapsto> d) \<and>
            (\<not> overwrites \<and> blobs s (h, f) = Some d \<and> hr' = hr \<or>
             drain (events (inner hr)) = Inr d \<and> hasher hr' = hasher hr @ d)))"
    and get_blob_spec:
      "ok s \<Longrightarrow> get_blob b h f s = (rr, s') \<Longrightarrow>
         ok s' \<and> blobs s' = blobs s \<and> metas s' = metas s \<and>
         (\<forall>rd. rr = Inr rd \<longrightarrow> (\<exists>d. blobs s (h, f) = Some d \<and> drain (events rd) = Inr d)) \<and>
         (rr = Inl NotFound \<longrightarrow> blobs s (h, f) = None)"
    and delete_blob_spec:
      "ok s \<Longrightarrow> delete_blob b h f s = (ru, s') \<Longrightarrow>
         ok s' \<and> metas s' = metas s \<and> blobs s' = (case ru of Inl e \<Rightarrow> blobs s | Inr u \<Rightarrow> (blobs s)((h, f) := None))"
    and put_meta_spec:
      "ok s \<Longrightarrow> key_ok k \<Longrightarrow> put_meta b k v s = (ru, s') \<Longrightarrow>
         ok s' \<and> blobs s' = blobs s \<and> metas s' = (case ru of Inl e \<Rightarrow> metas s | Inr u \<Rightarrow> (metas s)(k \<mapsto> v))"
    and get_meta_frame:
      "ok s \<Longrightarrow> get_meta b k s = (rm, s') \<Longrightarrow> ok s' \<and> blobs s' = blobs s \<and> metas s' = metas s"
    and get_meta_spec:
      "ok s \<Longrightarrow> key_ok k \<Longrightarrow> get_meta b k s = (Inr w, s') \<Longrightarrow> w = metas s k"
    and list_meta_spec:
      "ok s \<Longrightarrow> p \<in> set meta_sections \<Longrightarrow> list_meta b p s = (rl, s') \<Longrightarrow>
         ok s' \<and> blobs s' = blobs s \<and> metas s' = metas s \<and>
         (\<forall>ks. rl = Inr ks \<longrightarrow> distinct ks \<and> set ks = {k. metas s k \<noteq> None \<and> prefix p k})"
    and delete_meta_spec:
      "ok s \<Longrightarrow> key_ok k \<Longrightarrow> delete_meta b k s = (ru, s') \<Longrightarrow>
         ok s' \<and> blobs s' = blobs s \<and> metas s' = (case ru of Inl e \<Rightarrow> metas s | Inr u \<Rightarrow> (metas s)(k := None))"

locale reliable_backend = storage_backend +
  assumes has_blob_returns: "ok s \<Longrightarrow> \<exists>present. fst (has_blob b h f s) = Inr present"
    and put_blob_returns: "ok s \<Longrightarrow> drain (events (inner hr)) = Inr d \<Longrightarrow> fst (put_blob b h f hr s) = Inr ()"
    and get_blob_returns: "ok s \<Longrightarrow> blobs s (h, f) = Some d \<Longrightarrow> \<exists>rd. fst (get_blob b h f s) = Inr rd"
    and get_blob_missing: "ok s \<Longrightarrow> blobs s (h, f) = None \<Longrightarrow> fst (get_blob b h f s) = Inl NotFound"
    and delete_blob_returns: "ok s \<Longrightarrow> fst (delete_blob b h f s) = Inr ()"
    and put_meta_returns: "ok s \<Longrightarrow> key_ok k \<Longrightarrow> fst (put_meta b k v s) = Inr ()"
    and get_meta_returns: "ok s \<Longrightarrow> key_ok k \<Longrightarrow> \<exists>w. fst (get_meta b k s) = Inr w"
    and list_meta_returns: "ok s \<Longrightarrow> p \<in> set meta_sections \<Longrightarrow> \<exists>ks. fst (list_meta b p s) = Inr ks"
    and delete_meta_returns: "ok s \<Longrightarrow> key_ok k \<Longrightarrow> fst (delete_meta b k s) = Inr ()"

section \<open>The in-memory backend\<close>

text \<open>
  The maps keep the order in which keys were first inserted; the order in which the
  \<open>HashMap\<close> of the source enumerates its keys is unspecified, and no statement depends on it.
\<close>

record InMemoryBackend =
  mem_blobs :: "((ContentHash \<times> ArtifactFormat) \<times> bytes) list"
  mem_meta :: "(string \<times> bytes) list"

definition new_InMemoryBackend :: InMemoryBackend where
  "new_InMemoryBackend = \<lparr>mem_blobs = [], mem_meta = []\<rparr>"

definition mem_has_blob :: "ContentHash \<Rightarrow> ArtifactFormat \<Rightarrow> (InMemoryBackend, StoreError, bool) op" where
  "mem_has_blob h f s = (Inr (map_of (mem_blobs s) (h, f) \<noteq> None), s)"

definition mem_put_blob ::
  "ContentHash \<Rightarrow> ArtifactFormat \<Rightarrow> HashingReader \<Rightarrow> InMemoryBackend \<Rightarrow> (StoreError + unit) \<times> HashingReader \<times> InMemoryBackend" where
  "mem_put_blob h f hr s =
     (case copy_all [] hr of
        (Inl e, hr') \<Rightarrow> (Inl e, hr', s)
      | (Inr d, hr') \<Rightarrow> (Inr (), hr', s\<lparr>mem_blobs := AList.update (h, f) d (mem_blobs s)\<rparr>))"

definition mem_get_blob :: "ContentHash \<Rightarrow> ArtifactFormat \<Rightarrow> (InMemoryBackend, StoreError, reader) op" where
  "mem_get_blob h f s =
     (case map_of (mem_blobs s) (h, f) of
        Some d \<Rightarrow> (Inr \<lparr>events = [Chunk d]\<rparr>, s)
      | None \<Rightarrow> (Inl NotFound, s))"

definition mem_delete_blob :: "ContentHash \<Rightarrow> ArtifactFormat \<Rightarrow> (InMemoryBackend, StoreError, unit) op" where
  "mem_delete_blob h f s = (Inr (), s\<lparr>mem_blobs := AList.delete (h, f) (mem_blobs s)\<rparr>)"

definition mem_put_meta :: "string \<Rightarrow> bytes \<Rightarrow> (InMemoryBackend, StoreError, unit) op" where
  "mem_put_meta k v s = (Inr (), s\<lparr>mem_meta := AList.update k v (mem_meta s)\<rparr>)"

definition mem_get_meta :: "string \<Rightarrow> (InMemoryBackend, StoreError, bytes option) op" where
  "mem_get_meta k s = (Inr (map_of (mem_meta s) k), s)"

definition mem_list_meta :: "string \<Rightarrow> (InMemoryBackend, StoreError, string list) op" where
  "mem_list_meta p s = (Inr (filter (\<lambda>k. starts_with k p) (map fst (mem_meta s))), s)"

definition mem_delete_meta :: "string \<Rightarrow> (InMemoryBackend, StoreError, unit) op" where
  "mem_delete_meta k s = (Inr (), s\<lparr>mem_meta := AList.delete k (mem_meta s)\<rparr>)"

definition memory_backend :: "InMemoryBackend StorageBackend" where
  "memory_backend =
     \<lparr>has_blob = mem_has_blob, put_blob = mem_put_blob, get_blob = mem_get_blob, delete_blob = mem_delete_blob,
      put_meta = mem_put_meta, get_meta = mem_get_meta, list_meta = mem_list_meta, delete_meta = mem_delete_meta\<rparr>"

lemmas mem_defs =
  memory_backend_def mem_has_blob_def mem_put_blob_def mem_get_blob_def mem_delete_blob_def
  mem_put_meta_def mem_get_meta_def mem_list_meta_def mem_delete_meta_def

text \<open>The methods of the record, without unfolding it.\<close>

lemma mem_run:
  "put_meta memory_backend k v s = (Inr (), s\<lparr>mem_meta := AList.update k v (mem_meta s)\<rparr>)"
  "get_meta memory_backend k s = (Inr (map_of (mem_meta s) k), s)"
  "list_meta memory_backend p s = (Inr (filter (\<lambda>k. starts_with k p) (map fst (mem_meta s))), s)"
  "delete_meta memory_backend k s = (Inr (), s\<lparr>mem_meta := AList.delete k (mem_meta s)\<rparr>)"
  by (simp_all add: mem_defs)

definition mem_ok :: "InMemoryBackend \<Rightarrow> bool" where
  "mem_ok s \<longleftrightarrow> distinct (map fst (mem_meta s))"

lemma copy_new:
  assumes "copy_all [] hr = (r, hr')"
  shows "\<And>d. drain (events (inner hr)) = Inr d \<Longrightarrow> r = Inr d \<and> hasher hr' = hasher hr @ d"
    and "\<And>d. r = Inr d \<Longrightarrow> drain (events (inner hr)) = Inr d \<and> hasher hr' = hasher hr @ d"
  using copy_all_drain [OF assms] by (auto split: sum.splits)

interpretation mem: reliable_backend
  memory_backend "\<lambda>s. map_of (mem_blobs s)" "\<lambda>s. map_of (mem_meta s)" mem_ok "\<lambda>k. True" True
proof unfold_locales
  fix s s' :: InMemoryBackend and h f hr hr' r
  assume a: "mem_ok s" "put_blob memory_backend h f hr s = (r, hr', s')"
  obtain q hr1 where c: "copy_all [] hr = (q, hr1)" by (cases "copy_all [] hr")
  from a copy_new(2) [OF c] c show "mem_ok s' \<and> map_of (mem_meta s') = map_of (mem_meta s) \<and>
         (\<forall>e. r = Inl e \<longrightarrow> map_of (mem_blobs s') = map_of (mem_blobs s)) \<and>
         (r = Inr () \<longrightarrow> (\<exists>d. map_of (mem_blobs s') = (map_of (mem_blobs s))((h, f) \<mapsto> d) \<and>
            (\<not> True \<and> map_of (mem_blobs s) (h, f) = Some d \<and> hr' = hr \<or>
             drain (events (inner hr)) = Inr d \<and> hasher hr' = hasher hr @ d)))"
    by (cases q) (auto simp: mem_defs mem_ok_def update_conv')
next
  fix s :: InMemoryBackend and hr :: HashingReader and h f d
  assume d: "drain (events (inner hr)) = Inr d"
  obtain q hr1 where c: "copy_all [] hr = (q, hr1)" by (cases "copy_all [] hr")
  from copy_new(1) [OF c d] c show "fst (put_blob memory_backend h f hr s) = Inr ()"
    by (simp add: mem_defs)
next
  fix s s' :: InMemoryBackend and p rl
  assume a: "mem_ok s" "list_meta memory_backend p s = (rl, s')"
  have r: "rl = Inr (filter (prefix p) (map fst (mem_meta s)))" "s' = s"
    using a(2) by (auto simp: mem_defs starts_with_def)
  have keys: "{k. map_of (mem_meta s) k \<noteq> None \<and> prefix p k} = {k \<in> fst ` set (mem_meta s). prefix p k}"
    by (simp add: map_of_eq_None_iff del: not_None_eq)
  show "mem_ok s' \<and> map_of (mem_blobs s') = map_of (mem_blobs s) \<and> map_of (mem_meta s') = map_of (mem_meta s) \<and>
      (\<forall>ks. rl = Inr ks \<longrightarrow> distinct ks \<and> set ks = {k. map_of (mem_meta s) k \<noteq> None \<and> prefix p k})"
    unfolding keys r using a(1) by (simp add: mem_ok_def set_filter)
qed (auto simp: mem_defs mem_ok_def update_conv' delete_conv' distinct_update distinct_delete split: option.splits)

end
