(* ===== verification/Layer_Store.thy ===== *)
theory Layer_Store
  imports Store_Backend
begin

text \<open>
  The layer store, \<^verbatim>\<open>fs-storage/src/layer_store.rs\<close>: publishing and pulling layers, the index
  from input hashes to content hashes, manifests, the build catalog, tags, verification and
  garbage collection. Every method is a function on the state of an arbitrary backend.

  The wall clock and the random part of a build id are arguments of \<open>publish_manifest\<close>; the
  interleaving of the two uploads of \<open>publish_layer_concurrent\<close> is an argument too. Sizes are
  64-bit words whose sums wrap, as in a release build.
\<close>

section \<open>Index and layers\<close>

definition index_key :: "store_ext \<Rightarrow> InputHash \<Rightarrow> string" where
  "index_key x i = ''index/'' @ show_InputHash x i"

definition layer_key :: "store_ext \<Rightarrow> ContentHash \<Rightarrow> string" where
  "layer_key x h = ''layers/'' @ show_ContentHash x h"

definition manifest_key :: "store_ext \<Rightarrow> ContentHash \<Rightarrow> string" where
  "manifest_key x h = ''manifests/'' @ show_ContentHash x h"

definition tag_key :: "string \<Rightarrow> string" where
  "tag_key name = ''tags/'' @ name"

definition build_key :: "BuildId \<Rightarrow> string" where
  "build_key i = ''builds/'' @ show_BuildId i"

definition resolve_input_hash ::
  "store_ext \<Rightarrow> 'b StorageBackend \<Rightarrow> InputHash \<Rightarrow> ('b, StoreError, ContentHash option) op" where
  "resolve_input_hash x b i =
     and_then (get_meta b (index_key x i)) (\<lambda>found.
       case found of
         Some data \<Rightarrow>
           (case from_utf8 data of
              None \<Rightarrow> ret_err (InvalidHash ''Invalid UTF-8 in index'')
            | Some s \<Rightarrow> and_then (lift_res (ContentHash_from_str x (trim s))) (\<lambda>h. ret_ok (Some h)))
       | None \<Rightarrow> ret_ok None)"

definition register_input_hash ::
  "store_ext \<Rightarrow> 'b StorageBackend \<Rightarrow> InputHash \<Rightarrow> ContentHash \<Rightarrow> ('b, StoreError, unit) op" where
  "register_input_hash x b i h = put_meta b (index_key x i) (as_bytes (show_ContentHash x h))"

definition has_layer :: "'b StorageBackend \<Rightarrow> ContentHash \<Rightarrow> ('b, StoreError, bool) op" where
  "has_layer b h = has_blob b h Deploy"

definition pull_layer :: "'b StorageBackend \<Rightarrow> ContentHash \<Rightarrow> ArtifactFormat \<Rightarrow> ('b, StoreError, reader) op" where
  "pull_layer b h f = get_blob b h f"

text \<open>Upload through a hashing reader; the value is the checksum of the bytes that were read.\<close>

definition upload ::
  "store_ext \<Rightarrow> 'b StorageBackend \<Rightarrow> ContentHash \<Rightarrow> ArtifactFormat \<Rightarrow> reader \<Rightarrow> ('b, StoreError, ContentHash) op" where
  "upload x b h f rd s =
     (case put_blob b h f (new_HashingReader rd) s of
        (Inl e, hr, s') \<Rightarrow> (Inl e, s')
      | (Inr u, hr, s') \<Rightarrow> (Inr (finalize x hr), s'))"

definition artifact_reader :: "reader \<Rightarrow> reader \<Rightarrow> ArtifactFormat \<Rightarrow> reader" where
  "artifact_reader deploy_reader cache_reader f = (case f of Deploy \<Rightarrow> deploy_reader | BuildCache \<Rightarrow> cache_reader)"

text \<open>The common end of both publishing methods: the layer's document, then the index entry.\<close>

definition record_layer :: "store_ext \<Rightarrow> 'b StorageBackend \<Rightarrow> LayerMeta \<Rightarrow> ('b, StoreError, ContentHash) op" where
  "record_layer x b m =
     and_then (map_err Serialization (lift_res (meta_to_vec x m))) (\<lambda>meta_json.
     and_then (put_meta b (layer_key x (content_hash m)) meta_json) (\<lambda>_.
     and_then (register_input_hash x b (input_hash m) (content_hash m)) (\<lambda>_.
     ret_ok (content_hash m))))"

definition publish_layer ::
  "store_ext \<Rightarrow> 'b StorageBackend \<Rightarrow> reader \<Rightarrow> reader \<Rightarrow> LayerMeta \<Rightarrow> ('b, StoreError, ContentHash) op" where
  "publish_layer x b deploy_reader cache_reader m =
     and_then (has_layer b (content_hash m)) (\<lambda>present.
     if present then ret_ok (content_hash m)
     else
       and_then (upload x b (content_hash m) Deploy deploy_reader) (\<lambda>sum_deploy.
       and_then (upload x b (content_hash m) BuildCache cache_reader) (\<lambda>sum_cache.
       record_layer x b (m\<lparr>file_checksum_deploy := sum_deploy, file_checksum_cache := sum_cache\<rparr>))))"

text \<open>
  \<open>tokio::join!\<close> drives both uploads to their end, whatever the other one returns. Each takes
  effect in one step at its end; the first argument says which one ends first. The readers are
  independent of each other here; for the readers of the gRPC service, which share one request stream,
  \<open>Layer_Channels\<close> says in which order the uploads read and when that comes to an end.
\<close>

definition publish_layer_concurrent ::
  "bool \<Rightarrow> store_ext \<Rightarrow> 'b StorageBackend \<Rightarrow> reader \<Rightarrow> reader \<Rightarrow> LayerMeta \<Rightarrow> ('b, StoreError, ContentHash) op" where
  "publish_layer_concurrent deploy_first x b deploy_reader cache_reader m =
     and_then (has_layer b (content_hash m)) (\<lambda>present.
     if present then ret_ok (content_hash m)
     else
       let deploy_fut = attempt (upload x b (content_hash m) Deploy deploy_reader);
           cache_fut = attempt (upload x b (content_hash m) BuildCache cache_reader)
       in and_then
            (if deploy_first
             then and_then deploy_fut (\<lambda>d. and_then cache_fut (\<lambda>c. ret_ok (d, c)))
             else and_then cache_fut (\<lambda>c. and_then deploy_fut (\<lambda>d. ret_ok (d, c))))
            (\<lambda>(deploy_res, cache_res).
              and_then (lift_res deploy_res) (\<lambda>sum_deploy.
              and_then (lift_res cache_res) (\<lambda>sum_cache.
              record_layer x b (m\<lparr>file_checksum_deploy := sum_deploy, file_checksum_cache := sum_cache\<rparr>)))))"

section \<open>Manifests and the build catalog\<close>

text \<open>The hash of a manifest is the digest of its canonical document.\<close>

definition document_hash :: "store_ext \<Rightarrow> bytes \<Rightarrow> ContentHash" where
  "document_hash x buf = ContentHash (Array32 (sha256 x buf))"

definition new_build_id :: "u64 \<Rightarrow> string \<Rightarrow> BuildId" where
  "new_build_id timestamp uuid = BuildId (show_word timestamp @ ''T'' @ uuid)"

definition catalog_entry :: "ReleaseManifest \<Rightarrow> ContentHash \<Rightarrow> BuildId \<Rightarrow> BuildCatalogEntry" where
  "catalog_entry mf hash i =
     \<lparr>build_id = i,
      release_name = manifest_id mf,
      manifest_hash = hash,
      ce_build_timestamp = bm_build_timestamp (build_metadata mf),
      spec_hash = bm_dockerfile_hash (build_metadata mf),
      ce_layers = map ml_content_hash (layers mf)\<rparr>"

definition publish_manifest ::
  "store_ext \<Rightarrow> 'b StorageBackend \<Rightarrow> u64 \<Rightarrow> string \<Rightarrow> ReleaseManifest \<Rightarrow> ('b, StoreError, ContentHash) op" where
  "publish_manifest x b timestamp uuid mf =
     and_then (map_err Serialization (lift_res (manifest_to_vec x mf))) (\<lambda>buf.
     let hash = document_hash x buf;
         i = new_build_id timestamp uuid
     in and_then (put_meta b (manifest_key x hash) buf) (\<lambda>_.
        and_then (map_err Serialization (lift_res (catalog_to_vec x (catalog_entry mf hash i)))) (\<lambda>catalog_json.
        and_then (put_meta b (build_key i) catalog_json) (\<lambda>_.
        ret_ok hash))))"

definition get_manifest :: "store_ext \<Rightarrow> 'b StorageBackend \<Rightarrow> ContentHash \<Rightarrow> ('b, StoreError, ReleaseManifest) op" where
  "get_manifest x b h =
     and_then (get_meta b (manifest_key x h)) (\<lambda>found.
       case found of
         None \<Rightarrow> ret_err NotFound
       | Some data \<Rightarrow> map_err Serialization (lift_res (manifest_from_slice x data)))"

definition get_build :: "store_ext \<Rightarrow> 'b StorageBackend \<Rightarrow> BuildId \<Rightarrow> ('b, StoreError, BuildCatalogEntry) op" where
  "get_build x b i =
     and_then (get_meta b (build_key i)) (\<lambda>found.
       case found of
         None \<Rightarrow> ret_err NotFound
       | Some data \<Rightarrow> map_err Serialization (lift_res (catalog_from_slice x data)))"

section \<open>Tags\<close>

text \<open>The regular expression \<^verbatim>\<open>^[a-z0-9][a-z0-9._-]*$\<close>.\<close>

definition tag_start :: "char \<Rightarrow> bool" where
  "tag_start c \<longleftrightarrow> (97 \<le> (of_char c :: nat) \<and> (of_char c :: nat) \<le> 122) \<or> is_digit c"

definition tag_char :: "char \<Rightarrow> bool" where
  "tag_char c \<longleftrightarrow> tag_start c \<or> c = CHR ''.'' \<or> c = CHR ''_'' \<or> c = CHR ''-''"

definition tag_matches :: "string \<Rightarrow> bool" where
  "tag_matches name = (case name of [] \<Rightarrow> False | c # cs \<Rightarrow> tag_start c \<and> list_all tag_char cs)"

definition validate_tag_name :: "string \<Rightarrow> StoreError + unit" where
  "validate_tag_name name = (if \<not> tag_matches name then Inl (InvalidTagName name) else Inr ())"

definition create_tag ::
  "store_ext \<Rightarrow> 'b StorageBackend \<Rightarrow> string \<Rightarrow> ContentHash \<Rightarrow> ('b, StoreError, unit) op" where
  "create_tag x b name h =
     and_then (lift_res (validate_tag_name name)) (\<lambda>_.
     and_then (get_manifest x b h) (\<lambda>_.
     put_meta b (tag_key name) (as_bytes (show_ContentHash x h))))"

definition update_tag ::
  "store_ext \<Rightarrow> 'b StorageBackend \<Rightarrow> string \<Rightarrow> ContentHash \<Rightarrow> ('b, StoreError, unit) op" where
  "update_tag x b name h = create_tag x b name h"

definition get_tag :: "store_ext \<Rightarrow> 'b StorageBackend \<Rightarrow> string \<Rightarrow> ('b, StoreError, ContentHash) op" where
  "get_tag x b name =
     and_then (get_meta b (tag_key name)) (\<lambda>found.
       case found of
         None \<Rightarrow> ret_err NotFound
       | Some data \<Rightarrow>
           (case from_utf8 data of
              None \<Rightarrow> ret_err (InvalidHash ''Invalid UTF-8 in tag'')
            | Some s \<Rightarrow> lift_res (ContentHash_from_str x (trim s))))"

fun collect_tags ::
  "store_ext \<Rightarrow> 'b StorageBackend \<Rightarrow> string list \<Rightarrow> ('b, StoreError, (string \<times> ContentHash) list) op" where
  "collect_tags x b [] = ret_ok []"
| "collect_tags x b (key # keys) =
     (case strip_prefix key ''tags/'' of
        None \<Rightarrow> collect_tags x b keys
      | Some name \<Rightarrow>
          and_then (attempt (get_tag x b name)) (\<lambda>r.
          and_then (collect_tags x b keys) (\<lambda>tags.
          ret_ok (case r of Inl e \<Rightarrow> tags | Inr h \<Rightarrow> (name, h) # tags))))"

definition list_tags :: "store_ext \<Rightarrow> 'b StorageBackend \<Rightarrow> ('b, StoreError, (string \<times> ContentHash) list) op" where
  "list_tags x b = and_then (list_meta b ''tags/'') (collect_tags x b)"

definition delete_tag :: "'b StorageBackend \<Rightarrow> string \<Rightarrow> ('b, StoreError, unit) op" where
  "delete_tag b name = delete_meta b (tag_key name)"

section \<open>Listing builds\<close>

text \<open>The tests of the filter that need no access to the store.\<close>

definition entry_matches :: "BuildFilter \<Rightarrow> BuildCatalogEntry \<Rightarrow> bool" where
  "entry_matches flt entry \<longleftrightarrow>
     (case release_name_prefix flt of None \<Rightarrow> True | Some p \<Rightarrow> starts_with (release_name entry) p) \<and>
     (case layer_hash flt of None \<Rightarrow> True | Some h \<Rightarrow> h \<in> set (ce_layers entry)) \<and>
     (case from_timestamp flt of None \<Rightarrow> True | Some t \<Rightarrow> \<not> ce_build_timestamp entry < t) \<and>
     (case to_timestamp flt of None \<Rightarrow> True | Some t \<Rightarrow> \<not> t < ce_build_timestamp entry)"

definition tag_filter ::
  "store_ext \<Rightarrow> 'b StorageBackend \<Rightarrow> BuildFilter \<Rightarrow> BuildCatalogEntry \<Rightarrow> ('b, StoreError, bool) op" where
  "tag_filter x b flt entry =
     (case filter_tag flt of
        None \<Rightarrow> ret_ok True
      | Some tag \<Rightarrow>
          and_then (attempt (get_tag x b tag)) (\<lambda>r.
          ret_ok (case r of Inl e \<Rightarrow> False | Inr tag_hash \<Rightarrow> manifest_hash entry = tag_hash)))"

fun collect_builds ::
  "store_ext \<Rightarrow> 'b StorageBackend \<Rightarrow> BuildFilter \<Rightarrow> string list \<Rightarrow> ('b, StoreError, BuildCatalogEntry list) op" where
  "collect_builds x b flt [] = ret_ok []"
| "collect_builds x b flt (key # keys) =
     and_then (get_meta b key) (\<lambda>found.
       case found of
         None \<Rightarrow> collect_builds x b flt keys
       | Some data \<Rightarrow>
           (case catalog_from_slice x data of
              Inl e \<Rightarrow> collect_builds x b flt keys
            | Inr entry \<Rightarrow>
                and_then (tag_filter x b flt entry) (\<lambda>tagged.
                and_then (collect_builds x b flt keys) (\<lambda>builds.
                ret_ok (if tagged \<and> entry_matches flt entry then entry # builds else builds)))))"

text \<open>\<open>sort_by\<close> is stable; the newest build comes first.\<close>

definition newest_first :: "BuildCatalogEntry list \<Rightarrow> BuildCatalogEntry list" where
  "newest_first = sort_key (\<lambda>e. - uint (ce_build_timestamp e))"

definition list_builds ::
  "store_ext \<Rightarrow> 'b StorageBackend \<Rightarrow> BuildFilter \<Rightarrow> ('b, StoreError, BuildCatalogEntry list) op" where
  "list_builds x b flt =
     and_then (list_meta b ''builds/'') (\<lambda>keys.
     and_then (collect_builds x b flt keys) (\<lambda>builds.
     ret_ok (newest_first builds)))"

section \<open>Verification and garbage collection\<close>

fun collect_valid ::
  "store_ext \<Rightarrow> 'b StorageBackend \<Rightarrow> string list \<Rightarrow> ('b, StoreError, ContentHash list) op" where
  "collect_valid x b [] = ret_ok []"
| "collect_valid x b (key # keys) =
     (case strip_prefix key ''layers/'' of
        None \<Rightarrow> collect_valid x b keys
      | Some s \<Rightarrow>
          (case ContentHash_from_str x s of
             Inl e \<Rightarrow> collect_valid x b keys
           | Inr h \<Rightarrow>
               and_then (has_layer b h) (\<lambda>present.
               and_then (collect_valid x b keys) (\<lambda>hs.
               ret_ok (if present then h # hs else hs)))))"

definition verify_store :: "store_ext \<Rightarrow> 'b StorageBackend \<Rightarrow> ('b, StoreError, VerificationReport) op" where
  "verify_store x b =
     and_then (list_meta b ''layers/'') (\<lambda>keys.
     and_then (collect_valid x b keys) (\<lambda>hs.
     ret_ok \<lparr>valid = hs, corrupt = []\<rparr>))"

definition manifest_keys_hashes :: "store_ext \<Rightarrow> string list \<Rightarrow> ContentHash list" where
  "manifest_keys_hashes x keys =
     concat (map (\<lambda>key. case strip_prefix key ''manifests/'' of
                          None \<Rightarrow> []
                        | Some s \<Rightarrow> (case ContentHash_from_str x s of Inl e \<Rightarrow> [] | Inr h \<Rightarrow> [h])) keys)"

text \<open>The order in which the hash set is enumerated does not matter: the result is a set.\<close>

fun mark_live :: "store_ext \<Rightarrow> 'b StorageBackend \<Rightarrow> ContentHash list \<Rightarrow> ('b, StoreError, ContentHash list) op" where
  "mark_live x b [] = ret_ok []"
| "mark_live x b (h # hs) =
     and_then (attempt (get_manifest x b h)) (\<lambda>r.
     and_then (mark_live x b hs) (\<lambda>live.
     ret_ok (case r of Inl e \<Rightarrow> live | Inr mf \<Rightarrow> map ml_content_hash (layers mf) @ live)))"

fun sweep ::
  "store_ext \<Rightarrow> 'b StorageBackend \<Rightarrow> ContentHash list \<Rightarrow> string list \<Rightarrow> GcReport \<Rightarrow> ('b, StoreError, GcReport) op" where
  "sweep x b live [] report = ret_ok report"
| "sweep x b live (key # keys) report =
     (case strip_prefix key ''layers/'' of
        None \<Rightarrow> sweep x b live keys report
      | Some s \<Rightarrow>
          (case ContentHash_from_str x s of
             Inl e \<Rightarrow> sweep x b live keys report
           | Inr h \<Rightarrow>
               if h \<in> set live then sweep x b live keys report
               else
                 and_then (attempt (get_meta b key)) (\<lambda>r.
                   case r of
                     Inr (Some data) \<Rightarrow>
                       (case meta_from_slice x data of
                          Inl e \<Rightarrow> sweep x b live keys report
                        | Inr m \<Rightarrow>
                            sweep x b live keys
                              (report\<lparr>candidates := candidates report @
                                 [\<lparr>gc_content_hash = h, size_deploy_bytes = compressed_size_deploy m,
                                   size_cache_bytes = compressed_size_cache m\<rparr>],
                               total_reclaimable_bytes := total_reclaimable_bytes report +
                                 (compressed_size_deploy m + compressed_size_cache m)\<rparr>))
                   | _ \<Rightarrow> sweep x b live keys report)))"

definition gc_candidates :: "store_ext \<Rightarrow> 'b StorageBackend \<Rightarrow> ('b, StoreError, GcReport) op" where
  "gc_candidates x b =
     and_then (list_tags x b) (\<lambda>tags.
     and_then (list_meta b ''manifests/'') (\<lambda>manifest_keys.
     and_then (mark_live x b (remdups (map snd tags @ manifest_keys_hashes x manifest_keys))) (\<lambda>live.
     and_then (list_meta b ''layers/'') (\<lambda>layer_keys.
     sweep x b live layer_keys \<lparr>candidates = [], total_reclaimable_bytes = 0\<rparr>))))"

definition delete_index_entry :: "store_ext \<Rightarrow> 'b StorageBackend \<Rightarrow> ContentHash \<Rightarrow> ('b, StoreError, unit) op" where
  "delete_index_entry x b h =
     and_then (attempt (get_meta b (layer_key x h))) (\<lambda>r.
       case r of
         Inr (Some data) \<Rightarrow>
           (case meta_from_slice x data of
              Inl e \<Rightarrow> ret_ok ()
            | Inr m \<Rightarrow> ignore (delete_meta b (index_key x (input_hash m))))
       | _ \<Rightarrow> ret_ok ())"

definition gc_delete :: "store_ext \<Rightarrow> 'b StorageBackend \<Rightarrow> ContentHash \<Rightarrow> ('b, StoreError, unit) op" where
  "gc_delete x b h =
     and_then (ignore (delete_blob b h Deploy)) (\<lambda>_.
     and_then (ignore (delete_blob b h BuildCache)) (\<lambda>_.
     and_then (delete_index_entry x b h) (\<lambda>_.
     ignore (delete_meta b (layer_key x h)))))"

fun gc_loop ::
  "store_ext \<Rightarrow> 'b StorageBackend \<Rightarrow> GcCandidate list \<Rightarrow> GcSummary \<Rightarrow> ('b, StoreError, GcSummary) op" where
  "gc_loop x b [] summary = ret_ok summary"
| "gc_loop x b (c # cs) summary =
     and_then (gc_delete x b (gc_content_hash c)) (\<lambda>_.
     gc_loop x b cs
       \<lparr>deleted_blobs = deleted_blobs summary + 2,
        deleted_bytes = deleted_bytes summary + (size_deploy_bytes c + size_cache_bytes c)\<rparr>)"

definition gc_execute :: "store_ext \<Rightarrow> 'b StorageBackend \<Rightarrow> GcReport \<Rightarrow> ('b, StoreError, GcSummary) op" where
  "gc_execute x b report = gc_loop x b (candidates report) \<lparr>deleted_blobs = 0, deleted_bytes = 0\<rparr>"

section \<open>Keys\<close>

lemmas key_defs = index_key_def layer_key_def manifest_key_def tag_key_def build_key_def

lemma key_distinct [simp]:
  "index_key x i \<noteq> layer_key y h" "layer_key y h \<noteq> index_key x i"
  "index_key x i \<noteq> manifest_key y h" "manifest_key y h \<noteq> index_key x i"
  "index_key x i \<noteq> tag_key n" "tag_key n \<noteq> index_key x i"
  "index_key x i \<noteq> build_key j" "build_key j \<noteq> index_key x i"
  "layer_key x h \<noteq> manifest_key y g" "manifest_key y g \<noteq> layer_key x h"
  "layer_key x h \<noteq> tag_key n" "tag_key n \<noteq> layer_key x h"
  "layer_key x h \<noteq> build_key j" "build_key j \<noteq> layer_key x h"
  "manifest_key x h \<noteq> tag_key n" "tag_key n \<noteq> manifest_key x h"
  "manifest_key x h \<noteq> build_key j" "build_key j \<noteq> manifest_key x h"
  "tag_key n \<noteq> build_key j" "build_key j \<noteq> tag_key n"
  by (simp_all add: key_defs)

lemma key_eq [simp]: "tag_key n = tag_key n' \<longleftrightarrow> n = n'" "build_key i = build_key j \<longleftrightarrow> i = j"
  by (cases i; cases j; simp add: key_defs)+

lemma strip_key [simp]:
  "strip_prefix (tag_key n) ''tags/'' = Some n"
  "strip_prefix (layer_key x h) ''layers/'' = Some (show_ContentHash x h)"
  "strip_prefix (manifest_key x h) ''manifests/'' = Some (show_ContentHash x h)"
  unfolding key_defs by (rule strip_prefix_append)+

lemma key_prefix [simp]:
  "prefix ''tags/'' (tag_key n)" "prefix ''layers/'' (layer_key x h)"
  "prefix ''manifests/'' (manifest_key x h)" "prefix ''builds/'' (build_key i)"
  by (simp_all add: key_defs prefix_def)

section \<open>Soundness of the index\<close>

definition stored :: "(ContentHash \<times> ArtifactFormat \<Rightarrow> bytes option) \<Rightarrow> ContentHash \<Rightarrow> bool" where
  "stored B h \<longleftrightarrow> B (h, Deploy) \<noteq> None \<and> B (h, BuildCache) \<noteq> None"

definition recorded :: "store_ext \<Rightarrow> (string \<Rightarrow> bytes option) \<Rightarrow> ContentHash \<Rightarrow> LayerMeta \<Rightarrow> bool" where
  "recorded x M h m \<longleftrightarrow> (case M (layer_key x h) of None \<Rightarrow> False | Some doc \<Rightarrow> meta_from_slice x doc = Inr m)"

text \<open>
  Every layer document can be read, names its own hash, and both its artifacts are stored;
  every index entry leads to a layer that was recorded for that input hash.
\<close>

definition layers_sound ::
  "store_ext \<Rightarrow> (ContentHash \<times> ArtifactFormat \<Rightarrow> bytes option) \<Rightarrow> (string \<Rightarrow> bytes option) \<Rightarrow> bool" where
  "layers_sound x B M \<longleftrightarrow>
     (\<forall>h. M (layer_key x h) \<noteq> None \<longrightarrow> stored B h \<and> (\<exists>m. recorded x M h m \<and> content_hash m = h)) \<and>
     (\<forall>i v. M (index_key x i) = Some v \<longrightarrow>
        (\<exists>h m. v = as_bytes (show_ContentHash x h) \<and> recorded x M h m \<and> input_hash m = i))"

text \<open>The checksums in a layer document are those of the stored artifacts.\<close>

definition checksums_sound ::
  "store_ext \<Rightarrow> (ContentHash \<times> ArtifactFormat \<Rightarrow> bytes option) \<Rightarrow> (string \<Rightarrow> bytes option) \<Rightarrow> bool" where
  "checksums_sound x B M \<longleftrightarrow>
     (\<forall>h m. recorded x M h m \<longrightarrow>
        map_option (document_hash x) (B (h, Deploy)) = Some (file_checksum_deploy m) \<and>
        map_option (document_hash x) (B (h, BuildCache)) = Some (file_checksum_cache m))"

lemma recorded_None: "M (layer_key x h) = None \<Longrightarrow> \<not> recorded x M h m"
  by (simp add: recorded_def)

lemma recorded_present: "recorded x M h m \<Longrightarrow> M (layer_key x h) \<noteq> None"
  by (auto simp: recorded_def split: option.splits)

lemma recorded_unique: "recorded x M h m \<Longrightarrow> recorded x M h m' \<Longrightarrow> m = m'"
  by (simp add: recorded_def split: option.splits)

lemma recorded_other: "layer_key x h \<noteq> k \<Longrightarrow> recorded x (M(k := v)) h = recorded x M h"
  by (rule ext) (simp add: recorded_def)

lemma stored_update: "stored B h \<Longrightarrow> stored (B(k \<mapsto> d)) h"
  by (simp add: stored_def)

lemma layers_sound_blob: "layers_sound x B M \<Longrightarrow> layers_sound x (B(k \<mapsto> d)) M"
  unfolding layers_sound_def by (simp add: stored_update)

lemma layers_sound_mono:
  assumes "layers_sound x B M" and "\<And>k. B k \<noteq> None \<Longrightarrow> B' k \<noteq> None"
  shows "layers_sound x B' M"
  using assms by (simp add: layers_sound_def stored_def)

text \<open>Documents outside the layer and index sections do not matter.\<close>

lemma layers_sound_other:
  assumes "layers_sound x B M" and "\<And>h. layer_key x h \<noteq> k" and "\<And>i. index_key x i \<noteq> k"
  shows "layers_sound x B (M(k := v))"
  using assms by (simp add: layers_sound_def recorded_other)

lemma checksums_sound_other:
  assumes "checksums_sound x B M" and "\<And>h. layer_key x h \<noteq> k"
  shows "checksums_sound x B (M(k := v))"
  using assms by (simp add: checksums_sound_def recorded_other)

context store_codec
begin

lemma hash_keys [simp]:
  "index_key x i = index_key x j \<longleftrightarrow> i = j"
  "layer_key x g = layer_key x h \<longleftrightarrow> g = h"
  "manifest_key x g = manifest_key x h \<longleftrightarrow> g = h"
  by (simp_all add: key_defs)

lemma recorded_self: "meta_to_vec x m = Inr doc \<Longrightarrow> recorded x (M(layer_key x h \<mapsto> doc)) h n \<longleftrightarrow> n = m"
  using meta_inverse [of m doc] by (auto simp: recorded_def)

lemma layers_sound_record:
  assumes "layers_sound x B M" and "M (layer_key x (content_hash m)) = None"
    and "stored B (content_hash m)" and "meta_to_vec x m = Inr doc"
  shows "layers_sound x B (M(layer_key x (content_hash m) \<mapsto> doc))"
proof -
  let ?M = "M(layer_key x (content_hash m) \<mapsto> doc)"
  have keep: "recorded x ?M h n" if "recorded x M h n" for h n
    using that assms(2) recorded_None [of M x "content_hash m" n]
    by (cases "h = content_hash m") (auto simp: recorded_other)
  show ?thesis
    unfolding layers_sound_def
  proof (intro conjI allI impI)
    fix h assume h: "?M (layer_key x h) \<noteq> None"
    show "stored B h"
      using h assms by (cases "h = content_hash m") (auto simp: layers_sound_def)
    show "\<exists>n. recorded x ?M h n \<and> content_hash n = h"
    proof (cases "h = content_hash m")
      case True
      then show ?thesis using recorded_self [OF assms(4)] by blast
    next
      case False
      then have "M (layer_key x h) \<noteq> None" using h by simp
      then show ?thesis using assms(1) keep unfolding layers_sound_def by blast
    qed
  next
    fix i v assume "?M (index_key x i) = Some v"
    then have "M (index_key x i) = Some v" by simp
    then show "\<exists>h n. v = as_bytes (show_ContentHash x h) \<and> recorded x ?M h n \<and> input_hash n = i"
      using assms(1) keep unfolding layers_sound_def by blast
  qed
qed

lemma layers_sound_register:
  assumes "layers_sound x B M" and "recorded x M h m" and "input_hash m = i"
  shows "layers_sound x B (M(index_key x i \<mapsto> as_bytes (show_ContentHash x h)))"
  using assms unfolding layers_sound_def by (auto simp: recorded_other)

lemma layers_sound_delete:
  assumes "layers_sound x B M" and "\<And>m. recorded x M h m \<Longrightarrow> M (index_key x (input_hash m)) = None"
  shows "layers_sound x (B((h, Deploy) := None, (h, BuildCache) := None)) (M(layer_key x h := None))"
proof -
  have other: "recorded x (M(layer_key x h := None)) g n \<longleftrightarrow> g \<noteq> h \<and> recorded x M g n" for g n
    by (cases "g = h") (simp_all add: recorded_other recorded_None)
  show ?thesis
    unfolding layers_sound_def
  proof (intro conjI allI impI)
    fix g assume "(M(layer_key x h := None)) (layer_key x g) \<noteq> None"
    then have g: "g \<noteq> h" "M (layer_key x g) \<noteq> None" by (auto split: if_splits)
    then show "stored (B((h, Deploy) := None, (h, BuildCache) := None)) g"
      using assms(1) by (auto simp: layers_sound_def stored_def)
    from g show "\<exists>m. recorded x (M(layer_key x h := None)) g m \<and> content_hash m = g"
      using assms(1) other unfolding layers_sound_def by blast
  next
    fix i v assume "(M(layer_key x h := None)) (index_key x i) = Some v"
    then have v: "M (index_key x i) = Some v" by simp
    then obtain g n where g: "v = as_bytes (show_ContentHash x g)" "recorded x M g n" "input_hash n = i"
      using assms(1) unfolding layers_sound_def by blast
    have "g \<noteq> h" using g v assms(2) [of n] by auto
    with g other show "\<exists>g n. v = as_bytes (show_ContentHash x g) \<and> recorded x (M(layer_key x h := None)) g n \<and> input_hash n = i"
      by blast
  qed
qed

end

section \<open>The contract of the store over any backend\<close>

locale layer_store = store_codec x + storage_backend b blobs metas ok key_ok overwrites
  for x :: store_ext and b :: "'b StorageBackend"
    and blobs :: "'b \<Rightarrow> ContentHash \<times> ArtifactFormat \<Rightarrow> bytes option"
    and metas :: "'b \<Rightarrow> string \<Rightarrow> bytes option"
    and ok :: "'b \<Rightarrow> bool" and key_ok :: "string \<Rightarrow> bool" and overwrites :: bool +
  assumes index_key_ok [simp]: "key_ok (index_key x i)"
    and layer_key_ok [simp]: "key_ok (layer_key x h)"
    and manifest_key_ok [simp]: "key_ok (manifest_key x h)"
begin

definition same_view :: "'b \<Rightarrow> 'b \<Rightarrow> bool" where
  "same_view s t \<longleftrightarrow> ok t \<and> blobs t = blobs s \<and> metas t = metas s"

text \<open>Operations that only read.\<close>

definition reads :: "('b, 'e, 'a) op \<Rightarrow> bool" where
  "reads m \<longleftrightarrow> (\<forall>s. ok s \<longrightarrow> same_view s (snd (m s)))"

lemma readsD: "reads m \<Longrightarrow> m s = (r, t) \<Longrightarrow> ok s \<Longrightarrow> ok t \<and> blobs t = blobs s \<and> metas t = metas s"
  unfolding reads_def same_view_def by (metis snd_conv)

lemma reads_basic [simp, intro]:
  "reads (ret_ok a)" "reads (ret_err e)" "reads (lift_res r)"
  by (simp_all add: reads_def same_view_def ret_ok_def ret_err_def lift_res_def)

lemma reads_and_then [intro]:
  assumes "reads m" and "\<And>a. reads (k a)"
  shows "reads (and_then m k)"
  unfolding reads_def
proof (intro allI impI)
  fix s assume s: "ok s"
  obtain r t where m: "m s = (r, t)" by (cases "m s")
  note t = readsD [OF assms(1) m s]
  show "same_view s (snd (and_then m k s))"
    using m t assms(2) unfolding reads_def same_view_def
    by (cases r) (auto simp: and_then_def)
qed

lemma reads_attempt [intro]: "reads m \<Longrightarrow> reads (attempt m)"
  by (simp add: reads_def attempt_def)

lemma reads_map_err [intro]: "reads m \<Longrightarrow> reads (map_err f m)"
  by (simp add: reads_def)

lemma reads_backend [intro, simp]:
  "reads (has_blob b h f)" "reads (get_blob b h f)" "reads (get_meta b k)"
  "p \<in> set meta_sections \<Longrightarrow> reads (list_meta b p)"
  unfolding reads_def same_view_def
  using has_blob_spec get_blob_spec get_meta_frame list_meta_spec by (metis prod.collapse)+

lemma reads_store [intro, simp]:
  "reads (has_layer b h)" "reads (pull_layer b h f)" "reads (resolve_input_hash x b i)"
  "reads (get_manifest x b h)" "reads (get_build x b j)" "reads (get_tag x b n)"
  unfolding has_layer_def pull_layer_def resolve_input_hash_def get_manifest_def get_build_def get_tag_def
  by (auto split: option.split intro!: reads_and_then reads_map_err)

lemma reads_collect_tags [intro, simp]: "reads (collect_tags x b keys)"
  by (induction keys) (auto split: option.split)

lemma reads_tag_filter [intro, simp]: "reads (tag_filter x b flt e)"
  by (auto simp: tag_filter_def split: option.split)

lemma reads_collect_builds [intro, simp]: "reads (collect_builds x b flt keys)"
  by (induction keys) (auto split: option.split sum.split intro!: reads_and_then)

lemma reads_collect_valid [intro, simp]: "reads (collect_valid x b keys)"
  by (induction keys) (auto split: option.split sum.split intro!: reads_and_then)

lemma reads_mark_live [intro, simp]: "reads (mark_live x b hs)"
  by (induction hs) (auto intro!: reads_and_then)

lemma reads_sweep [intro, simp]: "reads (sweep x b live keys report)"
  by (induction keys arbitrary: report) (auto split: option.split sum.split intro!: reads_and_then)

lemma reads_lists [intro, simp]:
  "reads (list_tags x b)" "reads (list_builds x b flt)" "reads (verify_store x b)" "reads (gc_candidates x b)"
  unfolding list_tags_def list_builds_def verify_store_def gc_candidates_def
  by (auto simp: meta_sections_def intro!: reads_and_then)

end

text \<open>What the writing operations do to the two maps.\<close>

context layer_store
begin

lemma upload_spec:
  assumes "ok s" and "upload x b h f rd s = (r, s')"
  shows "ok s' \<and> metas s' = metas s \<and> (\<forall>e. r = Inl e \<longrightarrow> blobs s' = blobs s) \<and>
    (\<forall>c. r = Inr c \<longrightarrow> (\<exists>d. blobs s' = (blobs s)((h, f) \<mapsto> d) \<and>
       (\<not> overwrites \<and> blobs s (h, f) = Some d \<and> c = document_hash x [] \<or>
        drain (events rd) = Inr d \<and> c = document_hash x d)))"
proof -
  obtain q hr t where p: "put_blob b h f (new_HashingReader rd) s = (q, hr, t)"
    by (metis prod_cases3)
  from put_blob_spec [OF assms(1) p] show ?thesis
    using assms(2) p
    by (cases q) (auto simp: upload_def new_HashingReader_def finalize_def document_hash_def)
qed

lemma record_layer_spec:
  assumes "ok s" and "record_layer x b m s = (r, s')"
  shows "ok s' \<and> blobs s' = blobs s \<and>
    (metas s' = metas s \<and> (\<exists>e. r = Inl e) \<or>
     (\<exists>doc. meta_to_vec x m = Inr doc \<and>
        (metas s' = (metas s)(layer_key x (content_hash m) \<mapsto> doc) \<and> (\<exists>e. r = Inl e) \<or>
         metas s' = (metas s)(layer_key x (content_hash m) \<mapsto> doc,
            index_key x (input_hash m) \<mapsto> as_bytes (show_ContentHash x (content_hash m))) \<and>
         r = Inr (content_hash m))))"
proof (cases "meta_to_vec x m")
  case (Inl e)
  with assms show ?thesis
    by (auto simp: record_layer_def and_then_def map_err_def lift_res_def)
next
  case (Inr doc)
  obtain q t where p: "put_meta b (layer_key x (content_hash m)) doc s = (q, t)"
    by (metis prod.collapse)
  obtain q' t' where p': "put_meta b (index_key x (input_hash m)) (as_bytes (show_ContentHash x (content_hash m))) t = (q', t')"
    by (metis prod.collapse)
  note P = put_meta_spec [OF assms(1) layer_key_ok p]
  note P' = put_meta_spec [OF conjunct1 [OF P] index_key_ok p']
  have "(r, s') = (case q of Inl e \<Rightarrow> (Inl e, t) | Inr u \<Rightarrow>
      (case q' of Inl e \<Rightarrow> (Inl e, t') | Inr u \<Rightarrow> (Inr (content_hash m), t')))"
    using assms(2) Inr p p'
    by (auto simp: record_layer_def register_input_hash_def op_defs split: sum.splits)
  with P P' Inr show ?thesis by (cases q; cases q') auto
qed

lemma record_layer_sound:
  assumes "ok s" and "record_layer x b m s = (r, s')" and "layers_sound x (blobs s) (metas s)"
    and "metas s (layer_key x (content_hash m)) = None" and "stored (blobs s) (content_hash m)"
  shows "layers_sound x (blobs s') (metas s')"
proof -
  have doc: "layers_sound x (blobs s) ((metas s)(layer_key x (content_hash m) \<mapsto> doc))"
    "recorded x ((metas s)(layer_key x (content_hash m) \<mapsto> doc)) (content_hash m) m"
    if "meta_to_vec x m = Inr doc" for doc
    using layers_sound_record [OF assms(3,4,5) that] recorded_self [OF that] by blast+
  from record_layer_spec [OF assms(1,2)] show ?thesis
    using assms(3) doc layers_sound_register [OF doc refl] by auto
qed

end

context layer_store
begin

text \<open>
  The states that uploads of the artifacts of \<open>h\<close> lead to: an artifact of \<open>h\<close> is as it was or what
  its reader delivers, and nothing else changes.
\<close>

definition uploaded :: "reader \<Rightarrow> reader \<Rightarrow> ContentHash \<Rightarrow> 'b \<Rightarrow> 'b \<Rightarrow> bool" where
  "uploaded dr cr h s t \<longleftrightarrow>
     ok t \<and> metas t = metas s \<and> (\<forall>k. fst k \<noteq> h \<longrightarrow> blobs t k = blobs s k) \<and> (\<forall>k. blobs s k \<noteq> None \<longrightarrow> blobs t k \<noteq> None) \<and>
     (\<forall>f. blobs t (h, f) = blobs s (h, f) \<or>
        (\<exists>d. drain (events (artifact_reader dr cr f)) = Inr d \<and> blobs t (h, f) = Some d))"

lemma uploaded_refl: "ok s \<Longrightarrow> uploaded dr cr h s s"
  by (simp add: uploaded_def)

lemma uploaded_trans: "uploaded dr cr h s t \<Longrightarrow> uploaded dr cr h t u \<Longrightarrow> uploaded dr cr h s u"
  unfolding uploaded_def by (metis (no_types, lifting))

lemma upload_uploaded:
  assumes "ok s" and "upload x b h f rd s = (r, s')" and "rd = artifact_reader dr cr f"
  shows "uploaded dr cr h s s'"
  using upload_spec [OF assms(1,2)] assms(3) by (cases r) (auto simp: uploaded_def)

lemma view_uploaded: "same_view s t \<Longrightarrow> uploaded dr cr h s t"
  by (simp add: uploaded_def same_view_def)

text \<open>How publishing can end: nothing to do, a failed upload, or both uploads done and recorded.\<close>

definition publishes :: "reader \<Rightarrow> reader \<Rightarrow> LayerMeta \<Rightarrow> 'b \<Rightarrow> StoreError + ContentHash \<Rightarrow> 'b \<Rightarrow> bool" where
  "publishes dr cr m s r s' \<longleftrightarrow>
     (let h = content_hash m
      in same_view s s' \<and> (\<forall>c. r = Inr c \<longrightarrow> c = h \<and> blobs s (h, Deploy) \<noteq> None) \<or>
         blobs s (h, Deploy) = None \<and>
         (uploaded dr cr h s s' \<and> (\<exists>e. r = Inl e) \<or>
          (\<exists>t d c sc. uploaded dr cr h s t \<and> drain (events dr) = Inr d \<and>
             blobs t (h, Deploy) = Some d \<and> blobs t (h, BuildCache) = Some c \<and>
             (blobs s (h, BuildCache) = None \<or> overwrites \<longrightarrow> drain (events cr) = Inr c \<and> sc = document_hash x c) \<and>
             record_layer x b (m\<lparr>file_checksum_deploy := document_hash x d, file_checksum_cache := sc\<rparr>) t = (r, s'))))"

text \<open>Two uploads of different formats, in either order.\<close>

lemma upload_both:
  assumes "ok s" and "blobs s (h, Deploy) = None"
    and "upload x b h f rd s = (Inr c1, t)" and "upload x b h f' rd' t = (Inr c2, u)" and "f \<noteq> f'"
    and "rd = artifact_reader dr cr f" and "rd' = artifact_reader dr cr f'"
  shows "uploaded dr cr h s u \<and> (\<exists>d1 d2. blobs u (h, f) = Some d1 \<and> blobs u (h, f') = Some d2 \<and>
    (blobs s (h, f) = None \<or> overwrites \<longrightarrow> drain (events rd) = Inr d1 \<and> c1 = document_hash x d1) \<and>
    (blobs s (h, f') = None \<or> overwrites \<longrightarrow> drain (events rd') = Inr d2 \<and> c2 = document_hash x d2))"
proof -
  have t: "ok t" "uploaded dr cr h s t"
    using upload_uploaded [OF assms(1,3,6)] by (auto simp: uploaded_def)
  have u: "uploaded dr cr h t u" by (rule upload_uploaded [OF t(1) assms(4,7)])
  from upload_spec [OF assms(1,3)] upload_spec [OF t(1) assms(4)] assms(5)
  show ?thesis using uploaded_trans [OF t(2) u] by auto
qed

end

context layer_store
begin

lemma publish_start:
  assumes "ok s" and "and_then (has_layer b h) (\<lambda>present. if present then ret_ok h else rest) s = (r, s')"
  obtains "same_view s s'" and "\<forall>c. r = Inr c \<longrightarrow> c = h \<and> blobs s (h, Deploy) \<noteq> None"
  | s1 where "same_view s s1" and "blobs s (h, Deploy) = None" and "rest s1 = (r, s')"
proof -
  obtain q s1 where q: "has_layer b h s = (q, s1)" by (cases "has_layer b h s")
  have v: "same_view s s1" "\<forall>p. q = Inr p \<longrightarrow> p = (blobs s (h, Deploy) \<noteq> None)"
    using has_blob_spec [OF assms(1)] q by (auto simp: has_layer_def same_view_def)
  from assms(2) q have "(r, s') = (case q of Inl e \<Rightarrow> (Inl e, s1)
      | Inr p \<Rightarrow> if p then (Inr h, s1) else rest s1)"
    by (auto simp: and_then_def ret_ok_def split: sum.splits)
  with v that show thesis by (cases q) (auto split: if_splits)
qed

lemma publishes_failed:
  assumes "same_view s s1" and "blobs s (content_hash m, Deploy) = None"
    and "uploaded dr cr (content_hash m) s1 s'" and "r = Inl e"
  shows "publishes dr cr m s r s'"
  using uploaded_trans [OF view_uploaded [OF assms(1)] assms(3)] assms(2,4)
  unfolding publishes_def Let_def by blast

lemma publishes_recorded:
  assumes s1: "same_view s s1" and none: "blobs s (content_hash m, Deploy) = None"
    and t: "uploaded dr cr (content_hash m) s1 t"
    and d: "drain (events dr) = Inr d" "sd = document_hash x d" "blobs t (content_hash m, Deploy) = Some d"
    and c: "blobs t (content_hash m, BuildCache) = Some c"
      "blobs s1 (content_hash m, BuildCache) = None \<or> overwrites \<longrightarrow> drain (events cr) = Inr c \<and> sc = document_hash x c"
    and rec: "record_layer x b (m\<lparr>file_checksum_deploy := sd, file_checksum_cache := sc\<rparr>) t = (r, s')"
  shows "publishes dr cr m s r s'"
proof -
  have "uploaded dr cr (content_hash m) s t"
    using uploaded_trans [OF view_uploaded [OF s1] t] .
  moreover have "blobs s1 = blobs s" using s1 by (simp add: same_view_def)
  ultimately show ?thesis
    using none d c rec unfolding publishes_def Let_def by metis
qed

lemma publish_layer_publishes:
  assumes "ok s" and "publish_layer x b dr cr m s = (r, s')"
  shows "publishes dr cr m s r s'"
  using publish_start [OF assms(1) assms(2) [unfolded publish_layer_def]]
proof cases
  case 1
  then show ?thesis unfolding publishes_def Let_def by blast
next
  case (2 s1)
  let ?h = "content_hash m"
  have s1: "ok s1" "blobs s1 (?h, Deploy) = None" using 2 by (auto simp: same_view_def)
  obtain r1 s2 where u1: "upload x b ?h Deploy dr s1 = (r1, s2)" by (cases "upload x b ?h Deploy dr s1")
  have U1: "uploaded dr cr ?h s1 s2" by (rule upload_uploaded [OF s1(1) u1]) (simp add: artifact_reader_def)
  show ?thesis
  proof (cases r1)
    case (Inl e)
    then show ?thesis using publishes_failed [OF 2(1,2)] U1 2(3) u1 by (auto simp: and_then_def)
  next
    case (Inr sd)
    obtain r2 s3 where u2: "upload x b ?h BuildCache cr s2 = (r2, s3)" by (cases "upload x b ?h BuildCache cr s2")
    have "ok s2" using U1 by (simp add: uploaded_def)
    then have "uploaded dr cr ?h s2 s3" by (rule upload_uploaded [OF _ u2]) (simp add: artifact_reader_def)
    note U2 = uploaded_trans [OF U1 this]
    show ?thesis
    proof (cases r2)
      case (Inl e)
      then show ?thesis using publishes_failed [OF 2(1,2) U2] 2(3) u1 u2 Inr by (auto simp: and_then_def)
    next
      case (Inr sc)
      have rec: "record_layer x b (m\<lparr>file_checksum_deploy := sd, file_checksum_cache := sc\<rparr>) s3 = (r, s')"
        using 2(3) u1 u2 \<open>r1 = Inr sd\<close> Inr by (simp add: and_then_def)
      from upload_both [OF s1 u1 [unfolded \<open>r1 = Inr sd\<close>] u2 [unfolded Inr], of dr cr] s1(2)
      show ?thesis using publishes_recorded [OF 2(1,2) U2 _ _ _ _ _ rec] by (auto simp: artifact_reader_def)
    qed
  qed
qed

end

context layer_store
begin

lemma publish_joined:
  assumes s1: "same_view s s1" and none: "blobs s (content_hash m, Deploy) = None"
    and u1: "upload x b (content_hash m) f rd s1 = (r1, s2)"
    and u2: "upload x b (content_hash m) f' rd' s2 = (r2, s3)"
    and fs: "f = Deploy \<and> f' = BuildCache \<and> rd = dr \<and> rd' = cr \<and> r1 = rd1 \<and> r2 = rc1 \<or>
             f = BuildCache \<and> f' = Deploy \<and> rd = cr \<and> rd' = dr \<and> r2 = rd1 \<and> r1 = rc1"
    and fin: "(r, s') = (case rd1 of Inl e \<Rightarrow> (Inl e, s3) | Inr sd \<Rightarrow>
        (case rc1 of Inl e \<Rightarrow> (Inl e, s3) | Inr sc \<Rightarrow>
           record_layer x b (m\<lparr>file_checksum_deploy := sd, file_checksum_cache := sc\<rparr>) s3))"
  shows "publishes dr cr m s r s'"
proof -
  have ok1: "ok s1" and n1: "blobs s1 (content_hash m, Deploy) = None" using s1 none by (auto simp: same_view_def)
  have rds: "rd = artifact_reader dr cr f" "rd' = artifact_reader dr cr f'" using fs by (auto simp: artifact_reader_def)
  note U1 = upload_uploaded [OF ok1 u1 rds(1)]
  then have "ok s2" by (simp add: uploaded_def)
  note U2 = uploaded_trans [OF U1 upload_uploaded [OF this u2 rds(2)]]
  show ?thesis
  proof (cases "\<exists>e. rd1 = Inl e \<or> rc1 = Inl e")
    case True
    then obtain e where "r = Inl e" "s' = s3" using fin by (cases rd1; cases rc1) auto
    then show ?thesis using publishes_failed [OF s1 none U2] by simp
  next
    case False
    then obtain sd sc where r: "rd1 = Inr sd" "rc1 = Inr sc" by (cases rd1; cases rc1) auto
    then have rec: "record_layer x b (m\<lparr>file_checksum_deploy := sd, file_checksum_cache := sc\<rparr>) s3 = (r, s')"
      using fin by simp
    obtain c1 c2 where c: "r1 = Inr c1" "r2 = Inr c2" "f \<noteq> f'" using fs r by auto
    from upload_both [OF ok1 n1 u1 [unfolded c(1)] u2 [unfolded c(2)] c(3) rds] n1 fs r c
    show ?thesis using publishes_recorded [OF s1 none U2 _ _ _ _ _ rec] by auto
  qed
qed

lemma publish_concurrent_publishes:
  assumes "ok s" and "publish_layer_concurrent first x b dr cr m s = (r, s')"
  shows "publishes dr cr m s r s'"
  using publish_start [OF assms(1) assms(2) [unfolded publish_layer_concurrent_def]]
proof cases
  case 1
  then show ?thesis unfolding publishes_def Let_def by blast
next
  case (2 s1)
  let ?h = "content_hash m"
  show ?thesis
  proof (cases first)
    case True
    obtain r1 s2 where u1: "upload x b ?h Deploy dr s1 = (r1, s2)" by (cases "upload x b ?h Deploy dr s1")
    obtain r2 s3 where u2: "upload x b ?h BuildCache cr s2 = (r2, s3)" by (cases "upload x b ?h BuildCache cr s2")
    have "(r, s') = (case r1 of Inl e \<Rightarrow> (Inl e, s3) | Inr sd \<Rightarrow>
        (case r2 of Inl e \<Rightarrow> (Inl e, s3) | Inr sc \<Rightarrow>
           record_layer x b (m\<lparr>file_checksum_deploy := sd, file_checksum_cache := sc\<rparr>) s3))"
      using 2(3) u1 u2 True by (cases r1; cases r2) (auto simp: op_defs Let_def)
    then show ?thesis using publish_joined [OF 2(1,2) u1 u2, of dr cr r1 r2] by simp
  next
    case False
    obtain r1 s2 where u1: "upload x b ?h BuildCache cr s1 = (r1, s2)" by (cases "upload x b ?h BuildCache cr s1")
    obtain r2 s3 where u2: "upload x b ?h Deploy dr s2 = (r2, s3)" by (cases "upload x b ?h Deploy dr s2")
    have "(r, s') = (case r2 of Inl e \<Rightarrow> (Inl e, s3) | Inr sd \<Rightarrow>
        (case r1 of Inl e \<Rightarrow> (Inl e, s3) | Inr sc \<Rightarrow>
           record_layer x b (m\<lparr>file_checksum_deploy := sd, file_checksum_cache := sc\<rparr>) s3))"
      using 2(3) u1 u2 False by (cases r1; cases r2) (auto simp: op_defs Let_def)
    then show ?thesis using publish_joined [OF 2(1,2) u1 u2, of dr cr r2 r1] by simp
  qed
qed

lemma publishes_sound:
  assumes "publishes dr cr m s r s'" and "ok s" and "layers_sound x (blobs s) (metas s)"
  shows "ok s' \<and> layers_sound x (blobs s') (metas s')"
proof -
  let ?h = "content_hash m"
  have up: "ok t" "layers_sound x (blobs t) (metas t)" if "uploaded dr cr ?h s t" for t
    using layers_sound_mono [OF assms(3), of "blobs t"] that by (auto simp: uploaded_def)
  consider "same_view s s'" | "uploaded dr cr ?h s s'"
    | t d c sc where "blobs s (?h, Deploy) = None" "uploaded dr cr ?h s t" "blobs t (?h, Deploy) = Some d"
        "blobs t (?h, BuildCache) = Some c"
        "record_layer x b (m\<lparr>file_checksum_deploy := document_hash x d, file_checksum_cache := sc\<rparr>) t = (r, s')"
    using assms(1) unfolding publishes_def Let_def by blast
  then show ?thesis
  proof cases
    case 1
    then show ?thesis using assms(3) by (simp add: same_view_def)
  next
    case 2
    then show ?thesis using up by blast
  next
    case 3
    have "metas s (layer_key x ?h) = None"
      using assms(3) 3(1) by (auto simp: layers_sound_def stored_def)
    then have "metas t (layer_key x ?h) = None" "stored (blobs t) ?h"
      using 3 by (simp_all add: uploaded_def stored_def)
    then show ?thesis
      using record_layer_sound [OF up(1) 3(5) up(2)] record_layer_spec [OF up(1) 3(5)] 3(2) by simp
  qed
qed

end

text \<open>Manifests, builds and tags.\<close>

context layer_store
begin

lemma get_meta_view:
  "ok s \<Longrightarrow> get_meta b k s = (r, s') \<Longrightarrow> same_view s s'"
  using get_meta_frame by (simp add: same_view_def)

lemma get_manifest_spec:
  assumes "ok s" and "get_manifest x b h s = (r, s')"
  shows "same_view s s'"
    and "r = Inr mf \<Longrightarrow> \<exists>doc. metas s (manifest_key x h) = Some doc \<and> manifest_from_slice x doc = Inr mf"
proof -
  show "same_view s s'" using readsD [OF reads_store(4) assms(2,1)] by (simp add: same_view_def)
  show "\<exists>doc. metas s (manifest_key x h) = Some doc \<and> manifest_from_slice x doc = Inr mf" if "r = Inr mf"
  proof -
    from assms(2) [unfolded that get_manifest_def and_then_Inr] obtain v s1 where g: "get_meta b (manifest_key x h) s = (Inr v, s1)"
      and k: "(case v of None \<Rightarrow> ret_err NotFound
        | Some data \<Rightarrow> map_err Serialization (lift_res (manifest_from_slice x data))) s1 = (Inr mf, s')"
      by blast
    have "v = metas s (manifest_key x h)" by (rule get_meta_spec [OF assms(1) manifest_key_ok g])
    with k show ?thesis by (auto simp: lift_res_def split: option.splits)
  qed
qed

lemma publish_manifest_spec:
  assumes "ok s" and "key_ok (build_key (new_build_id ts uuid))" and "publish_manifest x b ts uuid mf s = (r, s')"
  shows "ok s' \<and> blobs s' = blobs s \<and>
    (metas s' = metas s \<and> (\<exists>e. r = Inl e) \<or>
     (\<exists>buf. manifest_to_vec x mf = Inr buf \<and>
        (metas s' = (metas s)(manifest_key x (document_hash x buf) \<mapsto> buf) \<and> (\<exists>e. r = Inl e) \<or>
         (\<exists>cat. catalog_to_vec x (catalog_entry mf (document_hash x buf) (new_build_id ts uuid)) = Inr cat \<and>
            metas s' = (metas s)(manifest_key x (document_hash x buf) \<mapsto> buf, build_key (new_build_id ts uuid) \<mapsto> cat) \<and>
            r = Inr (document_hash x buf)))))"
proof (cases "manifest_to_vec x mf")
  case (Inl e)
  with assms show ?thesis by (auto simp: publish_manifest_def op_defs)
next
  case (Inr buf)
  let ?h = "document_hash x buf" and ?i = "new_build_id ts uuid"
  obtain q t where p: "put_meta b (manifest_key x ?h) buf s = (q, t)" by (metis prod.collapse)
  note P = put_meta_spec [OF assms(1) manifest_key_ok p]
  show ?thesis
  proof (cases "catalog_to_vec x (catalog_entry mf ?h ?i)")
    case (Inl e)
    with assms(3) Inr p P show ?thesis
      by (cases q) (auto simp: publish_manifest_def op_defs Let_def)
  next
    case Inr': (Inr cat)
    obtain q' t' where p': "put_meta b (build_key ?i) cat t = (q', t')" by (metis prod.collapse)
    note P' = put_meta_spec [OF conjunct1 [OF P] assms(2) p']
    have "(r, s') = (case q of Inl e \<Rightarrow> (Inl e, t) | Inr u \<Rightarrow> (case q' of Inl e \<Rightarrow> (Inl e, t') | Inr u \<Rightarrow> (Inr ?h, t')))"
      using assms(3) Inr Inr' p p' by (auto simp: publish_manifest_def op_defs Let_def split: sum.splits)
    with P P' Inr Inr' show ?thesis by (cases q; cases q') auto
  qed
qed

lemma create_tag_spec:
  assumes "ok s" and "key_ok (tag_key n)" and "create_tag x b n h s = (r, s')"
  shows "ok s' \<and> blobs s' = blobs s \<and>
    (metas s' = metas s \<and> (\<exists>e. r = Inl e) \<or>
     metas s' = (metas s)(tag_key n \<mapsto> as_bytes (show_ContentHash x h)) \<and> r = Inr () \<and> tag_matches n \<and>
     (\<exists>doc mf. metas s (manifest_key x h) = Some doc \<and> manifest_from_slice x doc = Inr mf))"
proof (cases "tag_matches n")
  case False
  with assms show ?thesis by (auto simp: create_tag_def validate_tag_name_def op_defs)
next
  case True
  obtain q t where g: "get_manifest x b h s = (q, t)" by (metis prod.collapse)
  note G = get_manifest_spec [OF assms(1) g]
  then have t: "ok t" by (simp add: same_view_def)
  obtain q' t' where p: "put_meta b (tag_key n) (as_bytes (show_ContentHash x h)) t = (q', t')" by (metis prod.collapse)
  note P = put_meta_spec [OF t assms(2) p]
  have "(r, s') = (case q of Inl e \<Rightarrow> (Inl e, t) | Inr u \<Rightarrow> (q', t'))"
    using assms(3) True g p by (auto simp: create_tag_def validate_tag_name_def op_defs split: sum.splits)
  with P G True show ?thesis by (cases q; cases q') (auto simp: same_view_def)
qed

lemma publish_manifest_sound:
  assumes "ok s" and "key_ok (build_key (new_build_id ts uuid))" and "publish_manifest x b ts uuid mf s = (r, s')"
    and "layers_sound x (blobs s) (metas s)"
  shows "ok s' \<and> layers_sound x (blobs s') (metas s')"
  using publish_manifest_spec [OF assms(1-3)] assms(4) by (auto intro!: layers_sound_other)

lemma create_tag_sound:
  assumes "ok s" and "key_ok (tag_key n)" and "create_tag x b n h s = (r, s')"
    and "layers_sound x (blobs s) (metas s)"
  shows "ok s' \<and> layers_sound x (blobs s') (metas s')"
  using create_tag_spec [OF assms(1-3)] assms(4) by (auto intro!: layers_sound_other)

lemma delete_tag_sound:
  assumes "ok s" and "key_ok (tag_key n)" and "delete_tag b n s = (r, s')"
    and "layers_sound x (blobs s) (metas s)"
  shows "ok s' \<and> layers_sound x (blobs s') (metas s')"
  using delete_meta_spec [OF assms(1,2) assms(3) [unfolded delete_tag_def]] assms(4)
  by (cases r) (auto intro!: layers_sound_other)

end

section \<open>Garbage collection\<close>

text \<open>What removing one layer does to the documents of a backend that does not fail.\<close>

definition drop_layer :: "store_ext \<Rightarrow> ContentHash \<Rightarrow> (string \<Rightarrow> bytes option) \<Rightarrow> string \<Rightarrow> bytes option" where
  "drop_layer x h M =
     (case M (layer_key x h) of
        None \<Rightarrow> M
      | Some doc \<Rightarrow> (case meta_from_slice x doc of Inl e \<Rightarrow> M | Inr m \<Rightarrow> M(index_key x (input_hash m) := None)))
     (layer_key x h := None)"

lemma drop_layer_other [simp]:
  "(\<And>i. k \<noteq> index_key x i) \<Longrightarrow> k \<noteq> layer_key x h \<Longrightarrow> drop_layer x h M k = M k"
  by (simp add: drop_layer_def split: option.splits sum.splits)

text \<open>The layers that some readable manifest refers to.\<close>

definition manifest_layers :: "store_ext \<Rightarrow> (string \<Rightarrow> bytes option) \<Rightarrow> ContentHash \<Rightarrow> ContentHash set" where
  "manifest_layers x M g =
     (case M (manifest_key x g) of
        None \<Rightarrow> {}
      | Some doc \<Rightarrow>
          (case manifest_from_slice x doc of Inl e \<Rightarrow> {} | Inr mf \<Rightarrow> ml_content_hash ` set (layers mf)))"

definition live_layers :: "store_ext \<Rightarrow> (string \<Rightarrow> bytes option) \<Rightarrow> ContentHash set" where
  "live_layers x M = (\<Union>g. manifest_layers x M g)"

locale reliable_store = layer_store x b blobs metas ok key_ok overwrites + reliable_backend b blobs metas ok key_ok overwrites
  for x :: store_ext and b :: "'b StorageBackend"
    and blobs :: "'b \<Rightarrow> ContentHash \<times> ArtifactFormat \<Rightarrow> bytes option"
    and metas :: "'b \<Rightarrow> string \<Rightarrow> bytes option"
    and ok :: "'b \<Rightarrow> bool" and key_ok :: "string \<Rightarrow> bool" and overwrites :: bool
begin

lemma get_meta_exact:
  assumes "ok s" and "key_ok k"
  obtains s' where "get_meta b k s = (Inr (metas s k), s')" and "same_view s s'"
proof -
  obtain r s' where g: "get_meta b k s = (r, s')" by (cases "get_meta b k s")
  then obtain w where "r = Inr w" using get_meta_returns [OF assms, of] by auto
  with g get_meta_spec [OF assms] get_meta_view [OF assms(1) g] that show thesis by blast
qed

lemma delete_blob_exact:
  assumes "ok s"
  obtains s' where "delete_blob b h f s = (Inr (), s')" "ok s'" "metas s' = metas s"
    "blobs s' = (blobs s)((h, f) := None)"
proof -
  obtain r s' where g: "delete_blob b h f s = (r, s')" by (cases "delete_blob b h f s")
  with delete_blob_returns [OF assms, of h f] delete_blob_spec [OF assms g] that show thesis by auto
qed

lemma delete_meta_exact:
  assumes "ok s" and "key_ok k"
  obtains s' where "delete_meta b k s = (Inr (), s')" "ok s'" "blobs s' = blobs s"
    "metas s' = (metas s)(k := None)"
proof -
  obtain r s' where g: "delete_meta b k s = (r, s')" by (cases "delete_meta b k s")
  with delete_meta_returns [OF assms] delete_meta_spec [OF assms g] that show thesis by auto
qed

lemma delete_index_exact:
  assumes "ok s"
  obtains s' where "delete_index_entry x b h s = (Inr (), s')" "ok s'" "blobs s' = blobs s"
    "(metas s')(layer_key x h := None) = drop_layer x h (metas s)"
proof -
  obtain t where g: "get_meta b (layer_key x h) s = (Inr (metas s (layer_key x h)), t)" and t: "same_view s t"
    by (rule get_meta_exact [OF assms layer_key_ok])
  consider "metas s (layer_key x h) = None"
    | doc e where "metas s (layer_key x h) = Some doc" "meta_from_slice x doc = Inl e"
    | doc m where "metas s (layer_key x h) = Some doc" "meta_from_slice x doc = Inr m"
    by (metis option.exhaust sum.exhaust)
  then show thesis
  proof cases
    case 3
    obtain u where u: "delete_meta b (index_key x (input_hash m)) t = (Inr (), u)" "ok u" "blobs u = blobs t"
      "metas u = (metas t)(index_key x (input_hash m) := None)"
      using delete_meta_exact [of t] t by (metis index_key_ok same_view_def)
    have "delete_index_entry x b h s = (Inr (), u)"
      using g u(1) 3 by (simp add: delete_index_entry_def op_defs)
    then show thesis
      using that [of u] u t 3 by (simp add: drop_layer_def same_view_def)
  qed (use that [of t] t g in \<open>auto simp: delete_index_entry_def op_defs drop_layer_def same_view_def\<close>)
qed

lemma gc_delete_exact:
  assumes "ok s"
  obtains s' where "gc_delete x b h s = (Inr (), s')" "ok s'"
    "blobs s' = (blobs s)((h, Deploy) := None, (h, BuildCache) := None)" "metas s' = drop_layer x h (metas s)"
proof -
  obtain s1 where 1: "delete_blob b h Deploy s = (Inr (), s1)" "ok s1" "metas s1 = metas s"
    "blobs s1 = (blobs s)((h, Deploy) := None)" by (rule delete_blob_exact [OF assms])
  obtain s2 where 2: "delete_blob b h BuildCache s1 = (Inr (), s2)" "ok s2" "metas s2 = metas s1"
    "blobs s2 = (blobs s1)((h, BuildCache) := None)" by (rule delete_blob_exact [OF 1(2)])
  obtain s3 where 3: "delete_index_entry x b h s2 = (Inr (), s3)" "ok s3" "blobs s3 = blobs s2"
    "(metas s3)(layer_key x h := None) = drop_layer x h (metas s2)" by (rule delete_index_exact [OF 2(2)])
  obtain s4 where 4: "delete_meta b (layer_key x h) s3 = (Inr (), s4)" "ok s4" "blobs s4 = blobs s3"
    "metas s4 = (metas s3)(layer_key x h := None)" by (rule delete_meta_exact [OF 3(2) layer_key_ok])
  have "gc_delete x b h s = (Inr (), s4)"
    using 1(1) 2(1) 3(1) 4(1) by (simp add: gc_delete_def op_defs)
  then show thesis using that 1 2 3 4 by simp
qed

end

context store_codec
begin

lemma layers_sound_unindex: "layers_sound x B M \<Longrightarrow> layers_sound x B (M(index_key x i := None))"
  by (auto simp: layers_sound_def recorded_other split: if_splits)

lemma drop_layer_sound:
  assumes "layers_sound x B M"
  shows "layers_sound x (B((h, Deploy) := None, (h, BuildCache) := None)) (drop_layer x h M)"
proof (cases "\<exists>m. recorded x M h m")
  case True
  then obtain m where m: "recorded x M h m" ..
  have "recorded x (M(index_key x (input_hash m) := None)) h n \<longleftrightarrow> n = m" for n
    using m recorded_unique by (auto simp: recorded_other)
  then have "layers_sound x (B((h, Deploy) := None, (h, BuildCache) := None))
      (M(index_key x (input_hash m) := None, layer_key x h := None))"
    using layers_sound_delete [OF layers_sound_unindex [OF assms, of "input_hash m"], of h] by simp
  moreover have "drop_layer x h M = M(index_key x (input_hash m) := None, layer_key x h := None)"
    using m by (simp add: drop_layer_def recorded_def split: option.splits)
  ultimately show ?thesis by simp
next
  case False
  then have "drop_layer x h M = M(layer_key x h := None)"
    by (auto simp: drop_layer_def recorded_def split: option.splits sum.splits)
  then show ?thesis using layers_sound_delete [OF assms, of h] False by simp
qed

lemma drop_layer_layer: "drop_layer x h M (layer_key x g) = (if g = h then None else M (layer_key x g))"
  by (simp add: drop_layer_def split: option.splits sum.splits)

end

context reliable_store
begin

lemma gc_loop_exact:
  assumes "ok s"
  shows "\<exists>summary' s'. gc_loop x b cs summary s = (Inr summary', s') \<and> ok s' \<and>
    (\<forall>k. blobs s' k = (if fst k \<in> gc_content_hash ` set cs then None else blobs s k)) \<and>
    (\<forall>h. metas s' (layer_key x h) = (if h \<in> gc_content_hash ` set cs then None else metas s (layer_key x h))) \<and>
    (\<forall>k. (\<forall>i. k \<noteq> index_key x i) \<longrightarrow> (\<forall>h. k \<noteq> layer_key x h) \<longrightarrow> metas s' k = metas s k) \<and>
    (layers_sound x (blobs s) (metas s) \<longrightarrow> layers_sound x (blobs s') (metas s')) \<and>
    deleted_blobs summary' = deleted_blobs summary + of_nat (2 * length cs) \<and>
    deleted_bytes summary' = deleted_bytes summary + sum_list (map (\<lambda>c. size_deploy_bytes c + size_cache_bytes c) cs)"
  using assms
proof (induction cs arbitrary: s summary)
  case Nil
  then show ?case by (simp add: ret_ok_def)
next
  case (Cons c cs)
  let ?h = "gc_content_hash c"
  let ?sum = "\<lparr>deleted_blobs = deleted_blobs summary + 2,
    deleted_bytes = deleted_bytes summary + (size_deploy_bytes c + size_cache_bytes c)\<rparr>"
  obtain t where t: "gc_delete x b ?h s = (Inr (), t)" "ok t"
    "blobs t = (blobs s)((?h, Deploy) := None, (?h, BuildCache) := None)" "metas t = drop_layer x ?h (metas s)"
    by (rule gc_delete_exact [OF Cons.prems])
  have two: "fst k = ?h \<longleftrightarrow> k = (?h, Deploy) \<or> k = (?h, BuildCache)" for k :: "ContentHash \<times> ArtifactFormat"
    by (cases k; cases "snd k") auto
  from Cons.IH [OF t(2), of ?sum] obtain summary' s' where IH:
    "gc_loop x b cs ?sum t = (Inr summary', s')" "ok s'"
    "\<forall>k. blobs s' k = (if fst k \<in> gc_content_hash ` set cs then None else blobs t k)"
    "\<forall>h. metas s' (layer_key x h) = (if h \<in> gc_content_hash ` set cs then None else metas t (layer_key x h))"
    "\<forall>k. (\<forall>i. k \<noteq> index_key x i) \<longrightarrow> (\<forall>h. k \<noteq> layer_key x h) \<longrightarrow> metas s' k = metas t k"
    "layers_sound x (blobs t) (metas t) \<longrightarrow> layers_sound x (blobs s') (metas s')"
    "deleted_blobs summary' = deleted_blobs ?sum + of_nat (2 * length cs)"
    "deleted_bytes summary' = deleted_bytes ?sum + sum_list (map (\<lambda>c. size_deploy_bytes c + size_cache_bytes c) cs)"
    by blast
  show ?case
  proof (intro exI conjI)
    show "gc_loop x b (c # cs) summary s = (Inr summary', s')"
      using t(1) IH(1) by (simp add: and_then_def)
    show "ok s'" by (rule IH(2))
    show "\<forall>k. blobs s' k = (if fst k \<in> gc_content_hash ` set (c # cs) then None else blobs s k)"
      using IH(3) t(3) two by auto
    show "\<forall>h. metas s' (layer_key x h) =
        (if h \<in> gc_content_hash ` set (c # cs) then None else metas s (layer_key x h))"
      using IH(4) t(4) by (auto simp: drop_layer_layer)
    show "\<forall>k. (\<forall>i. k \<noteq> index_key x i) \<longrightarrow> (\<forall>h. k \<noteq> layer_key x h) \<longrightarrow> metas s' k = metas s k"
      using IH(5) t(4) by simp
    show "layers_sound x (blobs s) (metas s) \<longrightarrow> layers_sound x (blobs s') (metas s')"
      using IH(6) t(3,4) drop_layer_sound by simp
    show "deleted_blobs summary' = deleted_blobs summary + of_nat (2 * length (c # cs))"
      using IH(7) by simp
    show "deleted_bytes summary' = deleted_bytes summary +
        sum_list (map (\<lambda>c. size_deploy_bytes c + size_cache_bytes c) (c # cs))"
      using IH(8) by (simp add: algebra_simps)
  qed
qed

end

end
