(* ===== verification/Layer_Safety.thy ===== *)
theory Layer_Safety
  imports Layer_Store
begin

text \<open>
  What the layer store guarantees: which layers garbage collection proposes and removes, that
  a resolved input hash leads to stored artifacts in every reachable state, and the round trips
  of layers, manifests, builds and tags. The theorems are stated for the in-memory backend and
  any codec that satisfies the laws of \<open>store_codec\<close>; their proofs use the locales only.
\<close>

section \<open>Candidates for collection\<close>

context reliable_store
begin

lemma get_manifest_exact:
  assumes "ok s"
  obtains s' where "same_view s s'"
    "get_manifest x b h s =
      (case metas s (manifest_key x h) of
         None \<Rightarrow> Inl NotFound
       | Some doc \<Rightarrow> (case manifest_from_slice x doc of Inl e \<Rightarrow> Inl (Serialization e) | Inr mf \<Rightarrow> Inr mf), s')"
proof -
  obtain t where g: "get_meta b (manifest_key x h) s = (Inr (metas s (manifest_key x h)), t)" "same_view s t"
    by (rule get_meta_exact [OF assms manifest_key_ok])
  show thesis
    by (rule that [OF g(2)]) (use g(1) in \<open>auto simp: get_manifest_def op_defs split: option.splits sum.splits\<close>)
qed

lemma list_meta_exact:
  assumes "ok s" and "p \<in> set meta_sections"
  obtains ks s' where "list_meta b p s = (Inr ks, s')" "same_view s s'" "distinct ks"
    "set ks = {k. metas s k \<noteq> None \<and> prefix p k}"
proof -
  obtain r s' where l: "list_meta b p s = (r, s')" by (cases "list_meta b p s")
  then obtain ks where "r = Inr ks" using list_meta_returns [OF assms] by auto
  with l list_meta_spec [OF assms l] that show thesis by (auto simp: same_view_def)
qed

lemma mark_live_exact:
  assumes "ok s"
  shows "\<exists>live s'. mark_live x b hs s = (Inr live, s') \<and> same_view s s' \<and>
    set live = (\<Union>h \<in> set hs. manifest_layers x (metas s) h)"
  using assms
proof (induction hs arbitrary: s)
  case Nil
  then show ?case by (simp add: ret_ok_def same_view_def)
next
  case (Cons h hs)
  obtain t where t: "same_view s t"
    "get_manifest x b h s =
      (case metas s (manifest_key x h) of
         None \<Rightarrow> Inl NotFound
       | Some doc \<Rightarrow> (case manifest_from_slice x doc of Inl e \<Rightarrow> Inl (Serialization e) | Inr mf \<Rightarrow> Inr mf), t)"
    by (rule get_manifest_exact [OF Cons.prems])
  then have "ok t" "metas t = metas s" by (simp_all add: same_view_def)
  with Cons.IH [of t] obtain live s' where IH: "mark_live x b hs t = (Inr live, s')" "same_view t s'"
    "set live = (\<Union>h \<in> set hs. manifest_layers x (metas s) h)" by auto
  have "same_view s s'" using t(1) IH(2) by (simp add: same_view_def)
  then show ?case
    using t(2) IH(1,3) by (auto simp: op_defs manifest_layers_def split: option.splits sum.splits)
qed

lemma collect_tags_returns: "ok s \<Longrightarrow> \<exists>tags. fst (collect_tags x b keys s) = Inr tags"
proof (induction keys arbitrary: s)
  case Nil
  then show ?case by (simp add: ret_ok_def)
next
  case (Cons key keys)
  show ?case
  proof (cases "strip_prefix key ''tags/''")
    case None
    then show ?thesis using Cons by simp
  next
    case (Some n)
    obtain r t where g: "get_tag x b n s = (r, t)" by (cases "get_tag x b n s")
    then have "ok t" using readsD [OF reads_store(6) g Cons.prems] by simp
    with Cons.IH obtain tags where "fst (collect_tags x b keys t) = Inr tags" by blast
    then show ?thesis using Some g
      by (cases "collect_tags x b keys t") (auto simp: op_defs)
  qed
qed

lemma list_tags_exact:
  assumes "ok s"
  obtains tags s' where "list_tags x b s = (Inr tags, s')" "same_view s s'"
proof -
  obtain ks t where l: "list_meta b ''tags/'' s = (Inr ks, t)" "same_view s t"
    by (rule list_meta_exact [OF assms, of "''tags/''"]) (auto simp: meta_sections_def)
  obtain r s' where c: "collect_tags x b ks t = (r, s')" by (cases "collect_tags x b ks t")
  have t: "ok t" using l(2) by (simp add: same_view_def)
  obtain tags where "r = Inr tags" using collect_tags_returns [OF t, of ks] c by auto
  moreover have "same_view s s'"
    using readsD [OF reads_collect_tags c t] l(2) by (simp add: same_view_def)
  ultimately show thesis using that l c by (simp add: list_tags_def and_then_def)
qed

text \<open>The sweep adds no live layer and misses no recorded layer that is not live.\<close>

definition swept ::
  "ContentHash list \<Rightarrow> string list \<Rightarrow> 'b \<Rightarrow> GcReport \<Rightarrow> GcCandidate list \<Rightarrow> GcReport \<Rightarrow> 'b \<Rightarrow> bool" where
  "swept live keys s rep cs rep' s' \<longleftrightarrow>
     same_view s s' \<and> candidates rep' = candidates rep @ cs \<and> (\<forall>c \<in> set cs. gc_content_hash c \<notin> set live) \<and>
     total_reclaimable_bytes rep' = total_reclaimable_bytes rep +
       sum_list (map (\<lambda>c. size_deploy_bytes c + size_cache_bytes c) cs) \<and>
     (\<forall>h m. layer_key x h \<in> set keys \<longrightarrow> h \<notin> set live \<longrightarrow> recorded x (metas s) h m \<longrightarrow>
        h \<in> gc_content_hash ` set cs)"

lemma swept_skip:
  assumes "swept live keys t rep cs rep' s'" and "same_view s t"
    and "\<And>g m. layer_key x g = key \<Longrightarrow> g \<notin> set live \<Longrightarrow> \<not> recorded x (metas s) g m"
  shows "swept live (key # keys) s rep cs rep' s'"
  unfolding swept_def
proof (intro conjI allI impI)
  fix h m
  assume "layer_key x h \<in> set (key # keys)" "h \<notin> set live" "recorded x (metas s) h m"
  with assms(3) [of h m] have "layer_key x h \<in> set keys" by auto
  with assms(1,2) \<open>h \<notin> set live\<close> \<open>recorded x (metas s) h m\<close> show "h \<in> gc_content_hash ` set cs"
    unfolding swept_def same_view_def by metis
qed (use assms in \<open>auto simp: swept_def same_view_def\<close>)

lemma swept_add:
  assumes "swept live keys t (rep\<lparr>candidates := candidates rep @ [c],
      total_reclaimable_bytes := total_reclaimable_bytes rep + (size_deploy_bytes c + size_cache_bytes c)\<rparr>) cs rep' s'"
    and "same_view s t" and "gc_content_hash c \<notin> set live"
    and "\<And>g. layer_key x g = key \<Longrightarrow> g = gc_content_hash c"
  shows "swept live (key # keys) s rep (c # cs) rep' s'"
  unfolding swept_def
proof (intro conjI allI impI)
  fix h m
  assume "layer_key x h \<in> set (key # keys)" "h \<notin> set live" "recorded x (metas s) h m"
  with assms show "h \<in> gc_content_hash ` set (c # cs)"
    unfolding swept_def same_view_def by (cases "layer_key x h = key") auto
qed (use assms in \<open>auto simp: swept_def same_view_def algebra_simps\<close>)

lemma sweep_exact:
  assumes "ok s"
  shows "\<exists>cs rep' s'. sweep x b live keys rep s = (Inr rep', s') \<and> swept live keys s rep cs rep' s'"
  using assms
proof (induction keys arbitrary: s rep)
  case Nil
  then show ?case by (simp add: ret_ok_def swept_def same_view_def)
next
  case (Cons key keys)
  have skip: "\<exists>cs rep' s'. sweep x b live (key # keys) rep s = (Inr rep', s') \<and> swept live (key # keys) s rep cs rep' s'"
    if "sweep x b live (key # keys) rep s = sweep x b live keys rep t" "same_view s t"
      "\<And>g m. layer_key x g = key \<Longrightarrow> g \<notin> set live \<Longrightarrow> \<not> recorded x (metas s) g m" for t
  proof -
    have "ok t" using that(2) by (simp add: same_view_def)
    from Cons.IH [OF this, of rep] obtain cs rep' s' where "sweep x b live keys rep t = (Inr rep', s')"
      and sw: "swept live keys t rep cs rep' s'" by blast
    moreover have "swept live (key # keys) s rep cs rep' s'" by (rule swept_skip [OF sw that(2,3)])
    ultimately show ?thesis using that(1) by metis
  qed
  have refl: "same_view s s" using Cons.prems by (simp add: same_view_def)
  consider "strip_prefix key ''layers/'' = None"
    | str e where "strip_prefix key ''layers/'' = Some str" "ContentHash_from_str x str = Inl e"
    | str h where "strip_prefix key ''layers/'' = Some str" "ContentHash_from_str x str = Inr h"
    by (metis option.exhaust sum.exhaust)
  then show ?case
  proof cases
    case 1
    then have "layer_key x h \<noteq> key" for h by (metis option.distinct(1) strip_key(2))
    then show ?thesis using skip [OF _ refl] 1 by simp
  next
    case 2
    then have "layer_key x h \<noteq> key" for h
      by (metis content_roundtrip option.inject strip_key(2) sum.distinct(1))
    then show ?thesis using skip [OF _ refl] 2 by simp
  next
    case (3 str h)
    have self: "layer_key x g = key \<Longrightarrow> g = h" for g
      using 3 by (metis content_roundtrip option.inject strip_key(2) sum.inject(2))
    show ?thesis
    proof (cases "h \<in> set live")
      case True
      then show ?thesis using skip [OF _ refl] 3 self by auto
    next
      case False
      obtain r t where g: "get_meta b key s = (r, t)" by (cases "get_meta b key s")
      note t = get_meta_view [OF Cons.prems g]
      then have okt: "ok t" by (simp add: same_view_def)
      show ?thesis
      proof (cases "\<exists>data m. r = Inr (Some data) \<and> meta_from_slice x data = Inr m")
        case True
        then obtain data m where m: "r = Inr (Some data)" "meta_from_slice x data = Inr m" by blast
        let ?c = "\<lparr>gc_content_hash = h, size_deploy_bytes = compressed_size_deploy m,
                   size_cache_bytes = compressed_size_cache m\<rparr>"
        let ?rep = "rep\<lparr>candidates := candidates rep @ [?c],
          total_reclaimable_bytes := total_reclaimable_bytes rep + (size_deploy_bytes ?c + size_cache_bytes ?c)\<rparr>"
        from Cons.IH [OF okt, of ?rep] obtain cs rep' s' where IH: "sweep x b live keys ?rep t = (Inr rep', s')"
          "swept live keys t ?rep cs rep' s'" by blast
        have "sweep x b live (key # keys) rep s = (Inr rep', s')"
          using IH(1) 3 m g False by (simp add: op_defs)
        then show ?thesis using swept_add [OF IH(2) t] False self by auto
      next
        case none: False
        then have run: "sweep x b live (key # keys) rep s = sweep x b live keys rep t"
          using 3 g False by (auto simp: op_defs split: option.splits sum.splits)
        have "\<not> recorded x (metas s) g' m" if "layer_key x g' = key" for g' m
          using none g that get_meta_spec [OF Cons.prems layer_key_ok [of g']] get_meta_returns [OF Cons.prems layer_key_ok [of g']]
          by (auto simp: recorded_def split: option.splits)
        then show ?thesis using skip [OF run t] by blast
      qed
    qed
  qed
qed

end

context reliable_store
begin

lemma manifest_hashes_live:
  assumes "set ks = {k. metas s k \<noteq> None \<and> prefix ''manifests/'' k}"
  shows "(\<Union>h \<in> set (map snd tags @ manifest_keys_hashes x ks). manifest_layers x (metas s) h) = live_layers x (metas s)"
proof -
  have "g \<in> set (manifest_keys_hashes x ks)" if "manifest_layers x (metas s) g \<noteq> {}" for g
  proof -
    have "manifest_key x g \<in> set ks"
      using that assms by (auto simp: manifest_layers_def split: option.splits)
    then show ?thesis by (force simp: manifest_keys_hashes_def)
  qed
  then show ?thesis unfolding live_layers_def by auto
qed

lemma gc_candidates_exact:
  assumes "ok s"
  obtains rep s' where "gc_candidates x b s = (Inr rep, s')" "same_view s s'"
    "\<And>c. c \<in> set (candidates rep) \<Longrightarrow> gc_content_hash c \<notin> live_layers x (metas s)"
    "\<And>h m. recorded x (metas s) h m \<Longrightarrow> h \<notin> live_layers x (metas s) \<Longrightarrow> h \<in> gc_content_hash ` set (candidates rep)"
    "total_reclaimable_bytes rep = sum_list (map (\<lambda>c. size_deploy_bytes c + size_cache_bytes c) (candidates rep))"
proof -
  obtain tags s1 where 1: "list_tags x b s = (Inr tags, s1)" "same_view s s1"
    by (rule list_tags_exact [OF assms])
  then have ok1: "ok s1" by (simp add: same_view_def)
  obtain mks s2 where 2: "list_meta b ''manifests/'' s1 = (Inr mks, s2)" "same_view s1 s2"
    "set mks = {k. metas s1 k \<noteq> None \<and> prefix ''manifests/'' k}"
    by (rule list_meta_exact [OF ok1, of "''manifests/''"]) (auto simp: meta_sections_def)
  then have ok2: "ok s2" by (simp add: same_view_def)
  let ?hs = "remdups (map snd tags @ manifest_keys_hashes x mks)"
  obtain live s3 where 3: "mark_live x b ?hs s2 = (Inr live, s3)" "same_view s2 s3"
    "set live = (\<Union>h \<in> set ?hs. manifest_layers x (metas s2) h)"
    using mark_live_exact [OF ok2, of ?hs] by blast
  then have ok3: "ok s3" by (simp add: same_view_def)
  obtain lks s4 where 4: "list_meta b ''layers/'' s3 = (Inr lks, s4)" "same_view s3 s4"
    "set lks = {k. metas s3 k \<noteq> None \<and> prefix ''layers/'' k}"
    by (rule list_meta_exact [OF ok3, of "''layers/''"]) (auto simp: meta_sections_def)
  then have ok4: "ok s4" by (simp add: same_view_def)
  obtain cs rep s' where 5: "sweep x b live lks \<lparr>candidates = [], total_reclaimable_bytes = 0\<rparr> s4 = (Inr rep, s')"
    "swept live lks s4 \<lparr>candidates = [], total_reclaimable_bytes = 0\<rparr> cs rep s'"
    using sweep_exact [OF ok4] by blast
  have M: "metas s1 = metas s" "metas s2 = metas s" "metas s3 = metas s" "metas s4 = metas s"
    using 1 2 3 4 by (simp_all add: same_view_def)
  have live: "set live = live_layers x (metas s)"
    using manifest_hashes_live [of mks s tags] 2(3) 3(3) M by simp
  show thesis
  proof (rule that)
    show "gc_candidates x b s = (Inr rep, s')"
      using 1(1) 2(1) 3(1) 4(1) 5(1) by (simp add: gc_candidates_def and_then_def)
    show "same_view s s'" using 1(2) 2(2) 3(2) 4(2) 5(2) by (simp add: same_view_def swept_def)
    show "gc_content_hash c \<notin> live_layers x (metas s)" if "c \<in> set (candidates rep)" for c
      using 5(2) live that by (auto simp: swept_def)
    show "h \<in> gc_content_hash ` set (candidates rep)"
      if "recorded x (metas s) h m" "h \<notin> live_layers x (metas s)" for h m
    proof -
      have "layer_key x h \<in> set lks" using 4(3) M recorded_present [OF that(1)] by simp
      then show ?thesis using 5(2) live that M unfolding swept_def by auto
    qed
    show "total_reclaimable_bytes rep = sum_list (map (\<lambda>c. size_deploy_bytes c + size_cache_bytes c) (candidates rep))"
      using 5(2) by (simp add: swept_def)
  qed
qed

lemma gc_round:
  assumes "ok s" and "gc_candidates x b s = (r1, s1)"
  obtains rep summary s2 where "r1 = Inr rep" "gc_execute x b rep s1 = (Inr summary, s2)" "ok s2"
    "\<And>h f. h \<in> live_layers x (metas s) \<Longrightarrow> blobs s2 (h, f) = blobs s (h, f)"
    "\<And>h. h \<in> live_layers x (metas s) \<Longrightarrow> metas s2 (layer_key x h) = metas s (layer_key x h)"
    "\<And>h m f. recorded x (metas s) h m \<Longrightarrow> h \<notin> live_layers x (metas s) \<Longrightarrow>
       blobs s2 (h, f) = None \<and> metas s2 (layer_key x h) = None"
    "\<And>k. (\<And>i. k \<noteq> index_key x i) \<Longrightarrow> (\<And>h. k \<noteq> layer_key x h) \<Longrightarrow> metas s2 k = metas s k"
    "layers_sound x (blobs s) (metas s) \<Longrightarrow> layers_sound x (blobs s2) (metas s2)"
    "deleted_bytes summary = total_reclaimable_bytes rep"
    "deleted_blobs summary = of_nat (2 * length (candidates rep))"
proof -
  obtain rep s' where c: "gc_candidates x b s = (Inr rep, s')" "same_view s s'"
    "\<And>c. c \<in> set (candidates rep) \<Longrightarrow> gc_content_hash c \<notin> live_layers x (metas s)"
    "\<And>h m. recorded x (metas s) h m \<Longrightarrow> h \<notin> live_layers x (metas s) \<Longrightarrow> h \<in> gc_content_hash ` set (candidates rep)"
    "total_reclaimable_bytes rep = sum_list (map (\<lambda>c. size_deploy_bytes c + size_cache_bytes c) (candidates rep))"
    using gc_candidates_exact [OF assms(1)] by blast
  have s1: "ok s1" "blobs s1 = blobs s" "metas s1 = metas s" "r1 = Inr rep"
    using c(1,2) assms(2) by (simp_all add: same_view_def)
  show thesis
    using gc_loop_exact [OF s1(1), of "candidates rep" "\<lparr>deleted_blobs = 0, deleted_bytes = 0\<rparr>"]
    by (elim exE conjE, intro that) (use s1 c in \<open>auto simp: gc_execute_def\<close>)
qed

lemma gc_round_effect:
  assumes "ok s" and "gc_candidates x b s = (Inr rep, s1)" and "gc_execute x b rep s1 = (r, s2)"
  shows "h \<in> live_layers x (metas s) \<Longrightarrow>
      blobs s2 (h, f) = blobs s (h, f) \<and> metas s2 (layer_key x h) = metas s (layer_key x h)"
    and "metas s2 (manifest_key x g) = metas s (manifest_key x g)"
    and "metas s2 (tag_key n) = metas s (tag_key n)"
    and "metas s2 (build_key j) = metas s (build_key j)"
proof -
  obtain summary where e: "r = Inr summary"
    "\<And>h f. h \<in> live_layers x (metas s) \<Longrightarrow> blobs s2 (h, f) = blobs s (h, f)"
    "\<And>h. h \<in> live_layers x (metas s) \<Longrightarrow> metas s2 (layer_key x h) = metas s (layer_key x h)"
    "\<And>k. (\<And>i. k \<noteq> index_key x i) \<Longrightarrow> (\<And>h. k \<noteq> layer_key x h) \<Longrightarrow> metas s2 k = metas s k"
    by (rule gc_round [OF assms(1,2)]) (use assms(3) in auto)
  show "h \<in> live_layers x (metas s) \<Longrightarrow>
      blobs s2 (h, f) = blobs s (h, f) \<and> metas s2 (layer_key x h) = metas s (layer_key x h)"
    using e(2,3) by blast
  show "metas s2 (manifest_key x g) = metas s (manifest_key x g)" "metas s2 (tag_key n) = metas s (tag_key n)"
    "metas s2 (build_key j) = metas s (build_key j)"
    by (rule e(4); simp)+
qed

end

lemma mem_store:
  "store_codec x \<Longrightarrow>
     reliable_store x memory_backend (\<lambda>s. map_of (mem_blobs s)) (\<lambda>s. map_of (mem_meta s)) mem_ok (\<lambda>k. True) True"
  by (intro reliable_store.intro layer_store.intro layer_store_axioms.intro
      mem.storage_backend_axioms mem.reliable_backend_axioms) simp_all

interpretation sample_store: reliable_store
  sample_codec memory_backend "\<lambda>s. map_of (mem_blobs s)" "\<lambda>s. map_of (mem_meta s)" mem_ok "\<lambda>k. True" True
  by (rule mem_store) (rule sample.store_codec_axioms)

section \<open>Reachable states\<close>

datatype request =
    PublishLayer reader reader LayerMeta
  | PublishLayerConcurrent bool reader reader LayerMeta
  | PublishManifest u64 string ReleaseManifest
  | CreateTag string ContentHash
  | UpdateTag string ContentHash
  | DeleteTag string
  | GcExecute GcReport

fun serve :: "store_ext \<Rightarrow> 'b StorageBackend \<Rightarrow> request \<Rightarrow> 'b \<Rightarrow> 'b" where
  "serve x b (PublishLayer dr cr m) s = snd (publish_layer x b dr cr m s)"
| "serve x b (PublishLayerConcurrent first dr cr m) s = snd (publish_layer_concurrent first x b dr cr m s)"
| "serve x b (PublishManifest ts uuid mf) s = snd (publish_manifest x b ts uuid mf s)"
| "serve x b (CreateTag n h) s = snd (create_tag x b n h s)"
| "serve x b (UpdateTag n h) s = snd (update_tag x b n h s)"
| "serve x b (DeleteTag n) s = snd (delete_tag b n s)"
| "serve x b (GcExecute rep) s = snd (gc_execute x b rep s)"

text \<open>One request, whatever its outcome.\<close>

inductive store_step :: "store_ext \<Rightarrow> 'b StorageBackend \<Rightarrow> 'b \<Rightarrow> 'b \<Rightarrow> bool"
  for x :: store_ext and b :: "'b StorageBackend" where
  request: "store_step x b s (serve x b q s)"

inductive_cases store_stepE: "store_step x b s t"

definition store_sound ::
  "store_ext \<Rightarrow> (ContentHash \<times> ArtifactFormat \<Rightarrow> bytes option) \<Rightarrow> (string \<Rightarrow> bytes option) \<Rightarrow> bool" where
  "store_sound x B M \<longleftrightarrow> layers_sound x B M \<and> checksums_sound x B M"

lemma store_sound_other:
  assumes "store_sound x B M" and "\<And>h. layer_key x h \<noteq> k" and "\<And>i. index_key x i \<noteq> k"
  shows "store_sound x B (M(k := v))"
  using assms layers_sound_other checksums_sound_other unfolding store_sound_def by blast

lemma recorded_cong: "M' (layer_key x h) = M (layer_key x h) \<Longrightarrow> recorded x M' h = recorded x M h"
  by (rule ext) (simp add: recorded_def)

text \<open>Checksums depend on the layer documents and the blobs of the recorded layers only.\<close>

lemma checksums_sound_keep:
  assumes "checksums_sound x B M"
    and "\<And>h m. recorded x M' h m \<Longrightarrow> recorded x M h m \<and> (\<forall>f. B' (h, f) = B (h, f))"
  shows "checksums_sound x B' M'"
  unfolding checksums_sound_def
proof (intro allI impI)
  fix h m assume "recorded x M' h m"
  with assms(2) have "recorded x M h m" "B' (h, f) = B (h, f)" for f by blast+
  with assms(1) show "map_option (document_hash x) (B' (h, Deploy)) = Some (file_checksum_deploy m) \<and>
      map_option (document_hash x) (B' (h, BuildCache)) = Some (file_checksum_cache m)"
    unfolding checksums_sound_def by metis
qed

context layer_store
begin

lemma uploaded_checksums:
  assumes "uploaded dr cr h s t" and "checksums_sound x (blobs s) (metas s)" and "metas s (layer_key x h) = None"
  shows "checksums_sound x (blobs t) (metas t)"
proof (rule checksums_sound_keep [OF assms(2)])
  fix g m assume g: "recorded x (metas t) g m"
  with assms(1,3) have "g \<noteq> h" by (auto simp: uploaded_def recorded_def)
  with assms(1) g show "recorded x (metas s) g m \<and> (\<forall>f. blobs t (g, f) = blobs s (g, f))"
    by (simp add: uploaded_def)
qed

lemma record_layer_checksums:
  assumes "ok t" and "record_layer x b m t = (r, s')" and "checksums_sound x (blobs t) (metas t)"
    and "map_option (document_hash x) (blobs t (content_hash m, Deploy)) = Some (file_checksum_deploy m)"
    and "map_option (document_hash x) (blobs t (content_hash m, BuildCache)) = Some (file_checksum_cache m)"
  shows "checksums_sound x (blobs s') (metas s')"
proof -
  have doc: "checksums_sound x (blobs t) ((metas t)(layer_key x (content_hash m) \<mapsto> doc))"
    if "meta_to_vec x m = Inr doc" for doc
    unfolding checksums_sound_def
  proof (intro allI impI)
    fix g n assume r: "recorded x ((metas t)(layer_key x (content_hash m) \<mapsto> doc)) g n"
    show "map_option (document_hash x) (blobs t (g, Deploy)) = Some (file_checksum_deploy n) \<and>
        map_option (document_hash x) (blobs t (g, BuildCache)) = Some (file_checksum_cache n)"
      using r assms(3-5) recorded_self [OF that] recorded_other
      by (cases "g = content_hash m") (auto simp: checksums_sound_def recorded_other)
  qed
  from record_layer_spec [OF assms(1,2)] show ?thesis
    using assms(3) doc checksums_sound_other [OF doc] by auto
qed

lemma publishes_store_sound:
  assumes "publishes dr cr m s r s'" and "ok s" and "store_sound x (blobs s) (metas s)"
    and "blobs s (content_hash m, BuildCache) = None \<or> overwrites"
  shows "ok s' \<and> store_sound x (blobs s') (metas s')"
proof -
  let ?h = "content_hash m"
  have L: "layers_sound x (blobs s) (metas s)" and C: "checksums_sound x (blobs s) (metas s)"
    using assms(3) by (simp_all add: store_sound_def)
  have fresh: "metas s (layer_key x ?h) = None" if "blobs s (?h, Deploy) = None"
    using L that by (auto simp: layers_sound_def stored_def)
  consider "same_view s s'" | "blobs s (?h, Deploy) = None" "uploaded dr cr ?h s s'"
    | t d c where "blobs s (?h, Deploy) = None" "uploaded dr cr ?h s t" "blobs t (?h, Deploy) = Some d"
        "blobs t (?h, BuildCache) = Some c"
        "record_layer x b (m\<lparr>file_checksum_deploy := document_hash x d,
           file_checksum_cache := document_hash x c\<rparr>) t = (r, s')"
    using assms(1) unfolding publishes_def Let_def
    by (simp only: assms(4) simp_thms) (elim disjE conjE exE, auto)
  then have "checksums_sound x (blobs s') (metas s')"
  proof cases
    case 1
    then show ?thesis using C by (simp add: same_view_def)
  next
    case 2
    then show ?thesis using uploaded_checksums [OF _ C] fresh by blast
  next
    case 3
    have "ok t" using 3(2) by (simp add: uploaded_def)
    then show ?thesis
      by (rule record_layer_checksums [OF _ 3(5) uploaded_checksums [OF 3(2) C fresh [OF 3(1)]]]) (use 3 in simp_all)
  qed
  then show ?thesis using publishes_sound [OF assms(1,2) L] by (simp add: store_sound_def)
qed

end

context reliable_store
begin

lemma gc_execute_sound:
  assumes "ok s" and "store_sound x (blobs s) (metas s)" and "gc_execute x b rep s = (r, s')"
  shows "ok s' \<and> store_sound x (blobs s') (metas s')"
proof -
  let ?hs = "gc_content_hash ` set (candidates rep)"
  from gc_loop_exact [OF assms(1), of "candidates rep" "\<lparr>deleted_blobs = 0, deleted_bytes = 0\<rparr>"] assms(3)
  have e: "ok s'" "\<forall>k. blobs s' k = (if fst k \<in> ?hs then None else blobs s k)"
    "\<forall>h. metas s' (layer_key x h) = (if h \<in> ?hs then None else metas s (layer_key x h))"
    "layers_sound x (blobs s) (metas s) \<longrightarrow> layers_sound x (blobs s') (metas s')"
    by (auto simp: gc_execute_def)
  have "checksums_sound x (blobs s') (metas s')"
  proof (rule checksums_sound_keep)
    show "checksums_sound x (blobs s) (metas s)" using assms(2) by (simp add: store_sound_def)
    fix h m assume "recorded x (metas s') h m"
    moreover from this have "h \<notin> ?hs" using e(3) recorded_present by fastforce
    ultimately show "recorded x (metas s) h m \<and> (\<forall>f. blobs s' (h, f) = blobs s (h, f))"
      using e(2,3) recorded_cong [of "metas s'" x h "metas s"] by simp
  qed
  with e assms(2) show ?thesis by (simp add: store_sound_def)
qed

end

context reliable_store
begin

lemma serve_sound:
  assumes "\<And>k. key_ok k" and "overwrites" and "ok s" and "store_sound x (blobs s) (metas s)"
  shows "ok (serve x b q s) \<and> store_sound x (blobs (serve x b q s)) (metas (serve x b q s))"
proof (cases q)
  case (PublishLayer dr cr m)
  then show ?thesis
    using publishes_store_sound [OF publish_layer_publishes [OF assms(3)] assms(3,4)] assms(2)
    by (cases "publish_layer x b dr cr m s") auto
next
  case (PublishLayerConcurrent first dr cr m)
  then show ?thesis
    using publishes_store_sound [OF publish_concurrent_publishes [OF assms(3)] assms(3,4)] assms(2)
    by (cases "publish_layer_concurrent first x b dr cr m s") auto
next
  case (PublishManifest ts uuid mf)
  then show ?thesis
    using publish_manifest_spec [OF assms(3) assms(1) surjective_pairing [of "publish_manifest x b ts uuid mf s"]] assms(4)
    by (auto intro!: store_sound_other)
next
  case (CreateTag n h)
  then show ?thesis
    using create_tag_spec [OF assms(3) assms(1) surjective_pairing [of "create_tag x b n h s"]] assms(4)
    by (auto intro!: store_sound_other)
next
  case (UpdateTag n h)
  then show ?thesis
    using create_tag_spec [OF assms(3) assms(1) surjective_pairing [of "create_tag x b n h s"]] assms(4)
    by (auto simp: update_tag_def intro!: store_sound_other)
next
  case (DeleteTag n)
  obtain t where "delete_meta b (tag_key n) s = (Inr (), t)" "ok t" "blobs t = blobs s"
    "metas t = (metas s)(tag_key n := None)"
    by (rule delete_meta_exact [OF assms(3,1)])
  with DeleteTag show ?thesis
    using assms(4) by (auto simp: delete_tag_def intro!: store_sound_other)
next
  case (GcExecute rep)
  then show ?thesis
    using gc_execute_sound [OF assms(3,4)] by (cases "gc_execute x b rep s") auto
qed

lemma serve_invariant:
  assumes "\<And>k. key_ok k" and "overwrites"
  shows "invariant_system (store_step x b) (\<lambda>s. ok s \<and> store_sound x (blobs s) (metas s))"
  using serve_sound [OF assms] by unfold_locales (auto elim!: store_stepE)

lemma index_hash:
  assumes "ok s" and "layers_sound x (blobs s) (metas s)"
  shows "\<exists>r s'. resolve_input_hash x b i s = (Inr r, s') \<and> same_view s s' \<and>
    (\<forall>h. r = Some h \<longleftrightarrow> metas s (index_key x i) = Some (as_bytes (show_ContentHash x h)))"
proof -
  obtain t where g: "get_meta b (index_key x i) s = (Inr (metas s (index_key x i)), t)" "same_view s t"
    by (rule get_meta_exact [OF assms(1) index_key_ok])
  have inj: "as_bytes (show_ContentHash x h) = as_bytes (show_ContentHash x h') \<longleftrightarrow> h = h'" for h h'
    by (metis of_bytes_as_bytes show_content_inj)
  show ?thesis
  proof (cases "metas s (index_key x i)")
    case None
    with g show ?thesis by (simp add: resolve_input_hash_def op_defs)
  next
    case (Some v)
    then obtain h where h: "v = as_bytes (show_ContentHash x h)"
      using assms(2) unfolding layers_sound_def by blast
    with g Some show ?thesis by (simp add: resolve_input_hash_def op_defs inj)
  qed
qed

lemma pull_exact:
  assumes "ok s" and "blobs s (h, f) = Some d"
  shows "\<exists>rd s'. pull_layer b h f s = (Inr rd, s') \<and> same_view s s' \<and> drain (events rd) = Inr d"
proof -
  obtain r s' where g: "get_blob b h f s = (r, s')" by (cases "get_blob b h f s")
  then obtain rd where "r = Inr rd" using get_blob_returns [OF assms] by auto
  with g get_blob_spec [OF assms(1) g] assms(2) show ?thesis
    by (auto simp: pull_layer_def same_view_def)
qed

lemma pull_missing: "ok s \<Longrightarrow> blobs s (h, f) = None \<Longrightarrow> fst (pull_layer b h f s) = Inl NotFound"
  by (simp add: pull_layer_def get_blob_missing)

lemma resolve_pull:
  assumes "ok s" and "layers_sound x (blobs s) (metas s)"
    and "resolve_input_hash x b i s = (Inr (Some h), s')"
  shows "(\<exists>m. recorded x (metas s) h m \<and> input_hash m = i \<and> content_hash m = h) \<and>
    (\<exists>rd d t. pull_layer b h f s = (Inr rd, t) \<and> drain (events rd) = Inr d)"
proof -
  have v: "metas s (index_key x i) = Some (as_bytes (show_ContentHash x h))"
    using index_hash [OF assms(1,2), of i] assms(3) by auto
  then obtain g m where g: "as_bytes (show_ContentHash x h) = as_bytes (show_ContentHash x g)"
    "recorded x (metas s) g m" "input_hash m = i"
    using assms(2) unfolding layers_sound_def by blast
  then have "g = h" by (metis of_bytes_as_bytes show_content_inj)
  with g recorded_present [of x "metas s" h m] assms(2) have m: "recorded x (metas s) h m"
    "stored (blobs s) h" "\<exists>n. recorded x (metas s) h n \<and> content_hash n = h"
    unfolding layers_sound_def by blast+
  then obtain d where "blobs s (h, f) = Some d" by (cases f) (auto simp: stored_def)
  from pull_exact [OF assms(1) this] m g(3) show ?thesis by (metis recorded_unique)
qed

end

lemma mem_invariant:
  "store_codec x \<Longrightarrow> invariant_system (store_step x memory_backend)
     (\<lambda>s. mem_ok s \<and> store_sound x (map_of (mem_blobs s)) (map_of (mem_meta s)))"
  by (rule reliable_store.serve_invariant [OF mem_store]) simp_all

lemma mem_new_sound:
  "mem_ok new_InMemoryBackend \<and>
     store_sound x (map_of (mem_blobs new_InMemoryBackend)) (map_of (mem_meta new_InMemoryBackend))"
  by (simp add: mem_ok_def new_InMemoryBackend_def store_sound_def layers_sound_def checksums_sound_def recorded_def)

lemma mem_reachable_sound:
  "store_codec x \<Longrightarrow> (store_step x memory_backend)\<^sup>*\<^sup>* new_InMemoryBackend s \<Longrightarrow>
     mem_ok s \<and> store_sound x (map_of (mem_blobs s)) (map_of (mem_meta s))"
  using invariant_system.inv_steps [OF mem_invariant] mem_new_sound by blast

section \<open>Publishing succeeds\<close>

context reliable_store
begin

lemma upload_exact:
  assumes "ok s" and "drain (events rd) = Inr d" and "blobs s (h, f) = None \<or> overwrites"
  obtains s' where "upload x b h f rd s = (Inr (document_hash x d), s')" "ok s'" "metas s' = metas s"
    "blobs s' = (blobs s)((h, f) \<mapsto> d)"
proof -
  obtain r s' where u: "upload x b h f rd s = (r, s')" by (cases "upload x b h f rd s")
  have "fst (put_blob b h f (new_HashingReader rd) s) = Inr ()"
    by (rule put_blob_returns [OF assms(1), of _ d]) (simp add: assms(2) new_HashingReader_def)
  then obtain c where r: "r = Inr c"
    using u by (cases "put_blob b h f (new_HashingReader rd) s") (auto simp: upload_def)
  from upload_spec [OF assms(1) u] r assms(2,3) have "ok s'" "metas s' = metas s"
    "blobs s' = (blobs s)((h, f) \<mapsto> d)" "c = document_hash x d" by auto
  then show thesis using that u r by simp
qed

lemma has_layer_exact:
  assumes "ok s"
  obtains s' where "has_layer b h s = (Inr (blobs s (h, Deploy) \<noteq> None), s')" "same_view s s'"
proof -
  obtain r s' where g: "has_blob b h Deploy s = (r, s')" by (cases "has_blob b h Deploy s")
  with has_blob_returns [OF assms, of h Deploy] has_blob_spec [OF assms g] that show thesis
    by (auto simp: has_layer_def same_view_def)
qed

lemma put_meta_exact:
  assumes "ok s" and "key_ok k"
  obtains s' where "put_meta b k v s = (Inr (), s')" "ok s'" "blobs s' = blobs s" "metas s' = (metas s)(k \<mapsto> v)"
proof -
  obtain r s' where g: "put_meta b k v s = (r, s')" by (cases "put_meta b k v s")
  with put_meta_returns [OF assms, of v] put_meta_spec [OF assms g] that show thesis by auto
qed

lemma record_layer_exact:
  assumes "ok s" and "meta_to_vec x m = Inr doc"
  obtains s' where "record_layer x b m s = (Inr (content_hash m), s')" "ok s'" "blobs s' = blobs s"
    "metas s' = (metas s)(layer_key x (content_hash m) \<mapsto> doc,
       index_key x (input_hash m) \<mapsto> as_bytes (show_ContentHash x (content_hash m)))"
proof -
  obtain s1 where 1: "put_meta b (layer_key x (content_hash m)) doc s = (Inr (), s1)" "ok s1" "blobs s1 = blobs s"
    "metas s1 = (metas s)(layer_key x (content_hash m) \<mapsto> doc)"
    by (rule put_meta_exact [OF assms(1) layer_key_ok])
  obtain s2 where 2: "put_meta b (index_key x (input_hash m)) (as_bytes (show_ContentHash x (content_hash m))) s1 = (Inr (), s2)"
    "ok s2" "blobs s2 = blobs s1"
    "metas s2 = (metas s1)(index_key x (input_hash m) \<mapsto> as_bytes (show_ContentHash x (content_hash m)))"
    by (rule put_meta_exact [OF 1(2) index_key_ok])
  have "record_layer x b m s = (Inr (content_hash m), s2)"
    using assms(2) 1(1) 2(1) by (simp add: record_layer_def register_input_hash_def op_defs)
  then show thesis using that 1 2 by simp
qed

text \<open>The metadata that ends up in the layer document.\<close>

abbreviation summed :: "LayerMeta \<Rightarrow> bytes \<Rightarrow> bytes \<Rightarrow> LayerMeta" where
  "summed m d c \<equiv> m\<lparr>file_checksum_deploy := document_hash x d, file_checksum_cache := document_hash x c\<rparr>"

definition published :: "LayerMeta \<Rightarrow> bytes \<Rightarrow> bytes \<Rightarrow> bytes \<Rightarrow> 'b \<Rightarrow> 'b \<Rightarrow> bool" where
  "published m d c doc s s' \<longleftrightarrow>
     ok s' \<and> blobs s' = (blobs s)((content_hash m, Deploy) \<mapsto> d, (content_hash m, BuildCache) \<mapsto> c) \<and>
     metas s' = (metas s)(layer_key x (content_hash m) \<mapsto> doc,
       index_key x (input_hash m) \<mapsto> as_bytes (show_ContentHash x (content_hash m)))"

lemma publish_fresh:
  assumes "ok s" and "blobs s (content_hash m, Deploy) = None" and "blobs s (content_hash m, BuildCache) = None \<or> overwrites"
    and "drain (events dr) = Inr d" and "drain (events cr) = Inr c" and "meta_to_vec x (summed m d c) = Inr doc"
  shows "\<exists>s'. publish_layer x b dr cr m s = (Inr (content_hash m), s') \<and> published m d c doc s s'"
    and "\<exists>s'. publish_layer_concurrent first x b dr cr m s = (Inr (content_hash m), s') \<and> published m d c doc s s'"
proof -
  let ?h = "content_hash m"
  obtain s1 where 1: "has_layer b ?h s = (Inr False, s1)" "same_view s s1"
    using has_layer_exact [OF assms(1), of ?h] assms(2) by auto
  have s1: "ok s1" "blobs s1 = blobs s" "metas s1 = metas s" using 1 by (simp_all add: same_view_def)
  have both: "\<exists>s2 s3. upload x b ?h f rd s1 = (Inr (document_hash x e), s2) \<and> upload x b ?h f' rd' s2 = (Inr (document_hash x e'), s3) \<and>
      ok s3 \<and> metas s3 = metas s \<and> blobs s3 = (blobs s)((?h, f) \<mapsto> e, (?h, f') \<mapsto> e')"
    if fs: "f \<noteq> f'" "drain (events rd) = Inr e" "drain (events rd') = Inr e'" for f f' rd rd' e e'
  proof -
    have free: "blobs s (?h, g) = None \<or> overwrites" for g using assms(2,3) by (cases g) auto
    obtain s2 where 2: "upload x b ?h f rd s1 = (Inr (document_hash x e), s2)" "ok s2" "metas s2 = metas s1"
      "blobs s2 = (blobs s1)((?h, f) \<mapsto> e)"
      by (rule upload_exact [OF s1(1) fs(2), of ?h f]) (use free s1 in auto)
    obtain s3 where 3: "upload x b ?h f' rd' s2 = (Inr (document_hash x e'), s3)" "ok s3" "metas s3 = metas s2"
      "blobs s3 = (blobs s2)((?h, f') \<mapsto> e')"
      by (rule upload_exact [OF 2(2) fs(3), of ?h f']) (use free s1 2 fs in auto)
    from 2 3 s1 show ?thesis by auto
  qed
  have rec: "\<exists>s4. record_layer x b (summed m d c) s3 = (Inr ?h, s4) \<and> published m d c doc s s4"
    if "ok s3" "metas s3 = metas s" "blobs s3 = (blobs s)((?h, Deploy) \<mapsto> d, (?h, BuildCache) \<mapsto> c)" for s3
    using record_layer_exact [OF that(1) assms(6)] that by (auto simp: published_def)
  obtain s2 s3 where 2: "upload x b ?h Deploy dr s1 = (Inr (document_hash x d), s2)"
    "upload x b ?h BuildCache cr s2 = (Inr (document_hash x c), s3)" "ok s3" "metas s3 = metas s"
    "blobs s3 = (blobs s)((?h, Deploy) \<mapsto> d, (?h, BuildCache) \<mapsto> c)"
    using both [OF _ assms(4,5), of Deploy BuildCache] by auto
  obtain t2 t3 where 3: "upload x b ?h BuildCache cr s1 = (Inr (document_hash x c), t2)"
    "upload x b ?h Deploy dr t2 = (Inr (document_hash x d), t3)" "ok t3" "metas t3 = metas s"
    "blobs t3 = (blobs s)((?h, Deploy) \<mapsto> d, (?h, BuildCache) \<mapsto> c)"
    using both [OF _ assms(5,4), of BuildCache Deploy] by (auto simp: fun_upd_twist)
  show "\<exists>s'. publish_layer x b dr cr m s = (Inr ?h, s') \<and> published m d c doc s s'"
    using 1(1) 2(1,2) rec [OF 2(3-5)] by (auto simp: publish_layer_def and_then_def)
  show "\<exists>s'. publish_layer_concurrent first x b dr cr m s = (Inr ?h, s') \<and> published m d c doc s s'"
  proof (cases first)
    case True
    then show ?thesis using 1(1) 2(1,2) rec [OF 2(3-5)] by (auto simp: publish_layer_concurrent_def op_defs Let_def)
  next
    case False
    then show ?thesis using 1(1) 3(1,2) rec [OF 3(3-5)] by (auto simp: publish_layer_concurrent_def op_defs Let_def)
  qed
qed

lemma publish_present:
  assumes "ok s" and "blobs s (content_hash m, Deploy) \<noteq> None"
  shows "\<exists>s'. publish_layer x b dr cr m s = (Inr (content_hash m), s') \<and> same_view s s'"
    and "\<exists>s'. publish_layer_concurrent first x b dr cr m s = (Inr (content_hash m), s') \<and> same_view s s'"
proof -
  obtain s' where "has_layer b (content_hash m) s = (Inr True, s')" "same_view s s'"
    using has_layer_exact [OF assms(1), of "content_hash m"] assms(2) by auto
  then show "\<exists>s'. publish_layer x b dr cr m s = (Inr (content_hash m), s') \<and> same_view s s'"
    and "\<exists>s'. publish_layer_concurrent first x b dr cr m s = (Inr (content_hash m), s') \<and> same_view s s'"
    by (simp_all add: publish_layer_def publish_layer_concurrent_def and_then_def ret_ok_def)
qed

end

section \<open>Collection and the index\<close>

lemma drop_layer_index_None: "M (index_key x i) = None \<Longrightarrow> drop_layer x h M (index_key x i) = None"
  by (simp add: drop_layer_def split: option.splits sum.splits)

context reliable_store
begin

lemma drop_layer_index: "recorded x M h m \<Longrightarrow> drop_layer x h M (index_key x (input_hash m)) = None"
  by (simp add: drop_layer_def recorded_def split: option.splits)

lemma gc_loop_index_None:
  assumes "ok s" and "metas s (index_key x i) = None" and "gc_loop x b cs summary s = (r, s')"
  shows "metas s' (index_key x i) = None"
  using assms
proof (induction cs arbitrary: s summary)
  case Nil
  then show ?case by (simp add: ret_ok_def)
next
  case (Cons c cs)
  obtain t where "gc_delete x b (gc_content_hash c) s = (Inr (), t)" "ok t"
    "metas t = drop_layer x (gc_content_hash c) (metas s)"
    by (rule gc_delete_exact [OF Cons.prems(1)])
  with Cons.IH [of t] Cons.prems show ?case by (simp add: and_then_def drop_layer_index_None)
qed

text \<open>Collecting a layer removes the index entry of its input hash, wherever that entry leads.\<close>

lemma gc_loop_index:
  assumes "ok s" and "recorded x (metas s) h m" and "h \<in> gc_content_hash ` set cs"
    and "gc_loop x b cs summary s = (r, s')"
  shows "metas s' (index_key x (input_hash m)) = None"
  using assms
proof (induction cs arbitrary: s summary)
  case Nil
  then show ?case by simp
next
  case (Cons c cs)
  obtain t where t: "gc_delete x b (gc_content_hash c) s = (Inr (), t)" "ok t"
    "metas t = drop_layer x (gc_content_hash c) (metas s)"
    by (rule gc_delete_exact [OF Cons.prems(1)])
  obtain summary' where run: "gc_loop x b cs summary' t = (r, s')"
    using Cons.prems(4) t(1) by (simp add: and_then_def)
  show ?case
  proof (cases "gc_content_hash c = h")
    case True
    then have "metas t (index_key x (input_hash m)) = None"
      using t(3) drop_layer_index [OF Cons.prems(2)] by simp
    then show ?thesis using gc_loop_index_None [OF t(2) _ run] by simp
  next
    case False
    then have "recorded x (metas t) h m"
      using Cons.prems(2) t(3) recorded_cong [of "metas t" x h "metas s"] by (simp add: drop_layer_layer)
    with Cons.IH [OF t(2) _ _ run] Cons.prems(3) False show ?thesis by auto
  qed
qed

end

end
