(* ===== verification/Layer_Memory.thy ===== *)
theory Layer_Memory
  imports Layer_Safety
begin

text \<open>
  The theorems on the layer store over the in-memory backend. They are instances of the lemmas
  of \<open>reliable_store\<close> with their statements written out; the external encoders are any that
  satisfy \<open>store_codec\<close>.
\<close>

section \<open>Sample data\<close>

definition sample_hash :: "u8 \<Rightarrow> ContentHash" where
  "sample_hash n = ContentHash (Array32 (replicate 32 n))"

definition sample_input :: "u8 \<Rightarrow> InputHash" where
  "sample_input n = InputHash (Array32 (replicate 32 n))"

definition sample_meta :: LayerMeta where
  "sample_meta =
     \<lparr>input_hash = sample_input 1, content_hash = sample_hash 2, parent_input_hash = None,
      uncompressed_size = 100, compressed_size_deploy = 10, compressed_size_cache = 20,
      file_checksum_deploy = sample_hash 0, file_checksum_cache = sample_hash 0,
      builder_version = ''1'', build_timestamp = 7, build_host = ''h'',
      stage_definition_hash = sample_hash 3, dockerfile_hash = sample_hash 4\<rparr>"

definition sample_reader :: "u8 \<Rightarrow> reader" where
  "sample_reader n = \<lparr>events = [Chunk [n, n], NotReady, Chunk [n]]\<rparr>"

lemma drain_sample [simp]: "drain (events (sample_reader n)) = Inr [n, n, n]"
  by (simp add: sample_reader_def)

lemma sample_hash_eq [simp]: "sample_hash a = sample_hash b \<longleftrightarrow> a = b" "sample_input a = sample_input b \<longleftrightarrow> a = b"
  by (simp_all add: sample_hash_def sample_input_def)

lemma mem_empty [simp]: "mem_blobs new_InMemoryBackend = []" "mem_meta new_InMemoryBackend = []" "mem_ok new_InMemoryBackend"
  by (simp_all add: new_InMemoryBackend_def mem_ok_def)

lemma sample_laws [simp]: "store_codec sample_codec"
  by (rule sample.store_codec_axioms)

text \<open>The store after the sample layer has been published.\<close>

definition sample_state :: InMemoryBackend where
  "sample_state = serve sample_codec memory_backend (PublishLayer (sample_reader 5) (sample_reader 6) sample_meta) new_InMemoryBackend"

lemma sample_reachable: "(store_step sample_codec memory_backend)\<^sup>*\<^sup>* new_InMemoryBackend sample_state"
  unfolding sample_state_def by (rule r_into_rtranclp) (rule store_step.request)

lemma sample_published:
  "sample_store.published sample_meta [5, 5, 5] [6, 6, 6]
     (enc_meta (sample_store.summed sample_meta [5, 5, 5] [6, 6, 6])) new_InMemoryBackend sample_state"
  using sample_store.publish_fresh(1) [of new_InMemoryBackend sample_meta "sample_reader 5" "[5, 5, 5]" "sample_reader 6" "[6, 6, 6]"]
  by (auto simp: sample_state_def)

lemma sample_resolve:
  "resolve_input_hash sample_codec memory_backend (sample_input 1) sample_state = (Inr (Some (sample_hash 2)), sample_state)"
  using sample_published
  by (simp add: sample_store.published_def sample_meta_def resolve_input_hash_def op_defs mem_defs)

section \<open>Resolving and pulling\<close>

definition checksum_of :: "ArtifactFormat \<Rightarrow> LayerMeta \<Rightarrow> ContentHash" where
  "checksum_of f m = (case f of Deploy \<Rightarrow> file_checksum_deploy m | BuildCache \<Rightarrow> file_checksum_cache m)"

text \<open>
  C3. On the in-memory backend, whatever requests a store has served, an input hash that resolves
  leads to a layer that was recorded for it, and both artifacts of that layer can be pulled and have
  the recorded checksums. (On files the recorded checksum of a cache artifact can be wrong.)
\<close>

theorem resolved_layer_is_stored:
  assumes "store_codec x" and "(store_step x memory_backend)\<^sup>*\<^sup>* new_InMemoryBackend s"
    and "resolve_input_hash x memory_backend i s = (Inr (Some h), t)"
  shows "\<exists>m rd d. recorded x (map_of (mem_meta s)) h m \<and> input_hash m = i \<and> content_hash m = h \<and>
    pull_layer memory_backend h f s = (Inr rd, s) \<and> drain (events rd) = Inr d \<and> checksum_of f m = document_hash x d"
proof -
  from mem_reachable_sound [OF assms(1,2)] have s: "mem_ok s"
    "layers_sound x (map_of (mem_blobs s)) (map_of (mem_meta s))"
    "checksums_sound x (map_of (mem_blobs s)) (map_of (mem_meta s))"
    by (simp_all add: store_sound_def)
  from reliable_store.resolve_pull [OF mem_store [OF assms(1)] s(1,2) assms(3), of f]
  obtain m rd d u where m: "recorded x (map_of (mem_meta s)) h m" "input_hash m = i" "content_hash m = h"
    and p: "pull_layer memory_backend h f s = (Inr rd, u)" "drain (events rd) = Inr d" by blast
  have "u = s" "map_of (mem_blobs s) (h, f) = Some d"
    using p by (auto simp: pull_layer_def mem_defs split: option.splits if_splits)
  moreover have "map_option (document_hash x) (map_of (mem_blobs s) (h, f)) = Some (checksum_of f m)"
    using s(3) m(1) unfolding checksums_sound_def checksum_of_def by (cases f) simp_all
  ultimately show ?thesis using m p by auto
qed

theorem resolved_layer_is_stored_witness:
  "\<exists>m rd d. recorded sample_codec (map_of (mem_meta sample_state)) (sample_hash 2) m \<and> input_hash m = sample_input 1 \<and>
     content_hash m = sample_hash 2 \<and>
     pull_layer memory_backend (sample_hash 2) BuildCache sample_state = (Inr rd, sample_state) \<and>
     drain (events rd) = Inr d \<and> checksum_of BuildCache m = document_hash sample_codec d"
  by (rule resolved_layer_is_stored [OF sample_laws sample_reachable sample_resolve])

text \<open>
  C10. On the in-memory backend, publishing a layer whose content is not stored yet succeeds when
  both readers deliver and the metadata document can be encoded, sequentially or concurrently in
  either order; afterwards both artifacts are pulled as they were read and the input hash
  resolves to the content hash.
\<close>

theorem publish_pull_roundtrip:
  assumes "store_codec x" and "mem_ok s" and "map_of (mem_blobs s) (content_hash m, Deploy) = None"
    and "drain (events dr) = Inr d" and "drain (events cr) = Inr c"
    and "meta_to_vec x (m\<lparr>file_checksum_deploy := document_hash x d, file_checksum_cache := document_hash x c\<rparr>) = Inr doc"
    and "run \<in> {publish_layer x memory_backend dr cr m, publish_layer_concurrent True x memory_backend dr cr m,
      publish_layer_concurrent False x memory_backend dr cr m}"
  shows "\<exists>s'. run s = (Inr (content_hash m), s') \<and>
    (\<exists>rd. pull_layer memory_backend (content_hash m) Deploy s' = (Inr rd, s') \<and> drain (events rd) = Inr d) \<and>
    (\<exists>rd. pull_layer memory_backend (content_hash m) BuildCache s' = (Inr rd, s') \<and> drain (events rd) = Inr c) \<and>
    resolve_input_hash x memory_backend (input_hash m) s' = (Inr (Some (content_hash m)), s')"
proof -
  note R = mem_store [OF assms(1)]
  obtain s' where s': "run s = (Inr (content_hash m), s')"
    "reliable_store.published x (\<lambda>s. map_of (mem_blobs s)) (\<lambda>s. map_of (mem_meta s)) mem_ok m d c doc s s'"
    using reliable_store.publish_fresh [OF R assms(2,3) _ assms(4,5,6)] assms(7) by blast
  then have "map_of (mem_blobs s') (content_hash m, Deploy) = Some d"
    "map_of (mem_blobs s') (content_hash m, BuildCache) = Some c"
    "map_of (mem_meta s') (index_key x (input_hash m)) = Some (as_bytes (show_ContentHash x (content_hash m)))"
    by (simp_all add: reliable_store.published_def [OF R])
  with s'(1) show ?thesis
    by (auto simp: pull_layer_def resolve_input_hash_def op_defs mem_defs store_codec.stored_hash [OF assms(1)]
        store_codec.content_roundtrip [OF assms(1)])
qed

theorem publish_pull_roundtrip_witness:
  "\<exists>s'. publish_layer_concurrent False sample_codec memory_backend (sample_reader 5) (sample_reader 6) sample_meta
       new_InMemoryBackend = (Inr (content_hash sample_meta), s') \<and>
    (\<exists>rd. pull_layer memory_backend (content_hash sample_meta) Deploy s' = (Inr rd, s') \<and> drain (events rd) = Inr [5, 5, 5]) \<and>
    (\<exists>rd. pull_layer memory_backend (content_hash sample_meta) BuildCache s' = (Inr rd, s') \<and> drain (events rd) = Inr [6, 6, 6]) \<and>
    resolve_input_hash sample_codec memory_backend (input_hash sample_meta) s' = (Inr (Some (content_hash sample_meta)), s')"
  by (rule publish_pull_roundtrip [OF sample_laws, of _ _ "sample_reader 5" _ "sample_reader 6" _ _
        "publish_layer_concurrent False sample_codec memory_backend (sample_reader 5) (sample_reader 6) sample_meta"])
    simp_all

section \<open>Garbage collection\<close>

definition sample_layer :: "ContentHash \<Rightarrow> ManifestLayer" where
  "sample_layer h =
     \<lparr>ml_name = ''base'', ml_order = 0, ml_input_hash = sample_input 1, ml_content_hash = h, ml_size_bytes = 1,
      ml_size_compressed_bytes = 1, ml_parent_input_hash = None\<rparr>"

definition sample_manifest :: "ContentHash \<Rightarrow> ReleaseManifest" where
  "sample_manifest h =
     \<lparr>schema_version = ''1'', manifest_id = ''app'',
      build_metadata = \<lparr>bm_dockerfile_hash = sample_hash 4, bm_build_timestamp = 7, bm_builder_version = ''1'', bm_build_host = ''h''\<rparr>,
      layers = [sample_layer h], workload_metadata = fmempty\<rparr>"

text \<open>
  Two layers built from the same input, of which a manifest refers to the second one; the
  index leads to the second one.
\<close>

definition gc_state :: InMemoryBackend where
  "gc_state =
     \<lparr>mem_blobs = [((sample_hash 2, Deploy), [5]), ((sample_hash 2, BuildCache), [6]),
                   ((sample_hash 9, Deploy), [7]), ((sample_hash 9, BuildCache), [8])],
      mem_meta = [(layer_key sample_codec (sample_hash 2), enc_meta sample_meta),
                  (layer_key sample_codec (sample_hash 9), enc_meta (sample_meta\<lparr>content_hash := sample_hash 9\<rparr>)),
                  (index_key sample_codec (sample_input 1), as_bytes (show_ContentHash sample_codec (sample_hash 9))),
                  (manifest_key sample_codec (sample_hash 3), enc_manifest (sample_manifest (sample_hash 9)))]\<rparr>"

lemma sample_from_slice [simp]:
  "meta_from_slice sample_codec (enc_meta m) = Inr m"
  "manifest_from_slice sample_codec (enc_manifest mf) = Inr mf"
  "catalog_from_slice sample_codec (enc_catalog ce) = Inr ce"
  by (auto intro: sample.meta_inverse sample.manifest_inverse sample.catalog_inverse)

lemma gc_state_ok [simp]: "mem_ok gc_state"
  by (simp add: gc_state_def mem_ok_def)

lemma gc_state_live: "live_layers sample_codec (map_of (mem_meta gc_state)) = {sample_hash 9}"
proof -
  have "manifest_layers sample_codec (map_of (mem_meta gc_state)) g = (if g = sample_hash 3 then {sample_hash 9} else {})" for g
    by (simp add: manifest_layers_def gc_state_def sample_manifest_def sample_layer_def)
  then show ?thesis by (auto simp: live_layers_def)
qed

lemma get_manifest_mem:
  "get_manifest x memory_backend g s = (Inr mf, t) \<longleftrightarrow>
     t = s \<and> (\<exists>doc. map_of (mem_meta s) (manifest_key x g) = Some doc \<and> manifest_from_slice x doc = Inr mf)"
  by (auto simp: get_manifest_def op_defs mem_defs split: option.splits sum.splits)

lemma manifest_live: "get_manifest x memory_backend g s = (Inr mf, t) \<Longrightarrow> l \<in> set (layers mf) \<Longrightarrow>
    ml_content_hash l \<in> live_layers x (map_of (mem_meta s))"
  by (auto simp: get_manifest_mem live_layers_def manifest_layers_def intro!: exI [of _ g])

lemma mem_reads_cong:
  "map_of (mem_blobs s') (h, f) = map_of (mem_blobs s) (h, f) \<Longrightarrow>
     fst (pull_layer memory_backend h f s') = fst (pull_layer memory_backend h f s)"
  "map_of (mem_meta s') (tag_key n) = map_of (mem_meta s) (tag_key n) \<Longrightarrow>
     fst (get_tag x memory_backend n s') = fst (get_tag x memory_backend n s)"
  "map_of (mem_meta s') (build_key j) = map_of (mem_meta s) (build_key j) \<Longrightarrow>
     fst (get_build x memory_backend j s') = fst (get_build x memory_backend j s)"
  "map_of (mem_meta s') (index_key x i) = map_of (mem_meta s) (index_key x i) \<Longrightarrow>
     fst (resolve_input_hash x memory_backend i s') = fst (resolve_input_hash x memory_backend i s)"
  by (auto simp: pull_layer_def get_tag_def get_build_def resolve_input_hash_def op_defs mem_defs
      split: option.splits sum.splits)

text \<open>
  C4. On the in-memory backend, collecting the reported garbage keeps every layer of every manifest: its artifacts are
  pulled as before and its document stays; the manifest, all tags and all builds are as before.
\<close>

theorem gc_keeps_live_layers:
  assumes "store_codec x" and "mem_ok s" and "gc_candidates x memory_backend s = (Inr rep, s1)"
    and "gc_execute x memory_backend rep s1 = (r, s2)"
    and "get_manifest x memory_backend g s = (Inr mf, t)" and "l \<in> set (layers mf)"
  shows "fst (pull_layer memory_backend (ml_content_hash l) f s2) = fst (pull_layer memory_backend (ml_content_hash l) f s) \<and>
    recorded x (map_of (mem_meta s2)) (ml_content_hash l) = recorded x (map_of (mem_meta s)) (ml_content_hash l) \<and>
    get_manifest x memory_backend g s2 = (Inr mf, s2) \<and>
    (\<forall>n. fst (get_tag x memory_backend n s2) = fst (get_tag x memory_backend n s)) \<and>
    (\<forall>j. fst (get_build x memory_backend j s2) = fst (get_build x memory_backend j s))"
proof -
  note live = manifest_live [OF assms(5,6)]
  note keep = reliable_store.gc_round_effect [OF mem_store [OF assms(1)] assms(2-4)]
  show ?thesis
  proof (intro conjI allI)
    show "fst (pull_layer memory_backend (ml_content_hash l) f s2) = fst (pull_layer memory_backend (ml_content_hash l) f s)"
      by (rule mem_reads_cong(1)) (rule conjunct1 [OF keep(1) [OF live]])
    show "recorded x (map_of (mem_meta s2)) (ml_content_hash l) = recorded x (map_of (mem_meta s)) (ml_content_hash l)"
      by (rule recorded_cong) (rule conjunct2 [OF keep(1) [OF live]])
    show "get_manifest x memory_backend g s2 = (Inr mf, s2)"
      using assms(5) keep(2) [of g] unfolding get_manifest_mem by simp
    show "fst (get_tag x memory_backend n s2) = fst (get_tag x memory_backend n s)" for n
      by (rule mem_reads_cong(2)) (rule keep(3))
    show "fst (get_build x memory_backend j s2) = fst (get_build x memory_backend j s)" for j
      by (rule mem_reads_cong(3)) (rule keep(4))
  qed
qed

lemma gc_state_run:
  obtains rep s1 summary s2 where "gc_candidates sample_codec memory_backend gc_state = (Inr rep, s1)"
    "gc_execute sample_codec memory_backend rep s1 = (Inr summary, s2)"
  using sample_store.gc_round [OF gc_state_ok] by (metis surj_pair)

lemma gc_state_manifest:
  "get_manifest sample_codec memory_backend (sample_hash 3) gc_state = (Inr (sample_manifest (sample_hash 9)), gc_state)"
  by (simp add: get_manifest_mem) (simp add: gc_state_def)

theorem gc_keeps_live_layers_witness:
  "\<exists>rep s1 s2. gc_candidates sample_codec memory_backend gc_state = (Inr rep, s1) \<and>
     s2 = snd (gc_execute sample_codec memory_backend rep s1) \<and>
     fst (pull_layer memory_backend (sample_hash 9) Deploy s2) = Inr \<lparr>events = [Chunk [7]]\<rparr> \<and>
     get_manifest sample_codec memory_backend (sample_hash 3) s2 = (Inr (sample_manifest (sample_hash 9)), s2)"
proof -
  obtain rep s1 summary s2 where run: "gc_candidates sample_codec memory_backend gc_state = (Inr rep, s1)"
    "gc_execute sample_codec memory_backend rep s1 = (Inr summary, s2)" by (rule gc_state_run)
  have "sample_layer (sample_hash 9) \<in> set (layers (sample_manifest (sample_hash 9)))"
    by (simp add: sample_manifest_def)
  from gc_keeps_live_layers [OF sample_laws gc_state_ok run gc_state_manifest this, of Deploy] run
  show ?thesis
    by (intro exI [of _ rep] exI [of _ s1] exI [of _ s2])
      (auto simp: sample_layer_def pull_layer_def mem_defs gc_state_def)
qed

text \<open>
  C20. On the in-memory backend, collection always completes, and removes both artifacts and the document of every recorded
  layer that no manifest refers to; the summary adds up the reported sizes modulo \<open>2 ^ 64\<close>.
\<close>

theorem gc_reclaims_garbage:
  assumes "store_codec x" and "mem_ok s"
  shows "\<exists>rep s1 summary s2. gc_candidates x memory_backend s = (Inr rep, s1) \<and>
    gc_execute x memory_backend rep s1 = (Inr summary, s2) \<and>
    deleted_bytes summary = total_reclaimable_bytes rep \<and>
    deleted_blobs summary = of_nat (2 * length (candidates rep)) \<and>
    (\<forall>h m. recorded x (map_of (mem_meta s)) h m \<and> h \<notin> live_layers x (map_of (mem_meta s)) \<longrightarrow>
       fst (pull_layer memory_backend h f s2) = Inl NotFound \<and> (\<forall>m'. \<not> recorded x (map_of (mem_meta s2)) h m'))"
proof -
  note R = mem_store [OF assms(1)]
  obtain r1 s1 where c: "gc_candidates x memory_backend s = (r1, s1)" by (cases "gc_candidates x memory_backend s")
  show ?thesis
    by (rule reliable_store.gc_round [OF R assms(2) c])
      (use c in \<open>auto simp: recorded_None intro!: reliable_store.pull_missing [OF R]\<close>)
qed

theorem gc_reclaims_garbage_witness:
  "\<exists>s2. fst (pull_layer memory_backend (sample_hash 2) Deploy s2) = Inl NotFound \<and>
     (\<exists>rep s1 summary. gc_candidates sample_codec memory_backend gc_state = (Inr rep, s1) \<and>
       gc_execute sample_codec memory_backend rep s1 = (Inr summary, s2))"
proof -
  have "recorded sample_codec (map_of (mem_meta gc_state)) (sample_hash 2) sample_meta"
    by (simp add: recorded_def gc_state_def)
  moreover have "sample_hash 2 \<notin> live_layers sample_codec (map_of (mem_meta gc_state))"
    by (simp add: gc_state_live)
  ultimately show ?thesis
    using gc_reclaims_garbage [OF sample_laws gc_state_ok, of Deploy] by blast
qed

text \<open>
  Collecting a layer deletes the index entry of the input hash it was built from even when
  that entry leads to another layer that is in use: the input hash then no longer resolves.
\<close>

theorem gc_drops_shared_index_entry:
  assumes "store_codec x" and "mem_ok s" and "gc_candidates x memory_backend s = (Inr rep, s1)"
    and "gc_execute x memory_backend rep s1 = (r, s2)"
    and "recorded x (map_of (mem_meta s)) h m" and "h \<notin> live_layers x (map_of (mem_meta s))"
  shows "resolve_input_hash x memory_backend (input_hash m) s2 = (Inr None, s2)"
proof -
  note R = mem_store [OF assms(1)]
  obtain rep' s' where c: "gc_candidates x memory_backend s = (Inr rep', s')" "mem_ok s'"
    "map_of (mem_meta s') = map_of (mem_meta s)" "h \<in> gc_content_hash ` set (candidates rep')"
    by (rule reliable_store.gc_candidates_exact [OF R assms(2)])
      (use assms(5,6) in \<open>auto simp: layer_store.same_view_def [OF reliable_store.axioms(1) [OF R]]\<close>)
  then have "rep' = rep" "s' = s1" using assms(3) by simp_all
  with c assms(5) have "map_of (mem_meta s2) (index_key x (input_hash m)) = None"
    by (intro reliable_store.gc_loop_index [OF R _ _ _ assms(4) [unfolded gc_execute_def]]) simp_all
  then show ?thesis by (simp add: resolve_input_hash_def op_defs mem_defs)
qed

theorem gc_drops_shared_index_entry_witness:
  "resolve_input_hash sample_codec memory_backend (sample_input 1) gc_state = (Inr (Some (sample_hash 9)), gc_state) \<and>
   sample_hash 9 \<in> live_layers sample_codec (map_of (mem_meta gc_state)) \<and>
   (\<exists>rep s1 summary s2. gc_candidates sample_codec memory_backend gc_state = (Inr rep, s1) \<and>
     gc_execute sample_codec memory_backend rep s1 = (Inr summary, s2) \<and>
     resolve_input_hash sample_codec memory_backend (sample_input 1) s2 = (Inr None, s2))"
proof (intro conjI)
  show "resolve_input_hash sample_codec memory_backend (sample_input 1) gc_state = (Inr (Some (sample_hash 9)), gc_state)"
    by (simp add: resolve_input_hash_def op_defs mem_defs gc_state_def)
  show "sample_hash 9 \<in> live_layers sample_codec (map_of (mem_meta gc_state))" by (simp add: gc_state_live)
  obtain rep s1 summary s2 where run: "gc_candidates sample_codec memory_backend gc_state = (Inr rep, s1)"
    "gc_execute sample_codec memory_backend rep s1 = (Inr summary, s2)" by (rule gc_state_run)
  have "recorded sample_codec (map_of (mem_meta gc_state)) (sample_hash 2) sample_meta"
    by (simp add: recorded_def gc_state_def)
  from gc_drops_shared_index_entry [OF sample_laws gc_state_ok run this] run
  show "\<exists>rep s1 summary s2. gc_candidates sample_codec memory_backend gc_state = (Inr rep, s1) \<and>
     gc_execute sample_codec memory_backend rep s1 = (Inr summary, s2) \<and>
     resolve_input_hash sample_codec memory_backend (sample_input 1) s2 = (Inr None, s2)"
    by (auto simp: gc_state_live sample_meta_def)
qed

section \<open>Failed and concurrent uploads\<close>

lemma copy_all_error: "copy_all [] hr = (r, hr') \<Longrightarrow> drain (events (inner hr)) = Inl e \<Longrightarrow> r = Inl (Io e)"
  using copy_all_drain [of "[]" hr r hr'] by simp

lemma mem_upload:
  "upload x memory_backend h f rd s =
     (case drain (events rd) of
        Inl e \<Rightarrow> (Inl (Io e), s)
      | Inr d \<Rightarrow> (Inr (document_hash x d), s\<lparr>mem_blobs := AList.update (h, f) d (mem_blobs s)\<rparr>))"
proof -
  obtain r hr where c: "copy_all [] (new_HashingReader rd) = (r, hr)" by (cases "copy_all [] (new_HashingReader rd)")
  show ?thesis
  proof (cases "drain (events rd)")
    case (Inl e)
    then show ?thesis using copy_all_error [OF c] c
      by (simp add: upload_def mem_defs new_HashingReader_def)
  next
    case (Inr d)
    then show ?thesis using copy_new(1) [OF c] c
      by (simp add: upload_def mem_defs new_HashingReader_def finalize_def document_hash_def)
  qed
qed

lemma mem_record_layer:
  "record_layer x memory_backend m s =
     (case meta_to_vec x m of
        Inl e \<Rightarrow> (Inl (Serialization e), s)
      | Inr doc \<Rightarrow> (Inr (content_hash m),
          s\<lparr>mem_meta := AList.update (index_key x (input_hash m)) (as_bytes (show_ContentHash x (content_hash m)))
             (AList.update (layer_key x (content_hash m)) doc (mem_meta s))\<rparr>))"
  by (simp add: record_layer_def register_input_hash_def op_defs mem_defs split: sum.splits)

lemma mem_has_layer: "has_layer memory_backend h s = (Inr (map_of (mem_blobs s) (h, Deploy) \<noteq> None), s)"
  by (simp add: has_layer_def mem_defs)

text \<open>
  When the deploy artifact was stored and reading the cache artifact fails, publishing fails,
  but every later attempt to publish that content reports success without storing anything: the
  cache artifact stays missing and the input hash stays unresolved.
\<close>

theorem failed_cache_upload_blocks_retry:
  assumes "map_of (mem_blobs s) (content_hash m, Deploy) = None" and "map_of (mem_blobs s) (content_hash m, BuildCache) = None"
    and "drain (events dr) = Inr d" and "drain (events cr) = Inl e"
  shows "\<exists>s'. publish_layer x memory_backend dr cr m s = (Inl (Io e), s') \<and>
    (\<forall>dr' cr' m'. content_hash m' = content_hash m \<longrightarrow>
       publish_layer x memory_backend dr' cr' m' s' = (Inr (content_hash m), s')) \<and>
    pull_layer memory_backend (content_hash m) BuildCache s' = (Inl NotFound, s') \<and>
    fst (resolve_input_hash x memory_backend i s') = fst (resolve_input_hash x memory_backend i s)"
proof -
  let ?s = "s\<lparr>mem_blobs := AList.update (content_hash m, Deploy) d (mem_blobs s)\<rparr>"
  have "publish_layer x memory_backend dr cr m s = (Inl (Io e), ?s)"
    using assms by (simp add: publish_layer_def op_defs mem_has_layer mem_upload)
  moreover have "publish_layer x memory_backend dr' cr' m' ?s = (Inr (content_hash m), ?s)"
    if "content_hash m' = content_hash m" for dr' cr' m'
    using that by (simp add: publish_layer_def op_defs mem_has_layer update_conv')
  moreover have "pull_layer memory_backend (content_hash m) BuildCache ?s = (Inl NotFound, ?s)"
    using assms(2) by (simp add: pull_layer_def mem_defs update_conv')
  moreover have "fst (resolve_input_hash x memory_backend i ?s) = fst (resolve_input_hash x memory_backend i s)"
    by (rule mem_reads_cong(4)) simp
  ultimately show ?thesis by blast
qed

theorem failed_cache_upload_blocks_retry_witness:
  "\<exists>s'. publish_layer sample_codec memory_backend (sample_reader 5) \<lparr>events = [Chunk [1], Failure ''reset'']\<rparr> sample_meta
       new_InMemoryBackend = (Inl (Io ''reset''), s') \<and>
     publish_layer sample_codec memory_backend (sample_reader 5) (sample_reader 6) sample_meta s' = (Inr (sample_hash 2), s') \<and>
     pull_layer memory_backend (sample_hash 2) BuildCache s' = (Inl NotFound, s')"
proof -
  have h: "content_hash sample_meta = sample_hash 2" by (simp add: sample_meta_def)
  show ?thesis
    using failed_cache_upload_blocks_retry [of new_InMemoryBackend sample_meta "sample_reader 5" "[5, 5, 5]"
      "\<lparr>events = [Chunk [1], Failure ''reset'']\<rparr>" "''reset''" sample_codec "sample_input 1", simplified h, simplified]
    by (metis h)
qed

section \<open>Manifests, builds and tags\<close>

text \<open>
  C22. On the in-memory backend, a manifest that was published is read back as it was, its build is in the catalog, and
  manifests with another digest, as well as all tags, are as before.
\<close>

theorem manifest_roundtrip:
  assumes "store_codec x" and "manifest_to_vec x mf = Inr buf"
    and "catalog_to_vec x (catalog_entry mf (document_hash x buf) (new_build_id ts uuid)) = Inr cat"
  shows "\<exists>s'. publish_manifest x memory_backend ts uuid mf s = (Inr (document_hash x buf), s') \<and>
    get_manifest x memory_backend (document_hash x buf) s' = (Inr mf, s') \<and>
    get_build x memory_backend (new_build_id ts uuid) s' =
      (Inr (catalog_entry mf (document_hash x buf) (new_build_id ts uuid)), s') \<and>
    (\<forall>g. g \<noteq> document_hash x buf \<longrightarrow>
       fst (get_manifest x memory_backend g s') = fst (get_manifest x memory_backend g s)) \<and>
    (\<forall>n. fst (get_tag x memory_backend n s') = fst (get_tag x memory_backend n s))"
proof -
  let ?h = "document_hash x buf" and ?i = "new_build_id ts uuid"
  let ?s = "s\<lparr>mem_meta := AList.update (build_key ?i) cat (AList.update (manifest_key x ?h) buf (mem_meta s))\<rparr>"
  note inv = store_codec.manifest_inverse [OF assms(1,2)] store_codec.catalog_inverse [OF assms(1,3)]
  note keys = store_codec.hash_keys(3) [OF assms(1)]
  have "publish_manifest x memory_backend ts uuid mf s = (Inr ?h, ?s)"
    using assms(2,3) by (simp add: publish_manifest_def op_defs Let_def mem_defs)
  moreover have "get_manifest x memory_backend ?h ?s = (Inr mf, ?s)"
    using inv(1) by (simp add: get_manifest_def op_defs mem_defs update_conv')
  moreover have "get_build x memory_backend ?i ?s = (Inr (catalog_entry mf ?h ?i), ?s)"
    using inv(2) by (simp add: get_build_def op_defs mem_defs update_conv')
  moreover have "fst (get_manifest x memory_backend g ?s) = fst (get_manifest x memory_backend g s)" if "g \<noteq> ?h" for g
    using that by (simp add: get_manifest_def op_defs mem_defs update_conv' keys split: option.splits sum.splits)
  moreover have "fst (get_tag x memory_backend n ?s) = fst (get_tag x memory_backend n s)" for n
    by (rule mem_reads_cong(2)) (simp add: update_conv')
  ultimately show ?thesis by blast
qed

theorem manifest_roundtrip_witness:
  "\<exists>s' h. publish_manifest sample_codec memory_backend 7 ''u'' (sample_manifest (sample_hash 2)) sample_state = (Inr h, s') \<and>
     get_manifest sample_codec memory_backend h s' = (Inr (sample_manifest (sample_hash 2)), s')"
  using manifest_roundtrip [of sample_codec "sample_manifest (sample_hash 2)" _ 7 "''u''" _ sample_state,
      OF sample_laws sample_to_vec(2) sample_to_vec(3)] by blast

lemma get_manifest_mem_err: "get_manifest x memory_backend g s = (Inl e, t) \<Longrightarrow> t = s"
  by (auto simp: get_manifest_def op_defs mem_defs split: option.splits sum.splits)

lemma mem_create_tag:
  "create_tag x memory_backend n h s =
     (if \<not> tag_matches n then (Inl (InvalidTagName n), s)
      else case fst (get_manifest x memory_backend h s) of
        Inl e \<Rightarrow> (Inl e, s)
      | Inr mf \<Rightarrow> (Inr (), s\<lparr>mem_meta := AList.update (tag_key n) (as_bytes (show_ContentHash x h)) (mem_meta s)\<rparr>))"
  by (cases "get_manifest x memory_backend h s")
    (auto simp: create_tag_def validate_tag_name_def op_defs get_manifest_mem mem_run
      dest: get_manifest_mem_err split: sum.splits)

text \<open>
  C23. On the in-memory backend, a tag is created exactly for a valid name and a readable manifest; then it names that
  manifest and no other tag changes, deleting it makes it unknown again, and a refused request
  changes nothing.
\<close>

theorem tag_lifecycle:
  assumes "store_codec x" and "create_tag x memory_backend n h s = (r, s')"
  shows "(r = Inr () \<longleftrightarrow> tag_matches n \<and> (\<exists>mf. fst (get_manifest x memory_backend h s) = Inr mf)) \<and>
    (if r = Inr ()
     then get_tag x memory_backend n s' = (Inr h, s') \<and>
       (\<forall>n'. n' \<noteq> n \<longrightarrow> fst (get_tag x memory_backend n' s') = fst (get_tag x memory_backend n' s)) \<and>
       fst (get_tag x memory_backend n (snd (delete_tag memory_backend n s'))) = Inl NotFound
     else s' = s)"
proof (cases "tag_matches n \<and> (\<exists>mf. fst (get_manifest x memory_backend h s) = Inr mf)")
  case True
  then have r: "r = Inr ()"
    "s' = s\<lparr>mem_meta := AList.update (tag_key n) (as_bytes (show_ContentHash x h)) (mem_meta s)\<rparr>"
    using assms(2) by (auto simp: mem_create_tag)
  have "get_tag x memory_backend n s' = (Inr h, s')"
    by (simp add: r get_tag_def op_defs mem_defs update_conv' store_codec.stored_hash [OF assms(1)]
        store_codec.content_roundtrip [OF assms(1)])
  moreover have "fst (get_tag x memory_backend n' s') = fst (get_tag x memory_backend n' s)" if "n' \<noteq> n" for n'
    by (rule mem_reads_cong(2)) (use that in \<open>simp add: r update_conv'\<close>)
  moreover have "fst (get_tag x memory_backend n (snd (delete_tag memory_backend n s'))) = Inl NotFound"
    by (simp add: get_tag_def delete_tag_def op_defs mem_defs delete_conv')
  ultimately show ?thesis using True r(1) by simp
next
  case False
  then have "r \<noteq> Inr () \<and> s' = s"
    using assms(2) by (auto simp: mem_create_tag split: if_splits sum.splits)
  with False show ?thesis by auto
qed

lemma sample_tag_matches: "tag_matches ''v1.0''"
  by (simp add: tag_matches_def tag_start_def tag_char_def is_digit_def)

theorem tag_lifecycle_witness:
  "\<exists>s'. create_tag sample_codec memory_backend ''v1.0'' (sample_hash 3) gc_state = (Inr (), s') \<and>
     get_tag sample_codec memory_backend ''v1.0'' s' = (Inr (sample_hash 3), s')"
proof -
  obtain r s' where c: "create_tag sample_codec memory_backend ''v1.0'' (sample_hash 3) gc_state = (r, s')"
    by (cases "create_tag sample_codec memory_backend ''v1.0'' (sample_hash 3) gc_state")
  from tag_lifecycle [OF sample_laws c] c show ?thesis
    by (auto simp: sample_tag_matches gc_state_manifest)
qed

section \<open>The build catalog\<close>

lemma mem_get_tag: "get_tag x memory_backend n s = (fst (get_tag x memory_backend n s), s)"
  by (auto simp: get_tag_def op_defs mem_defs split: option.splits sum.splits)

definition tagged :: "store_ext \<Rightarrow> InMemoryBackend \<Rightarrow> BuildFilter \<Rightarrow> BuildCatalogEntry \<Rightarrow> bool" where
  "tagged x s flt entry \<longleftrightarrow>
     (case filter_tag flt of
        None \<Rightarrow> True
      | Some tag \<Rightarrow> fst (get_tag x memory_backend tag s) = Inr (manifest_hash entry))"

lemma mem_tag_filter: "tag_filter x memory_backend flt entry s = (Inr (tagged x s flt entry), s)"
  using mem_get_tag [of x "the (filter_tag flt)" s]
  by (auto simp: tag_filter_def tagged_def op_defs split: option.splits sum.splits)

definition selected :: "store_ext \<Rightarrow> InMemoryBackend \<Rightarrow> BuildFilter \<Rightarrow> BuildCatalogEntry \<Rightarrow> bool" where
  "selected x s flt entry \<longleftrightarrow> tagged x s flt entry \<and> entry_matches flt entry"

definition entries_at :: "store_ext \<Rightarrow> InMemoryBackend \<Rightarrow> string \<Rightarrow> BuildCatalogEntry list" where
  "entries_at x s key =
     (case map_of (mem_meta s) key of
        None \<Rightarrow> []
      | Some data \<Rightarrow> (case catalog_from_slice x data of Inl e \<Rightarrow> [] | Inr entry \<Rightarrow> [entry]))"

lemma in_entries_at:
  "entry \<in> set (entries_at x s k) \<longleftrightarrow> (\<exists>data. map_of (mem_meta s) k = Some data \<and> catalog_from_slice x data = Inr entry)"
  by (cases "map_of (mem_meta s) k"; cases "catalog_from_slice x (the (map_of (mem_meta s) k))")
    (auto simp: entries_at_def)

lemma mem_collect_builds:
  "collect_builds x memory_backend flt keys s =
     (Inr (filter (selected x s flt)
        (concat (map (entries_at x s) keys))), s)"
proof (induction keys)
  case Nil
  then show ?case by (simp add: ret_ok_def)
next
  case (Cons key keys)
  then show ?case
    by (cases "map_of (mem_meta s) key"; cases "catalog_from_slice x (the (map_of (mem_meta s) key))")
      (simp_all add: op_defs mem_run mem_tag_filter selected_def entries_at_def)
qed

text \<open>
  Listing builds always succeeds and returns exactly the readable catalog entries that pass
  every part of the filter, newest first.
\<close>

theorem list_builds_exact:
  "\<exists>bs. list_builds x memory_backend flt s = (Inr bs, s) \<and>
     sorted_wrt (\<lambda>a b. ce_build_timestamp b \<le> ce_build_timestamp a) bs \<and>
     set bs = {entry. selected x s flt entry \<and>
       (\<exists>k data. prefix ''builds/'' k \<and> map_of (mem_meta s) k = Some data \<and> catalog_from_slice x data = Inr entry)}"
proof -
  let ?keys = "filter (\<lambda>k. starts_with k ''builds/'') (map fst (mem_meta s))"
  let ?entries = "concat (map (entries_at x s) ?keys)"
  let ?bs = "newest_first (filter (selected x s flt) ?entries)"
  have run: "list_builds x memory_backend flt s = (Inr ?bs, s)"
    by (simp add: list_builds_def and_then_def mem_collect_builds ret_ok_def mem_run)
  have "sorted (map (\<lambda>e. - uint (ce_build_timestamp e)) ?bs)"
    unfolding newest_first_def by (rule sorted_sort_key)
  then have sorted: "sorted_wrt (\<lambda>a b. ce_build_timestamp b \<le> ce_build_timestamp a) ?bs"
    by (simp add: sorted_map word_le_def)
  have keys: "k \<in> set ?keys" if "map_of (mem_meta s) k = Some data" "prefix ''builds/'' k" for k data
    using that by (force simp: starts_with_def dest: map_of_SomeD)
  have "entry \<in> set ?entries \<longleftrightarrow>
      (\<exists>k data. prefix ''builds/'' k \<and> map_of (mem_meta s) k = Some data \<and> catalog_from_slice x data = Inr entry)" for entry
  proof
    assume "entry \<in> set ?entries"
    then obtain k where "k \<in> set ?keys" "entry \<in> set (entries_at x s k)" by auto
    then show "\<exists>k data. prefix ''builds/'' k \<and> map_of (mem_meta s) k = Some data \<and> catalog_from_slice x data = Inr entry"
      by (auto simp: in_entries_at starts_with_def)
  next
    assume "\<exists>k data. prefix ''builds/'' k \<and> map_of (mem_meta s) k = Some data \<and> catalog_from_slice x data = Inr entry"
    then obtain k data where k: "prefix ''builds/'' k" "map_of (mem_meta s) k = Some data" "catalog_from_slice x data = Inr entry"
      by blast
    then have "k \<in> set ?keys" "entry \<in> set (entries_at x s k)" using keys by (auto simp: in_entries_at)
    then show "entry \<in> set ?entries" by auto
  qed
  then have "set ?bs = {entry. selected x s flt entry \<and>
       (\<exists>k data. prefix ''builds/'' k \<and> map_of (mem_meta s) k = Some data \<and> catalog_from_slice x data = Inr entry)}"
    unfolding newest_first_def by auto
  with run sorted show ?thesis by blast
qed

section \<open>Hash text\<close>

text \<open>
  A text is read as a hash exactly when it is the printed form of that hash, in either
  case; every other text is rejected with an error that quotes it.
\<close>

theorem hash_text_exact:
  assumes "store_codec x"
  shows "(ContentHash_from_str x str = Inr h \<longleftrightarrow> to_lowercase str = show_ContentHash x h) \<and>
    (InputHash_from_str x str = Inr i \<longleftrightarrow> to_lowercase str = show_InputHash x i) \<and>
    length (show_ContentHash x h) = 64 \<and>
    (ContentHash_from_str x str = Inl e \<longrightarrow> e = InvalidHash str)"
  using store_codec.content_from_str_iff [OF assms] store_codec.input_from_str_iff [OF assms]
    store_codec.hex_length [OF assms] store_codec.from_str_error [OF assms]
  by (auto simp: show_ContentHash_def content_bytes_def)

theorem hash_text_exact_witness:
  "ContentHash_from_str sample_codec (show_ContentHash sample_codec (sample_hash 171)) = Inr (sample_hash 171) \<and>
   ContentHash_from_str sample_codec ''xyz'' = Inl (InvalidHash ''xyz'')"
proof -
  have "hex_parse ''xyz'' = None" by (simp add: hex_val_def to_lower_def)
  then have "\<exists>e. ContentHash_from_str sample_codec ''xyz'' = Inl e"
    by (simp add: ContentHash_from_str_def sample_codec_def)
  then show ?thesis
    using hash_text_exact [OF sample_laws, of "''xyz''"]
      hash_text_exact [OF sample_laws, of "show_ContentHash sample_codec (sample_hash 171)" "sample_hash 171"]
      sample.hex_lower by (auto simp: show_ContentHash_def)
qed

end
