(* ===== verification/Layer_Channels.thy ===== *)
theory Layer_Channels
  imports Layer_Types
begin

text \<open>
  The channels behind an upload, \<^verbatim>\<open>fs-storage/src/server.rs\<close>, lines 193 to 213. One task takes the
  messages of the request stream in order and sends each into the channel of its artifact; a
  channel holds at most \<open>CHANNEL_CAPACITY\<close> messages, and sending into a full one waits. The uploads
  read the two channels: both at the same time, as \<open>publish_layer_concurrent\<close> does
  (\<open>tokio::join!\<close>), or the cache channel only when the upload of the other artifact is over, as
  \<open>publish_layer\<close> does. A reader sees the end of its channel when the task is done and the channel
  is empty; an upload may also stop earlier, when it fails or has nothing to store.

  The task and the two uploads are interleaved in every possible order (\<open>chan_step\<close>). Every run
  ends, and all runs that cannot go on end in the same state (\<open>converging\<close>), so that whether an upload
  waits for ever does not depend on the schedule and is computed by one run (\<open>settles\<close>).
\<close>

section \<open>Runs that converge\<close>

text \<open>
  A step relation that shrinks a size and in which two different steps can be joined by one step
  each: from every state all maximal runs lead to the same end.
\<close>

locale converging =
  fixes step :: "'s \<Rightarrow> 's \<Rightarrow> bool" and load :: "'s \<Rightarrow> nat"
  assumes shrinks: "step s t \<Longrightarrow> load t < load s"
    and joins: "step s a \<Longrightarrow> step s b \<Longrightarrow> a = b \<or> (\<exists>t. step a t \<and> step b t)"
begin

definition ended :: "'s \<Rightarrow> bool" where
  "ended s \<longleftrightarrow> (\<forall>t. \<not> step s t)"

lemma run_bound: "(step ^^ n) s t \<Longrightarrow> n + load t \<le> load s"
proof (induction n arbitrary: t)
  case (Suc n)
  then obtain u where "(step ^^ n) s u" "step u t" by auto
  with Suc.IH [of u] shrinks [of u t] show ?case by simp
qed simp

lemma ends: "\<exists>t. step\<^sup>*\<^sup>* s t \<and> ended t"
proof (induction "load s" arbitrary: s rule: less_induct)
  case less
  show ?case
  proof (cases "ended s")
    case True
    then show ?thesis by blast
  next
    case False
    then obtain u where u: "step s u" by (auto simp: ended_def)
    with less [of u] shrinks obtain t where "step\<^sup>*\<^sup>* u t" "ended t" by blast
    with u show ?thesis by (meson converse_rtranclp_into_rtranclp)
  qed
qed

lemma unique_end:
  assumes "step\<^sup>*\<^sup>* s t" "ended t" "step\<^sup>*\<^sup>* s t'" "ended t'"
  shows "t = t'"
  using assms
proof (induction "load s" arbitrary: s t t' rule: less_induct)
  case less
  consider "s = t" | "s = t'" | a b where "step s a" "step\<^sup>*\<^sup>* a t" "step s b" "step\<^sup>*\<^sup>* b t'"
    using less.prems(1,3) by (metis converse_rtranclpE)
  then show ?case
  proof cases
    case 1
    then show ?thesis using less.prems by (metis converse_rtranclpE ended_def)
  next
    case 2
    then show ?thesis using less.prems by (metis converse_rtranclpE ended_def)
  next
    case (3 a b)
    have a: "step\<^sup>*\<^sup>* a u \<Longrightarrow> ended u \<Longrightarrow> u = t" and b: "step\<^sup>*\<^sup>* b u \<Longrightarrow> ended u \<Longrightarrow> u = t'" for u
      using less.hyps [OF shrinks] 3 less.prems(2,4) by blast+
    from joins [OF 3(1,3)] show ?thesis
    proof
      assume "a = b"
      with b [of t] 3(2) less.prems(2) show ?thesis by simp
    next
      assume "\<exists>c. step a c \<and> step b c"
      then obtain c where c: "step a c" "step b c" by blast
      obtain u where "step\<^sup>*\<^sup>* c u" "ended u" using ends by blast
      with c a [of u] b [of u] show ?thesis by (metis converse_rtranclp_into_rtranclp)
    qed
  qed
qed

end

section \<open>The channels of an upload\<close>

definition CHANNEL_CAPACITY :: nat where
  "CHANNEL_CAPACITY = 32"

record channels =
  pending :: "(ArtifactFormat \<times> bytes) list"
  queue :: "ArtifactFormat \<Rightarrow> bytes list"
  taken :: "ArtifactFormat \<Rightarrow> bytes list"

definition start_channels :: "(ArtifactFormat \<times> bytes) list \<Rightarrow> channels" where
  "start_channels sends = \<lparr>pending = sends, queue = (\<lambda>f. []), taken = (\<lambda>f. [])\<rparr>"

text \<open>The messages sent into one channel.\<close>

definition chunks_for :: "ArtifactFormat \<Rightarrow> (ArtifactFormat \<times> bytes) list \<Rightarrow> bytes list" where
  "chunks_for f sends = map snd (filter (\<lambda>s. fst s = f) sends)"

text \<open>How the uploads read, and how much of its channel an upload reads before it is over.\<close>

datatype reading = Sequential | Concurrent bool

datatype demand = ToEnd | Upto nat

definition at_end :: "channels \<Rightarrow> ArtifactFormat \<Rightarrow> bool" where
  "at_end c f \<longleftrightarrow> pending c = [] \<and> queue c f = []"

definition upload_over :: "(ArtifactFormat \<Rightarrow> demand) \<Rightarrow> channels \<Rightarrow> ArtifactFormat \<Rightarrow> bool" where
  "upload_over dem c f \<longleftrightarrow> at_end c f \<or> (case dem f of ToEnd \<Rightarrow> False | Upto n \<Rightarrow> n \<le> length (taken c f))"

definition polls :: "reading \<Rightarrow> (ArtifactFormat \<Rightarrow> demand) \<Rightarrow> channels \<Rightarrow> ArtifactFormat \<Rightarrow> bool" where
  "polls mode dem c f \<longleftrightarrow>
     \<not> upload_over dem c f \<and> (mode = Sequential \<and> f = BuildCache \<longrightarrow> upload_over dem c Deploy)"

definition try_send :: "nat \<Rightarrow> channels \<Rightarrow> channels option" where
  "try_send cap c =
     (case pending c of
        [] \<Rightarrow> None
      | (f, chunk) # rest \<Rightarrow>
          if length (queue c f) < cap
          then Some (c\<lparr>pending := rest, queue := (queue c)(f := queue c f @ [chunk])\<rparr>)
          else None)"

definition try_receive :: "reading \<Rightarrow> (ArtifactFormat \<Rightarrow> demand) \<Rightarrow> ArtifactFormat \<Rightarrow> channels \<Rightarrow> channels option" where
  "try_receive mode dem f c =
     (case queue c f of
        [] \<Rightarrow> None
      | chunk # rest \<Rightarrow>
          if polls mode dem c f
          then Some (c\<lparr>queue := (queue c)(f := rest), taken := (taken c)(f := taken c f @ [chunk])\<rparr>)
          else None)"

inductive chan_step :: "reading \<Rightarrow> nat \<Rightarrow> (ArtifactFormat \<Rightarrow> demand) \<Rightarrow> channels \<Rightarrow> channels \<Rightarrow> bool"
  for mode cap dem where
  sends: "try_send cap c = Some c' \<Longrightarrow> chan_step mode cap dem c c'"
| receives: "try_receive mode dem f c = Some c' \<Longrightarrow> chan_step mode cap dem c c'"

inductive_cases chan_stepE: "chan_step mode cap dem c c'"

definition chan_load :: "channels \<Rightarrow> nat" where
  "chan_load c = 2 * length (pending c) + length (queue c Deploy) + length (queue c BuildCache)"

lemma try_send_Some:
  "try_send cap c = Some c' \<longleftrightarrow>
     (\<exists>f chunk rest. pending c = (f, chunk) # rest \<and> length (queue c f) < cap \<and>
        c' = c\<lparr>pending := rest, queue := (queue c)(f := queue c f @ [chunk])\<rparr>)"
  by (auto simp: try_send_def split: list.splits)

lemma try_receive_Some:
  "try_receive mode dem f c = Some c' \<longleftrightarrow>
     (\<exists>chunk rest. queue c f = chunk # rest \<and> polls mode dem c f \<and>
        c' = c\<lparr>queue := (queue c)(f := rest), taken := (taken c)(f := taken c f @ [chunk])\<rparr>)"
  by (auto simp: try_receive_def split: list.splits)

lemma chan_step_shrinks: "chan_step mode cap dem c c' \<Longrightarrow> chan_load c' < chan_load c"
proof (erule chan_stepE)
  assume "try_send cap c = Some c'"
  then obtain f where "chan_load c' < chan_load c \<or> f \<noteq> Deploy \<and> f \<noteq> BuildCache"
    by (auto simp: try_send_Some chan_load_def)
  then show ?thesis by (cases f) auto
next
  fix f assume "try_receive mode dem f c = Some c'"
  then show ?thesis by (cases f) (auto simp: try_receive_Some chan_load_def)
qed

text \<open>An upload that is over stays over.\<close>

lemma upload_over_stays: "chan_step mode cap dem c c' \<Longrightarrow> upload_over dem c f \<Longrightarrow> upload_over dem c' f"
  by (erule chan_stepE) (auto simp: try_send_Some try_receive_Some upload_over_def at_end_def split: demand.splits)

text \<open>A step of the task and a step of a reader commute, and so do steps of two readers.\<close>

lemma send_receive_joins:
  assumes "try_send cap c = Some a" and "try_receive mode dem f c = Some b"
  shows "\<exists>d. try_receive mode dem f a = Some d \<and> try_send cap b = Some d"
proof -
  obtain g x rest where s: "pending c = (g, x) # rest" "length (queue c g) < cap"
    "a = c\<lparr>pending := rest, queue := (queue c)(g := queue c g @ [x])\<rparr>"
    using assms(1) by (auto simp: try_send_Some)
  obtain y more where r: "queue c f = y # more" "polls mode dem c f"
    "b = c\<lparr>queue := (queue c)(f := more), taken := (taken c)(f := taken c f @ [y])\<rparr>"
    using assms(2) by (auto simp: try_receive_Some)
  have "upload_over dem c h \<Longrightarrow> upload_over dem a h" for h
    using upload_over_stays chan_step.sends [OF assms(1)] by blast
  moreover have "\<not> upload_over dem a f" using r(1,2) s by (auto simp: polls_def upload_over_def at_end_def split: demand.splits)
  ultimately have pa: "polls mode dem a f" using r(2) by (auto simp: polls_def)
  let ?d = "c\<lparr>pending := rest, queue := ((queue c)(g := queue c g @ [x]))(f := (if f = g then more @ [x] else more)),
      taken := (taken c)(f := taken c f @ [y])\<rparr>"
  have "try_receive mode dem f a = Some ?d"
    using pa r(1) s(3) by (auto simp: try_receive_Some)
  moreover have "try_send cap b = Some ?d"
    using s(1,2) r(1,3) by (auto simp: try_send_Some fun_upd_twist)
  ultimately show ?thesis by blast
qed

lemma receive_receive_joins:
  assumes "try_receive mode dem f c = Some a" and "try_receive mode dem g c = Some b" and "f \<noteq> g"
  shows "\<exists>d. try_receive mode dem g a = Some d \<and> try_receive mode dem f b = Some d"
proof -
  obtain x xs where f: "queue c f = x # xs" "polls mode dem c f"
    "a = c\<lparr>queue := (queue c)(f := xs), taken := (taken c)(f := taken c f @ [x])\<rparr>"
    using assms(1) by (auto simp: try_receive_Some)
  obtain y ys where g: "queue c g = y # ys" "polls mode dem c g"
    "b = c\<lparr>queue := (queue c)(g := ys), taken := (taken c)(g := taken c g @ [y])\<rparr>"
    using assms(2) by (auto simp: try_receive_Some)
  have m: "mode \<noteq> Sequential"
    using f(2) g(2) assms(3) by (cases f; cases g) (auto simp: polls_def)
  have "polls mode dem a g" "polls mode dem b f"
    using f g m assms(3) by (auto simp: polls_def upload_over_def at_end_def split: demand.splits)
  then show ?thesis
    using f g assms(3) by (auto simp: try_receive_Some fun_upd_twist)
qed

interpretation channel_run: converging "chan_step mode cap dem" chan_load
proof
  fix c a b
  assume a: "chan_step mode cap dem c a" and b: "chan_step mode cap dem c b"
  from a show "a = b \<or> (\<exists>d. chan_step mode cap dem a d \<and> chan_step mode cap dem b d)"
  proof (cases rule: chan_step.cases)
    case sends
    note s = this
    from b show ?thesis
    proof (cases rule: chan_step.cases)
      case sends
      with s show ?thesis by simp
    next
      case (receives g)
      from send_receive_joins [OF s receives] show ?thesis by (blast intro: chan_step.intros)
    qed
  next
    case (receives f)
    note r = this
    from b show ?thesis
    proof (cases rule: chan_step.cases)
      case sends
      from send_receive_joins [OF sends r] show ?thesis by (blast intro: chan_step.intros)
    next
      case (receives g)
      with r receive_receive_joins [OF r receives] show ?thesis
        by (cases "f = g") (auto intro: chan_step.intros)
    qed
  qed
qed (rule chan_step_shrinks)

section \<open>One run, computed\<close>

definition next_channels :: "reading \<Rightarrow> nat \<Rightarrow> (ArtifactFormat \<Rightarrow> demand) \<Rightarrow> channels \<Rightarrow> channels option" where
  "next_channels mode cap dem c =
     (case try_receive mode dem Deploy c of
        Some c' \<Rightarrow> Some c'
      | None \<Rightarrow> (case try_receive mode dem BuildCache c of Some c' \<Rightarrow> Some c' | None \<Rightarrow> try_send cap c))"

lemma next_channels_step: "next_channels mode cap dem c = Some c' \<Longrightarrow> chan_step mode cap dem c c'"
  by (auto simp: next_channels_def intro: chan_step.intros split: option.splits)

lemma next_channels_None: "next_channels mode cap dem c = None \<longleftrightarrow> channel_run.ended mode cap dem c"
proof -
  have "chan_step mode cap dem c c' \<longleftrightarrow> try_send cap c = Some c' \<or> try_receive mode dem Deploy c = Some c'
      \<or> try_receive mode dem BuildCache c = Some c'" for c'
    by (auto simp: chan_step.simps) (metis ArtifactFormat.exhaust)
  then show ?thesis by (auto simp: next_channels_def channel_run.ended_def split: option.splits)
qed

function run_channels :: "reading \<Rightarrow> nat \<Rightarrow> (ArtifactFormat \<Rightarrow> demand) \<Rightarrow> channels \<Rightarrow> channels" where
  "run_channels mode cap dem c =
     (case next_channels mode cap dem c of None \<Rightarrow> c | Some c' \<Rightarrow> run_channels mode cap dem c')"
  by pat_completeness auto
termination
  by (relation "measure (\<lambda>(mode, cap, dem, c). chan_load c)") (auto dest: next_channels_step chan_step_shrinks)

declare run_channels.simps [simp del]

lemma run_channels_reaches:
  "(chan_step mode cap dem)\<^sup>*\<^sup>* c (run_channels mode cap dem c) \<and> channel_run.ended mode cap dem (run_channels mode cap dem c)"
proof (induction mode cap dem c rule: run_channels.induct)
  case (1 mode cap dem c)
  show ?case
  proof (cases "next_channels mode cap dem c")
    case None
    then have "run_channels mode cap dem c = c" by (subst run_channels.simps) simp
    with None show ?thesis by (simp flip: next_channels_None)
  next
    case (Some c')
    then have "run_channels mode cap dem c = run_channels mode cap dem c'" by (subst run_channels.simps) simp
    with 1 [OF Some] next_channels_step [OF Some] show ?thesis
      by (simp add: converse_rtranclp_into_rtranclp)
  qed
qed

text \<open>The uploads are over when nothing can happen any more.\<close>

definition settles :: "reading \<Rightarrow> nat \<Rightarrow> (ArtifactFormat \<Rightarrow> demand) \<Rightarrow> (ArtifactFormat \<times> bytes) list \<Rightarrow> bool" where
  "settles mode cap dem sends =
     (let c = run_channels mode cap dem (start_channels sends)
      in upload_over dem c Deploy \<and> upload_over dem c BuildCache)"

lemma settles_any_schedule:
  assumes "(chan_step mode cap dem)\<^sup>*\<^sup>* (start_channels sends) c" and "channel_run.ended mode cap dem c"
  shows "settles mode cap dem sends \<longleftrightarrow> upload_over dem c Deploy \<and> upload_over dem c BuildCache"
proof -
  have "c = run_channels mode cap dem (start_channels sends)"
    using channel_run.unique_end [OF assms] run_channels_reaches [of mode cap dem] by blast
  then show ?thesis by (simp add: settles_def Let_def)
qed

section \<open>When uploads are over and when they wait for ever\<close>

text \<open>Nothing is lost or reordered: what was taken, is queued and is pending are the messages sent.\<close>

definition balanced :: "nat \<Rightarrow> (ArtifactFormat \<times> bytes) list \<Rightarrow> channels \<Rightarrow> bool" where
  "balanced cap sends c \<longleftrightarrow>
     (\<forall>f. taken c f @ queue c f @ chunks_for f (pending c) = chunks_for f sends \<and> length (queue c f) \<le> cap)"

lemma balanced_start: "balanced cap sends (start_channels sends)"
  by (simp add: balanced_def start_channels_def)

lemma balanced_step:
  assumes "chan_step mode cap dem c c'" and "balanced cap sends c"
  shows "balanced cap sends c'"
proof -
  have "taken c' f @ queue c' f @ chunks_for f (pending c') = taken c f @ queue c f @ chunks_for f (pending c) \<and>
      (length (queue c' f) \<le> cap \<or> length (queue c' f) \<le> length (queue c f))" for f
    using assms(1) by (elim chan_stepE) (auto simp: try_send_Some try_receive_Some chunks_for_def)
  then show ?thesis using assms(2) unfolding balanced_def by (metis le_trans)
qed

lemma balanced_reached:
  assumes "(chan_step mode cap dem)\<^sup>*\<^sup>* (start_channels sends) c"
  shows "balanced cap sends c"
  using assms by induction (auto simp: balanced_start intro: balanced_step)

text \<open>Two readers that read at the same time to the end are always served.\<close>

lemma concurrent_progress:
  assumes "0 < cap" and "dem = (\<lambda>f. ToEnd)" and "mode = Concurrent first" and "channel_run.ended mode cap dem c"
  shows "at_end c f"
proof -
  have none: "try_send cap c = None" "try_receive mode dem g c = None" for g
    using assms(4) chan_step.intros unfolding channel_run.ended_def by (metis option.exhaust)+
  have q: "queue c g = []" for g
  proof (rule ccontr)
    assume "queue c g \<noteq> []"
    then have "polls mode dem c g" using assms(2,3) by (simp add: polls_def upload_over_def at_end_def)
    with none(2) [of g] \<open>queue c g \<noteq> []\<close> show False by (auto simp: try_receive_def split: list.splits)
  qed
  moreover have "pending c = []" using none(1) assms(1) q by (auto simp: try_send_def split: list.splits)
  ultimately show ?thesis by (simp add: at_end_def)
qed

lemma concurrent_delivers:
  assumes "0 < cap" and "(chan_step (Concurrent first) cap (\<lambda>f. ToEnd))\<^sup>*\<^sup>* (start_channels sends) c"
    and "channel_run.ended (Concurrent first) cap (\<lambda>f. ToEnd) c"
  shows "taken c f = chunks_for f sends" and "upload_over (\<lambda>f. ToEnd) c f"
proof -
  have e: "at_end c f" by (rule concurrent_progress [OF assms(1) refl refl assms(3)])
  then show "upload_over (\<lambda>f. ToEnd) c f" by (simp add: upload_over_def)
  have "taken c f @ queue c f @ chunks_for f (pending c) = chunks_for f sends"
    using balanced_reached [OF assms(2)] by (simp add: balanced_def)
  with e show "taken c f = chunks_for f sends" by (simp add: at_end_def chunks_for_def)
qed

lemma concurrent_settles: "0 < cap \<Longrightarrow> settles (Concurrent first) cap (\<lambda>f. ToEnd) sends"
  using concurrent_delivers(2) run_channels_reaches unfolding settles_def Let_def by blast

text \<open>
  A channel that nobody reads while the other upload waits for the end of its own fills up, and the
  task waits for ever.
\<close>

lemma starved:
  assumes "mode = Sequential \<or> dem BuildCache = Upto 0" and "dem Deploy = ToEnd" and "cap < length (chunks_for BuildCache sends)"
    and "(chan_step mode cap dem)\<^sup>*\<^sup>* (start_channels sends) c"
  shows "taken c BuildCache = [] \<and> \<not> upload_over dem c Deploy"
  using assms(4)
proof induction
  case base
  have "sends \<noteq> []" using assms(3) by (auto simp: chunks_for_def)
  then show ?case using assms(2) by (simp add: start_channels_def upload_over_def at_end_def)
next
  case (step a c)
  have "taken c BuildCache = []"
    using step(2,3) assms(1)
    by (elim chan_stepE) (auto simp: try_send_Some try_receive_Some polls_def upload_over_def)
  moreover have "balanced cap sends c" using step(1,2) balanced_reached by (meson rtranclp.rtrancl_into_rtrancl)
  ultimately have "queue c BuildCache @ chunks_for BuildCache (pending c) = chunks_for BuildCache sends"
    "length (queue c BuildCache) \<le> cap"
    unfolding balanced_def by (metis append_Nil)+
  then have "length (chunks_for BuildCache sends) \<le> cap + length (chunks_for BuildCache (pending c))"
    by (metis add_le_mono1 length_append)
  then have "pending c \<noteq> []" using assms(3) by (auto simp: chunks_for_def)
  then show ?case using \<open>taken c BuildCache = []\<close> assms(2) by (simp add: upload_over_def at_end_def)
qed

lemma starved_hangs:
  assumes "mode = Sequential \<or> dem BuildCache = Upto 0" and "dem Deploy = ToEnd" and "cap < length (chunks_for BuildCache sends)"
  shows "\<not> settles mode cap dem sends"
  using starved [OF assms] run_channels_reaches unfolding settles_def Let_def by blast

text \<open>One after the other, the uploads are over when the second channel can hold all its messages.\<close>

lemma sequential_settles:
  assumes "length (chunks_for BuildCache sends) \<le> cap" and "0 < cap"
  shows "settles Sequential cap (\<lambda>f. ToEnd) sends"
proof -
  define dem :: "ArtifactFormat \<Rightarrow> demand" where "dem = (\<lambda>f. ToEnd)"
  define c where "c = run_channels Sequential cap dem (start_channels sends)"
  have r: "(chan_step Sequential cap dem)\<^sup>*\<^sup>* (start_channels sends) c" "channel_run.ended Sequential cap dem c"
    using run_channels_reaches unfolding c_def by blast+
  have none: "try_send cap c = None" "try_receive Sequential dem g c = None" for g
    using r(2) chan_step.intros unfolding channel_run.ended_def by (metis option.exhaust)+
  have q: "queue c g = []" if "g = BuildCache \<longrightarrow> at_end c Deploy" for g
  proof (rule ccontr)
    assume n: "queue c g \<noteq> []"
    then have "polls Sequential dem c g" using that by (simp add: polls_def upload_over_def at_end_def dem_def)
    with none(2) [of g] n show False by (auto simp: try_receive_def split: list.splits)
  qed
  have "pending c = []"
  proof (rule ccontr)
    assume "pending c \<noteq> []"
    then obtain f x rest where p: "pending c = (f, x) # rest" by (cases "pending c") auto
    with none(1) have full: "cap \<le> length (queue c f)" by (auto simp: try_send_def split: if_splits)
    with q [of Deploy] assms(2) have f: "f = BuildCache" by (cases f) auto
    have "taken c f @ queue c f @ chunks_for f (pending c) = chunks_for f sends"
      using balanced_reached [OF r(1)] by (simp add: balanced_def)
    then have "length (queue c f) < length (chunks_for f sends)" using p f by (auto simp: chunks_for_def dest: arg_cong [of _ _ length])
    with full assms(1) f show False by simp
  qed
  then have "at_end c Deploy" "at_end c BuildCache" using q [of Deploy] q [of BuildCache] by (auto simp: at_end_def)
  then show ?thesis unfolding settles_def Let_def c_def [symmetric] dem_def [symmetric] by (simp add: upload_over_def)
qed

text \<open>
  C21. The uploads of both artifacts share one request stream through two bounded channels. Read
  at the same time, they are always over, for every order of the chunks and every schedule of the
  task and the two readers: no run makes more than two steps for each chunk, and in
  every state where nothing can happen any more, each reader has got exactly its chunks in order
  and the end. Read one after the other, they are over exactly when the second channel can hold
  all chunks sent into it: with more chunks, in no schedule does the first upload come to its end nor the
  second one get a chunk, which is the deadlock that the source warns of.
\<close>

theorem concurrent_upload_never_blocks:
  assumes "0 < cap"
  shows "((chan_step (Concurrent first) cap (\<lambda>f. ToEnd) ^^ n) (start_channels sends) c \<longrightarrow> n \<le> 2 * length sends)
    \<and> ((chan_step (Concurrent first) cap (\<lambda>f. ToEnd))\<^sup>*\<^sup>* (start_channels sends) c
         \<and> (\<forall>c'. \<not> chan_step (Concurrent first) cap (\<lambda>f. ToEnd) c c')
        \<longrightarrow> taken c f = chunks_for f sends \<and> at_end c f)
    \<and> (settles Sequential cap (\<lambda>f. ToEnd) sends \<longleftrightarrow> length (chunks_for BuildCache sends) \<le> cap)
    \<and> (cap < length (chunks_for BuildCache sends) \<and> (chan_step Sequential cap (\<lambda>f. ToEnd))\<^sup>*\<^sup>* (start_channels sends) d
        \<longrightarrow> taken d BuildCache = [] \<and> \<not> at_end d Deploy)"
proof (intro conjI impI)
  show "n \<le> 2 * length sends" if "(chan_step (Concurrent first) cap (\<lambda>f. ToEnd) ^^ n) (start_channels sends) c"
    using channel_run.run_bound [OF that] by (simp add: chan_load_def start_channels_def)
next
  assume "(chan_step (Concurrent first) cap (\<lambda>f. ToEnd))\<^sup>*\<^sup>* (start_channels sends) c
    \<and> (\<forall>c'. \<not> chan_step (Concurrent first) cap (\<lambda>f. ToEnd) c c')"
  then show "taken c f = chunks_for f sends" "at_end c f"
    using concurrent_delivers [OF assms, of first sends c f] by (auto simp: channel_run.ended_def upload_over_def)
next
  show "settles Sequential cap (\<lambda>f. ToEnd) sends \<longleftrightarrow> length (chunks_for BuildCache sends) \<le> cap"
    using sequential_settles [OF _ assms] starved_hangs [of Sequential "\<lambda>f. ToEnd" cap sends] by (meson linorder_not_less)
next
  assume "cap < length (chunks_for BuildCache sends) \<and> (chan_step Sequential cap (\<lambda>f. ToEnd))\<^sup>*\<^sup>* (start_channels sends) d"
  then show "taken d BuildCache = []" "\<not> at_end d Deploy"
    using starved [of Sequential "\<lambda>f. ToEnd" cap sends d] by (auto simp: upload_over_def)
qed

theorem concurrent_upload_never_blocks_witness:
  "\<not> settles Sequential 1 (\<lambda>f. ToEnd) [(BuildCache, [1]), (BuildCache, [2]), (Deploy, [3])]
   \<and> taken (run_channels (Concurrent True) 1 (\<lambda>f. ToEnd) (start_channels [(BuildCache, [1]), (BuildCache, [2]), (Deploy, [3])])) BuildCache
       = [[1], [2]]"
  using concurrent_upload_never_blocks [where cap = 1 and first = True and f = BuildCache
      and sends = "[(BuildCache, [1]), (BuildCache, [2]), (Deploy, [3])]"
      and c = "run_channels (Concurrent True) 1 (\<lambda>f. ToEnd) (start_channels [(BuildCache, [1]), (BuildCache, [2]), (Deploy, [3])])"]
    run_channels_reaches [of "Concurrent True" 1 "\<lambda>f. ToEnd" "start_channels [(BuildCache, [1]), (BuildCache, [2]), (Deploy, [3])]"]
  by (simp add: channel_run.ended_def) (simp add: chunks_for_def)

end
