(* ===== verification/Layer_Server.thy ===== *)
theory Layer_Server
  imports Layer_Memory Layer_Channels
begin

text \<open>
  The gRPC service of the layer store, \<^verbatim>\<open>fs-storage/src/server.rs\<close>. The messages are those of
  \<^verbatim>\<open>fs-storage/proto/fs_storage.proto\<close>. A handler fails with a status or, where the source
  unwraps a value that is missing or malformed, with a panic; \<open>NoReply\<close> stands for a handler that
  waits for ever and answers nothing.

  Uploads arrive as one stream that mixes chunks of both artifacts. A task sorts them into two
  bounded channels (\<open>Layer_Channels\<close>), and a \<open>StreamAdapter\<close> presents each channel as a reader. The
  capacity of the caller's buffer is a parameter of a poll; the store's copy loop always offers
  room for at least one byte.
\<close>

section \<open>Messages and statuses\<close>

datatype Code = InvalidArgument | NotFoundCode | AlreadyExists | Internal

datatype failure = Status Code string | Panic | NoReply

fun error_code :: "StoreError \<Rightarrow> Code" where
  "error_code NotFound = NotFoundCode"
| "error_code (HashCollision h) = AlreadyExists"
| "error_code (InvalidHash s) = InvalidArgument"
| "error_code (InvalidTagName n) = InvalidArgument"
| "error_code (Io e) = Internal"
| "error_code (Serialization e) = Internal"

definition map_error :: "store_ext \<Rightarrow> StoreError \<Rightarrow> failure" where
  "map_error x e = Status (error_code e) (show_StoreError x e)"

definition invalid_argument :: "store_ext \<Rightarrow> StoreError \<Rightarrow> failure" where
  "invalid_argument x e = Status InvalidArgument (show_StoreError x e)"

datatype ProtoFormat = FormatUnspecified | FormatDeploy | FormatBuildCache

record ProtoLayerMeta =
  pm_input_hash :: string
  pm_content_hash :: string
  pm_parent_input_hash :: "string option"
  pm_uncompressed_size :: u64
  pm_compressed_size_deploy :: u64
  pm_compressed_size_cache :: u64
  pm_builder_version :: string
  pm_build_timestamp :: u64
  pm_build_host :: string
  pm_stage_definition_hash :: string
  pm_dockerfile_hash :: string

record ProtoManifestLayer =
  pl_name :: string
  pl_order :: u32
  pl_input_hash :: string
  pl_content_hash :: string
  pl_size_bytes :: u64
  pl_size_compressed_bytes :: u64
  pl_parent_input_hash :: "string option"

record ProtoBuildMetadata =
  pb_dockerfile_hash :: string
  pb_build_timestamp :: u64
  pb_builder_version :: string
  pb_build_host :: string

record ProtoReleaseManifest =
  pr_schema_version :: string
  pr_manifest_id :: string
  pr_build_metadata :: "ProtoBuildMetadata option"
  pr_layers :: "ProtoManifestLayer list"
  pr_workload_metadata :: "(string, string) fmap"

record ProtoBuildFilter =
  pf_tag :: "string option"
  pf_release_name_prefix :: "string option"
  pf_layer_hash :: "string option"
  pf_from_timestamp :: "u64 option"
  pf_to_timestamp :: "u64 option"

record ProtoCatalogEntry =
  pc_build_id :: string
  pc_release_name :: string
  pc_manifest_hash :: string
  pc_build_timestamp :: u64
  pc_spec_hash :: string
  pc_layers :: "string list"

section \<open>The stream adapter\<close>

text \<open>
  The receiving end of a channel: the answers to successive polls. After the last one the
  channel is closed.
\<close>

datatype recv_event = Message bytes | Waiting

record StreamAdapter =
  receiver :: "recv_event list"
  buffer :: "bytes option"
  pos :: nat

definition new_StreamAdapter :: "recv_event list \<Rightarrow> StreamAdapter" where
  "new_StreamAdapter rx = \<lparr>receiver = rx, buffer = None, pos = 0\<rparr>"

function adapter_poll_read :: "nat \<Rightarrow> StreamAdapter \<Rightarrow> poll \<times> bytes \<times> StreamAdapter" where
  "adapter_poll_read room a =
     (let data = (case buffer a of Some data \<Rightarrow> data | None \<Rightarrow> []);
          to_copy = (case buffer a of Some data \<Rightarrow> min (length data - pos a) room | None \<Rightarrow> 0);
          buffer_done = (buffer a \<noteq> None \<and> length data \<le> pos a + to_copy)
      in if 0 < to_copy
         then (Ready_Ok, take to_copy (drop (pos a) data),
               if buffer_done then a\<lparr>pos := 0, buffer := None\<rparr> else a\<lparr>pos := pos a + to_copy\<rparr>)
         else case receiver a of
                Message d # rx \<Rightarrow> adapter_poll_read room (a\<lparr>receiver := rx, buffer := Some d, pos := 0\<rparr>)
              | [] \<Rightarrow> (Ready_Ok, [], a)
              | Waiting # rx \<Rightarrow> (Pending, [], a\<lparr>receiver := rx\<rparr>))"
  by pat_completeness auto
termination
  by (relation "measure (\<lambda>(room, a). length (receiver a))") auto

declare adapter_poll_read.simps [simp del]

text \<open>The bytes an adapter has yet to deliver.\<close>

fun messages :: "recv_event list \<Rightarrow> bytes" where
  "messages [] = []"
| "messages (Message d # rx) = d @ messages rx"
| "messages (Waiting # rx) = messages rx"

definition unread :: "StreamAdapter \<Rightarrow> bytes" where
  "unread a = (case buffer a of Some d \<Rightarrow> drop (pos a) d | None \<Rightarrow> []) @ messages (receiver a)"

definition buffered :: "StreamAdapter \<Rightarrow> nat" where
  "buffered a = (case buffer a of Some d \<Rightarrow> length d - pos a | None \<Rightarrow> 0)"

lemma adapter_poll_spec:
  assumes "0 < room" and "adapter_poll_read room a = (p, c, a')"
  shows "unread a = c @ unread a' \<and>
    (p = Ready_Ok \<and> c = [] \<and> unread a = [] \<or>
     p = Ready_Ok \<and> c \<noteq> [] \<and> length (receiver a') \<le> length (receiver a) \<or>
     p = Pending \<and> c = [] \<and> length (receiver a') < length (receiver a))"
  using assms
proof (induction "length (receiver a)" arbitrary: a rule: less_induct)
  case less
  define data where "data = (case buffer a of Some data \<Rightarrow> data | None \<Rightarrow> [])"
  define n where "n = (case buffer a of Some data \<Rightarrow> min (length data - pos a) room | None \<Rightarrow> 0)"
  have eq: "(p, c, a') = (if 0 < n
         then (Ready_Ok, take n (drop (pos a) data),
               if buffer a \<noteq> None \<and> length data \<le> pos a + n then a\<lparr>pos := 0, buffer := None\<rparr> else a\<lparr>pos := pos a + n\<rparr>)
         else case receiver a of
                Message d # rx \<Rightarrow> adapter_poll_read room (a\<lparr>receiver := rx, buffer := Some d, pos := 0\<rparr>)
              | [] \<Rightarrow> (Ready_Ok, [], a)
              | Waiting # rx \<Rightarrow> (Pending, [], a\<lparr>receiver := rx\<rparr>))"
    unfolding less.prems(2) [symmetric] data_def n_def
    by (subst adapter_poll_read.simps) (simp only: Let_def)
  show ?case
  proof (cases "0 < n")
    case True
    then obtain d where d: "buffer a = Some d" "data = d" "n = min (length d - pos a) room"
      by (auto simp: data_def n_def split: option.splits)
    have split: "drop (pos a) d = take n (drop (pos a) d) @ drop (pos a + n) d"
      by (metis add.commute append_take_drop_id drop_drop)
    have "take n (drop (pos a) d) \<noteq> []" using True d(3) by (cases "drop (pos a) d") auto
    with True eq d split show ?thesis by (auto simp: unread_def)
  next
    case False
    then have none: "unread a = messages (receiver a)"
      using less.prems(1) by (auto simp: unread_def n_def split: option.splits)
    show ?thesis
    proof (cases "receiver a")
      case Nil
      then show ?thesis using eq False none by simp
    next
      case (Cons ev rx)
      show ?thesis
      proof (cases ev)
        case (Message d)
        let ?a = "a\<lparr>receiver := rx, buffer := Some d, pos := 0\<rparr>"
        have run: "adapter_poll_read room ?a = (p, c, a')" using eq False Cons Message by simp
        have "unread ?a = unread a" using none Cons Message by (simp add: unread_def)
        with less.hyps [of ?a] less.prems(1) run Cons show ?thesis by auto
      next
        case Waiting
        then show ?thesis using eq False Cons none
          by (auto simp: unread_def n_def split: option.splits)
      qed
    qed
  qed
qed

function adapter_events :: "nat \<Rightarrow> StreamAdapter \<Rightarrow> read_event list" where
  "adapter_events room a =
     (if room = 0 then []
      else case adapter_poll_read room a of
        (Ready_Ok, c, a') \<Rightarrow> if c = [] then [Chunk []] else Chunk c # adapter_events room a'
      | (Pending, c, a') \<Rightarrow> NotReady # adapter_events room a'
      | (Ready_Err e, c, a') \<Rightarrow> [Failure e])"
  by pat_completeness auto
termination
proof (relation "measure (\<lambda>(room, a). length (receiver a) + length (unread a))", goal_cases)
  case 1
  then show ?case by simp
next
  case (2 room a p q c a')
  then show ?case using adapter_poll_spec [of room a Ready_Ok c a'] by (cases c) auto
next
  case (3 room a p q c a')
  then show ?case using adapter_poll_spec [of room a Pending c a'] by auto
qed

declare adapter_events.simps [simp del]

text \<open>The last event of an adapter is the empty read at the end of its channel.\<close>

lemma adapter_events_end:
  "0 < room \<Longrightarrow> \<exists>es. adapter_events room a = es @ [Chunk []] \<and> (\<forall>e \<in> set es. e = NotReady \<or> (\<exists>c. e = Chunk c \<and> c \<noteq> []))"
proof (induction room a rule: adapter_events.induct)
  case (1 room a)
  obtain p c a' where p: "adapter_poll_read room a = (p, c, a')" by (metis prod_cases3)
  note spec = adapter_poll_spec [OF "1.prems" p]
  have ne: "room \<noteq> 0" using "1.prems" by simp
  show ?case
  proof (cases p)
    case Ready_Ok
    show ?thesis
    proof (cases "c = []")
      case True
      with p Ready_Ok ne show ?thesis by (subst adapter_events.simps) simp
    next
      case False
      from "1.IH"(1) [OF ne p [symmetric] Ready_Ok refl False "1.prems"] obtain es where
        "adapter_events room a' = es @ [Chunk []]" "\<forall>e \<in> set es. e = NotReady \<or> (\<exists>c. e = Chunk c \<and> c \<noteq> [])" by blast
      with p Ready_Ok ne False show ?thesis by (subst adapter_events.simps) (auto intro!: exI [of _ "Chunk c # es"])
    qed
  next
    case Pending
    from "1.IH"(2) [OF ne p [symmetric] Pending refl "1.prems"] obtain es where
      "adapter_events room a' = es @ [Chunk []]" "\<forall>e \<in> set es. e = NotReady \<or> (\<exists>c. e = Chunk c \<and> c \<noteq> [])" by blast
    with p Pending ne show ?thesis by (subst adapter_events.simps) (auto intro!: exI [of _ "NotReady # es"])
  next
    case (Ready_Err e)
    with spec show ?thesis by simp
  qed
qed

text \<open>Reading an adapter to the end delivers the messages in order, however small the buffer is.\<close>

lemma drain_adapter: "0 < room \<Longrightarrow> drain (adapter_events room a) = Inr (unread a)"
proof (induction room a rule: adapter_events.induct)
  case (1 room a)
  obtain p c a' where p: "adapter_poll_read room a = (p, c, a')" by (metis prod_cases3)
  note spec = adapter_poll_spec [OF "1.prems" p]
  have ne: "room \<noteq> 0" using "1.prems" by simp
  show ?case
  proof (cases p)
    case Ready_Ok
    show ?thesis
    proof (cases "c = []")
      case True
      with p Ready_Ok ne spec show ?thesis by (subst adapter_events.simps) auto
    next
      case False
      have "drain (adapter_events room a') = Inr (unread a')"
        using "1.IH"(1) [OF ne p [symmetric] Ready_Ok refl False "1.prems"] .
      with p Ready_Ok ne spec False show ?thesis by (subst adapter_events.simps) simp
    qed
  next
    case Pending
    have "drain (adapter_events room a') = Inr (unread a')"
      using "1.IH"(2) [OF ne p [symmetric] Pending refl "1.prems"] .
    with p Pending ne spec show ?thesis by (subst adapter_events.simps) simp
  next
    case (Ready_Err e)
    with spec show ?thesis by simp
  qed
qed

section \<open>Handlers\<close>

definition parse_content :: "store_ext \<Rightarrow> string \<Rightarrow> ('b, failure, ContentHash) op" where
  "parse_content x s = map_err (invalid_argument x) (lift_res (ContentHash_from_str x s))"

definition parse_input :: "store_ext \<Rightarrow> string \<Rightarrow> ('b, failure, InputHash) op" where
  "parse_input x s = map_err (invalid_argument x) (lift_res (InputHash_from_str x s))"

text \<open>\<open>Result::unwrap\<close>.\<close>

definition unwrap :: "'e + 'a \<Rightarrow> ('b, failure, 'a) op" where
  "unwrap r = (case r of Inl e \<Rightarrow> ret_err Panic | Inr a \<Rightarrow> ret_ok a)"

definition rpc_resolve_input_hash ::
  "store_ext \<Rightarrow> 'b StorageBackend \<Rightarrow> string \<Rightarrow> ('b, failure, string option) op" where
  "rpc_resolve_input_hash x b req =
     and_then (parse_input x req) (\<lambda>i.
     and_then (map_err (map_error x) (resolve_input_hash x b i)) (\<lambda>found.
     ret_ok (map_option (show_ContentHash x) found)))"

definition rpc_has_layer :: "store_ext \<Rightarrow> 'b StorageBackend \<Rightarrow> string \<Rightarrow> ('b, failure, bool) op" where
  "rpc_has_layer x b req =
     and_then (parse_content x req) (\<lambda>h. map_err (map_error x) (has_layer b h))"

text \<open>
  The task behind a pull reads into a buffer of \<open>n\<close> bytes and sends what it got; an error of the
  reader ends the stream like its end does.
\<close>

function pull_stream :: "nat \<Rightarrow> read_event list \<Rightarrow> bytes list" where
  "pull_stream n [] = []"
| "pull_stream n (NotReady # es) = pull_stream n es"
| "pull_stream n (Failure e # es) = []"
| "pull_stream n (Chunk c # es) =
     (if c = [] \<or> n = 0 then []
      else take n c # pull_stream n (if length c \<le> n then es else Chunk (drop n c) # es))"
  by pat_completeness auto
termination
  by (relation "measure (\<lambda>(n, es). sum_list (map (\<lambda>e. case e of Chunk c \<Rightarrow> Suc (length c) | _ \<Rightarrow> 1) es))") auto

declare pull_stream.simps(4) [simp del]

definition rpc_pull_layer ::
  "store_ext \<Rightarrow> 'b StorageBackend \<Rightarrow> string \<Rightarrow> ProtoFormat \<Rightarrow> ('b, failure, bytes list) op" where
  "rpc_pull_layer x b req fmt =
     and_then (parse_content x req) (\<lambda>h.
     and_then (case fmt of
                 FormatDeploy \<Rightarrow> ret_ok Deploy
               | FormatBuildCache \<Rightarrow> ret_ok BuildCache
               | FormatUnspecified \<Rightarrow> ret_err (Status InvalidArgument ''Invalid format'')) (\<lambda>f.
     and_then (map_err (map_error x) (pull_layer b h f)) (\<lambda>rd.
     ret_ok (pull_stream (64 * 1024) (events rd)))))"

datatype Payload = Meta ProtoLayerMeta | DeployChunk bytes | CacheChunk bytes

text \<open>An item of the request stream: a message, whose payload may be absent, or a broken stream.\<close>

datatype stream_item = Item "Payload option" | Broken failure

text \<open>The sends of the task that sorts the stream, in order; a broken stream ends it.\<close>

fun demux :: "stream_item list \<Rightarrow> (ArtifactFormat \<times> bytes) list" where
  "demux (Item (Some (DeployChunk c)) # items) = (Deploy, c) # demux items"
| "demux (Item (Some (CacheChunk c)) # items) = (BuildCache, c) # demux items"
| "demux (Item (Some (Meta m)) # items) = demux items"
| "demux (Item None # items) = demux items"
| "demux (Broken e # items) = []"
| "demux [] = []"

definition zero_hash :: string where
  "zero_hash = ''0000000000000000000000000000000000000000000000000000000000000000''"

definition rust_meta :: "store_ext \<Rightarrow> ProtoLayerMeta \<Rightarrow> ('b, failure, LayerMeta) op" where
  "rust_meta x m =
     and_then (parse_input x (pm_input_hash m)) (\<lambda>i.
     and_then (parse_content x (pm_content_hash m)) (\<lambda>h.
     and_then (case pm_parent_input_hash m of
                 None \<Rightarrow> ret_ok None
               | Some p \<Rightarrow> and_then (parse_input x p) (\<lambda>p'. ret_ok (Some p'))) (\<lambda>parent.
     and_then (unwrap (ContentHash_from_str x zero_hash)) (\<lambda>zero.
     and_then (parse_content x (pm_stage_definition_hash m)) (\<lambda>stage.
     and_then (parse_content x (pm_dockerfile_hash m)) (\<lambda>dockerfile.
     ret_ok
       \<lparr>input_hash = i, content_hash = h, parent_input_hash = parent,
        uncompressed_size = pm_uncompressed_size m, compressed_size_deploy = pm_compressed_size_deploy m,
        compressed_size_cache = pm_compressed_size_cache m, file_checksum_deploy = zero,
        file_checksum_cache = zero, builder_version = pm_builder_version m,
        build_timestamp = pm_build_timestamp m, build_host = pm_build_host m,
        stage_definition_hash = stage, dockerfile_hash = dockerfile\<rparr>))))))"

text \<open>
  Publishing from the two channels. The store's model reads a reader in one piece, so that how far
  an upload reads is taken from what it leaves of its reader: one that has come to the empty read
  at the end reads to the end of its channel, and one that succeeds without reading (the blob is
  there, the backend skips it) reads nothing. An upload that fails may have read any number of messages
  before, which is the parameter \<open>stop_at\<close>. When the layer is there already no channel is read.
\<close>

definition demand_of :: "nat \<Rightarrow> (StoreError + unit) \<Rightarrow> HashingReader \<Rightarrow> demand" where
  "demand_of n r hr = (case r of Inl e \<Rightarrow> Upto n | Inr u \<Rightarrow> if events (inner hr) = [] then ToEnd else Upto 0)"

definition other_format :: "ArtifactFormat \<Rightarrow> ArtifactFormat" where
  "other_format f = (case f of Deploy \<Rightarrow> BuildCache | BuildCache \<Rightarrow> Deploy)"

definition upload_demands ::
  "reading \<Rightarrow> (ArtifactFormat \<Rightarrow> nat) \<Rightarrow> 'b StorageBackend \<Rightarrow> ContentHash \<Rightarrow> (ArtifactFormat \<Rightarrow> reader) \<Rightarrow> 'b \<Rightarrow> ArtifactFormat \<Rightarrow> demand" where
  "upload_demands mode stop_at b h rd s =
     (case has_layer b h s of
        (Inr False, s1) \<Rightarrow>
          (let f1 = (if mode = Concurrent False then BuildCache else Deploy); f2 = other_format f1
           in case put_blob b h f1 (new_HashingReader (rd f1)) s1 of (r1, hr1, s2) \<Rightarrow>
              case put_blob b h f2 (new_HashingReader (rd f2)) s2 of (r2, hr2, s3) \<Rightarrow>
                (\<lambda>f. if f = f1 then demand_of (stop_at f1) r1 hr1
                     else if mode = Sequential \<and> isl r1 then Upto 0
                     else demand_of (stop_at f2) r2 hr2))
      | _ \<Rightarrow> (\<lambda>f. Upto 0))"

definition publish_as ::
  "reading \<Rightarrow> store_ext \<Rightarrow> 'b StorageBackend \<Rightarrow> (ArtifactFormat \<Rightarrow> reader) \<Rightarrow> LayerMeta \<Rightarrow> ('b, StoreError, ContentHash) op" where
  "publish_as mode x b rd lm =
     (case mode of
        Sequential \<Rightarrow> publish_layer x b (rd Deploy) (rd BuildCache) lm
      | Concurrent deploy_first \<Rightarrow> publish_layer_concurrent deploy_first x b (rd Deploy) (rd BuildCache) lm)"

text \<open>
  The handler answers when the uploads come to their ends; otherwise it waits for ever. Then this
  request has stored no artifact and no document; the temporary file in which an upload that waits
  has put the chunks it got is left out of the model.
\<close>

definition channel_reader :: "nat \<Rightarrow> (ArtifactFormat \<times> bytes) list \<Rightarrow> ArtifactFormat \<Rightarrow> reader" where
  "channel_reader room sends f = \<lparr>events = adapter_events room (new_StreamAdapter (map Message (chunks_for f sends)))\<rparr>"

definition publish_from_channels ::
  "reading \<Rightarrow> (ArtifactFormat \<Rightarrow> nat) \<Rightarrow> nat \<Rightarrow> store_ext \<Rightarrow> 'b StorageBackend \<Rightarrow> (ArtifactFormat \<times> bytes) list \<Rightarrow> LayerMeta
     \<Rightarrow> ('b, failure, ContentHash) op" where
  "publish_from_channels mode stop_at room x b sends lm s =
     (let rd = channel_reader room sends
      in if settles mode CHANNEL_CAPACITY (upload_demands mode stop_at b (content_hash lm) rd s) sends
         then map_err (map_error x) (publish_as mode x b rd lm) s
         else (Inl NoReply, s))"

definition rpc_publish_layer ::
  "bool \<Rightarrow> (ArtifactFormat \<Rightarrow> nat) \<Rightarrow> nat \<Rightarrow> store_ext \<Rightarrow> 'b StorageBackend \<Rightarrow> stream_item list \<Rightarrow> ('b, failure, string) op" where
  "rpc_publish_layer deploy_first stop_at room x b items =
     (case items of
        [] \<Rightarrow> ret_err (Status InvalidArgument ''Empty stream'')
      | Broken e # rest \<Rightarrow> ret_err e
      | Item (Some (Meta m)) # rest \<Rightarrow>
          and_then (rust_meta x m) (\<lambda>lm.
          and_then (publish_from_channels (Concurrent deploy_first) stop_at room x b (demux rest) lm) (\<lambda>h.
          ret_ok (show_ContentHash x h)))
      | Item _ # rest \<Rightarrow> ret_err (Status InvalidArgument ''First message must be LayerMeta''))"

definition rust_layer :: "store_ext \<Rightarrow> ProtoManifestLayer \<Rightarrow> ('b, failure, ManifestLayer) op" where
  "rust_layer x l =
     and_then (unwrap (InputHash_from_str x (pl_input_hash l))) (\<lambda>i.
     and_then (unwrap (ContentHash_from_str x (pl_content_hash l))) (\<lambda>h.
     and_then (case pl_parent_input_hash l of
                 None \<Rightarrow> ret_ok None
               | Some p \<Rightarrow> and_then (unwrap (InputHash_from_str x p)) (\<lambda>p'. ret_ok (Some p'))) (\<lambda>parent.
     ret_ok
       \<lparr>ml_name = pl_name l, ml_order = pl_order l, ml_input_hash = i, ml_content_hash = h,
        ml_size_bytes = pl_size_bytes l, ml_size_compressed_bytes = pl_size_compressed_bytes l,
        ml_parent_input_hash = parent\<rparr>)))"

fun rust_layers :: "store_ext \<Rightarrow> ProtoManifestLayer list \<Rightarrow> ('b, failure, ManifestLayer list) op" where
  "rust_layers x [] = ret_ok []"
| "rust_layers x (l # ls) =
     and_then (rust_layer x l) (\<lambda>l'. and_then (rust_layers x ls) (\<lambda>ls'. ret_ok (l' # ls')))"

definition rust_manifest :: "store_ext \<Rightarrow> ProtoReleaseManifest \<Rightarrow> ('b, failure, ReleaseManifest) op" where
  "rust_manifest x p =
     (case pr_build_metadata p of
        None \<Rightarrow> ret_err Panic
      | Some bm \<Rightarrow>
          and_then (parse_content x (pb_dockerfile_hash bm)) (\<lambda>dockerfile.
          and_then (rust_layers x (pr_layers p)) (\<lambda>ls.
          ret_ok
            \<lparr>schema_version = pr_schema_version p, manifest_id = pr_manifest_id p,
             build_metadata = \<lparr>bm_dockerfile_hash = dockerfile, bm_build_timestamp = pb_build_timestamp bm,
               bm_builder_version = pb_builder_version bm, bm_build_host = pb_build_host bm\<rparr>,
             layers = ls, workload_metadata = pr_workload_metadata p\<rparr>)))"

definition rpc_publish_manifest ::
  "store_ext \<Rightarrow> 'b StorageBackend \<Rightarrow> u64 \<Rightarrow> string \<Rightarrow> ProtoReleaseManifest option \<Rightarrow> ('b, failure, string) op" where
  "rpc_publish_manifest x b ts uuid req =
     (case req of
        None \<Rightarrow> ret_err (Status InvalidArgument ''Missing manifest'')
      | Some p \<Rightarrow>
          and_then (rust_manifest x p) (\<lambda>mf.
          and_then (map_err (map_error x) (publish_manifest x b ts uuid mf)) (\<lambda>h.
          ret_ok (show_ContentHash x h))))"

definition proto_layer :: "store_ext \<Rightarrow> ManifestLayer \<Rightarrow> ProtoManifestLayer" where
  "proto_layer x l =
     \<lparr>pl_name = ml_name l, pl_order = ml_order l, pl_input_hash = show_InputHash x (ml_input_hash l),
      pl_content_hash = show_ContentHash x (ml_content_hash l), pl_size_bytes = ml_size_bytes l,
      pl_size_compressed_bytes = ml_size_compressed_bytes l,
      pl_parent_input_hash = map_option (show_InputHash x) (ml_parent_input_hash l)\<rparr>"

definition proto_manifest :: "store_ext \<Rightarrow> ReleaseManifest \<Rightarrow> ProtoReleaseManifest" where
  "proto_manifest x mf =
     \<lparr>pr_schema_version = schema_version mf, pr_manifest_id = manifest_id mf,
      pr_build_metadata = Some
        \<lparr>pb_dockerfile_hash = show_ContentHash x (bm_dockerfile_hash (build_metadata mf)),
         pb_build_timestamp = bm_build_timestamp (build_metadata mf),
         pb_builder_version = bm_builder_version (build_metadata mf),
         pb_build_host = bm_build_host (build_metadata mf)\<rparr>,
      pr_layers = map (proto_layer x) (layers mf), pr_workload_metadata = workload_metadata mf\<rparr>"

definition rpc_get_manifest ::
  "store_ext \<Rightarrow> 'b StorageBackend \<Rightarrow> string \<Rightarrow> ('b, failure, ProtoReleaseManifest) op" where
  "rpc_get_manifest x b req =
     and_then (parse_content x req) (\<lambda>h.
     and_then (map_err (map_error x) (get_manifest x b h)) (\<lambda>mf.
     ret_ok (proto_manifest x mf)))"

definition rust_filter :: "store_ext \<Rightarrow> ProtoBuildFilter option \<Rightarrow> ('b, failure, BuildFilter) op" where
  "rust_filter x req =
     (case req of
        None \<Rightarrow> ret_ok \<lparr>filter_tag = None, release_name_prefix = None, layer_hash = None,
                        from_timestamp = None, to_timestamp = None\<rparr>
      | Some f \<Rightarrow>
          and_then (case pf_layer_hash f of
                      None \<Rightarrow> ret_ok None
                    | Some h \<Rightarrow> and_then (unwrap (ContentHash_from_str x h)) (\<lambda>h'. ret_ok (Some h'))) (\<lambda>lh.
          ret_ok \<lparr>filter_tag = pf_tag f, release_name_prefix = pf_release_name_prefix f, layer_hash = lh,
                  from_timestamp = pf_from_timestamp f, to_timestamp = pf_to_timestamp f\<rparr>))"

definition proto_entry :: "store_ext \<Rightarrow> BuildCatalogEntry \<Rightarrow> ProtoCatalogEntry" where
  "proto_entry x e =
     \<lparr>pc_build_id = show_BuildId (build_id e), pc_release_name = release_name e,
      pc_manifest_hash = show_ContentHash x (manifest_hash e), pc_build_timestamp = ce_build_timestamp e,
      pc_spec_hash = show_ContentHash x (spec_hash e), pc_layers = map (show_ContentHash x) (ce_layers e)\<rparr>"

definition rpc_list_builds ::
  "store_ext \<Rightarrow> 'b StorageBackend \<Rightarrow> ProtoBuildFilter option \<Rightarrow> ('b, failure, ProtoCatalogEntry list) op" where
  "rpc_list_builds x b req =
     and_then (rust_filter x req) (\<lambda>flt.
     and_then (map_err (map_error x) (list_builds x b flt)) (\<lambda>bs.
     ret_ok (map (proto_entry x) bs)))"

definition rpc_create_tag :: "store_ext \<Rightarrow> 'b StorageBackend \<Rightarrow> string \<Rightarrow> string \<Rightarrow> ('b, failure, unit) op" where
  "rpc_create_tag x b name hash_text =
     and_then (parse_content x hash_text) (\<lambda>h. map_err (map_error x) (create_tag x b name h))"

definition rpc_get_tag :: "store_ext \<Rightarrow> 'b StorageBackend \<Rightarrow> string \<Rightarrow> ('b, failure, string) op" where
  "rpc_get_tag x b name =
     and_then (map_err (map_error x) (get_tag x b name)) (\<lambda>h. ret_ok (show_ContentHash x h))"

section \<open>Uploads and downloads over the wire\<close>

text \<open>The bytes of one artifact that a client sent before its stream ended or broke.\<close>

definition sent :: "(Payload \<Rightarrow> bytes) \<Rightarrow> stream_item list \<Rightarrow> bytes" where
  "sent part items =
     concat (map (\<lambda>i. case i of Item (Some p) \<Rightarrow> part p | _ \<Rightarrow> [])
       (takeWhile (\<lambda>i. case i of Broken e \<Rightarrow> False | _ \<Rightarrow> True) items))"

fun deploy_part :: "Payload \<Rightarrow> bytes" where
  "deploy_part (DeployChunk c) = c"
| "deploy_part p = []"

fun cache_part :: "Payload \<Rightarrow> bytes" where
  "cache_part (CacheChunk c) = c"
| "cache_part p = []"

lemma demux_messages:
  "concat (chunks_for Deploy (demux items)) = sent deploy_part items"
  "concat (chunks_for BuildCache (demux items)) = sent cache_part items"
  by (induction items rule: demux.induct) (auto simp: sent_def chunks_for_def)

lemma messages_map [simp]: "messages (map Message ms) = concat ms"
  by (induction ms) simp_all

lemma demux_broken: "demux (items @ Broken e # rest) = demux items"
  by (induction items rule: demux.induct) auto

lemma unread_new: "unread (new_StreamAdapter rx) = messages rx"
  by (simp add: unread_def new_StreamAdapter_def)

lemma drain_channel: "0 < room \<Longrightarrow> drain (events (channel_reader room sends f)) = Inr (concat (chunks_for f sends))"
  by (simp add: channel_reader_def drain_adapter unread_new)

text \<open>Copying a channel to the end leaves nothing of it.\<close>

lemma copy_all_end:
  assumes "events (inner hr) = es @ [Chunk []]" and "\<forall>e \<in> set es. e = NotReady \<or> (\<exists>c. e = Chunk c \<and> c \<noteq> [])"
    and "copy_all out hr = (r, hr')"
  shows "events (inner hr') = [] \<and> (\<exists>d. r = Inr d)"
  using assms
proof (induction es arbitrary: hr out)
  case Nil
  then show ?case by (subst (asm) copy_all.simps) (auto simp: poll_read_def)
next
  case (Cons e es)
  let ?hr = "\<lambda>c. hr\<lparr>inner := (inner hr)\<lparr>events := es @ [Chunk []]\<rparr>, hasher := hasher hr @ c\<rparr>"
  from Cons.prems(2) consider "e = NotReady" | c where "e = Chunk c" "c \<noteq> []" by auto
  then show ?case
  proof cases
    case 1
    then have "copy_all out (?hr []) = (r, hr')"
      using Cons.prems(1,3) by (subst (asm) copy_all.simps) (simp add: poll_read_def)
    then show ?thesis using Cons.IH [of "?hr []"] Cons.prems(2) by simp
  next
    case (2 c)
    then have "copy_all (out @ c) (?hr c) = (r, hr')"
      using Cons.prems(1,3) by (subst (asm) copy_all.simps) (simp add: poll_read_def)
    then show ?thesis using Cons.IH [of "?hr c"] Cons.prems(2) by simp
  qed
qed

lemma copy_channel:
  assumes "0 < room" and "copy_all [] (new_HashingReader (channel_reader room sends f)) = (r, hr')"
  shows "events (inner hr') = [] \<and> (\<exists>d. r = Inr d)"
proof -
  obtain es where "adapter_events room (new_StreamAdapter (map Message (chunks_for f sends))) = es @ [Chunk []]"
    "\<forall>e \<in> set es. e = NotReady \<or> (\<exists>c. e = Chunk c \<and> c \<noteq> [])"
    using adapter_events_end [OF assms(1)] by blast
  with assms(2) show ?thesis
    by (intro copy_all_end [where es = es]) (simp_all add: new_HashingReader_def channel_reader_def)
qed

text \<open>The in-memory backend reads both channels of a layer that is not there to their ends.\<close>

lemma mem_demands:
  assumes "0 < room" and "map_of (mem_blobs s) (h, Deploy) = None"
  shows "upload_demands mode stop_at memory_backend h (channel_reader room sends) s = (\<lambda>f. ToEnd)"
proof -
  have put: "\<exists>hr' t. put_blob memory_backend h f (new_HashingReader (channel_reader room sends f)) u = (Inr (), hr', t) \<and> events (inner hr') = []" for f u
    using copy_channel [OF assms(1)] by (cases "copy_all [] (new_HashingReader (channel_reader room sends f))") (fastforce simp: mem_defs)
  define f1 where "f1 = (if mode = Concurrent False then BuildCache else Deploy)"
  obtain hr1 s2 where 1: "put_blob memory_backend h f1 (new_HashingReader (channel_reader room sends f1)) s = (Inr (), hr1, s2)" "events (inner hr1) = []"
    using put by blast
  obtain hr2 s3 where 2: "put_blob memory_backend h (other_format f1) (new_HashingReader (channel_reader room sends (other_format f1))) s2 = (Inr (), hr2, s3)"
    "events (inner hr2) = []"
    using put by blast
  have "has_layer memory_backend h s = (Inr False, s)" using assms(2) by (simp add: has_layer_def mem_defs)
  then show ?thesis using 1 2 by (simp add: upload_demands_def Let_def demand_of_def fun_eq_iff flip: f1_def)
qed

lemma concat_pull_stream: "0 < n \<Longrightarrow> drain es = Inr d \<Longrightarrow> concat (pull_stream n es) = d"
proof (induction n es arbitrary: d rule: pull_stream.induct)
  case (4 n c es)
  show ?case
  proof (cases "c = []")
    case True
    then show ?thesis using "4.prems" by (simp add: pull_stream.simps(4))
  next
    case False
    then obtain d' where d': "drain es = Inr d'" "d = c @ d'" using "4.prems" by (auto split: sum.splits)
    let ?rest = "if length c \<le> n then es else Chunk (drop n c) # es"
    have "drain ?rest = Inr (drop n c @ d')" using d' False by simp
    then have "concat (pull_stream n ?rest) = drop n c @ d'"
      using "4.IH" [of "drop n c @ d'"] False "4.prems"(1) by blast
    moreover have "pull_stream n (Chunk c # es) = take n c # pull_stream n ?rest"
      using False "4.prems"(1) by (subst pull_stream.simps(4)) simp
    ultimately show ?thesis using d'(2) by simp
  qed
qed auto

lemma pull_stream_small: "c \<in> set (pull_stream n es) \<Longrightarrow> length c \<le> n"
proof (induction n es rule: pull_stream.induct)
  case (4 n c' es)
  then show ?case by (subst (asm) pull_stream.simps(4)) (auto split: if_splits)
qed auto

lemma parse_content_exact: "parse_content x s = (case ContentHash_from_str x s of Inl e \<Rightarrow> ret_err (invalid_argument x e) | Inr h \<Rightarrow> ret_ok h)"
  by (rule ext) (auto simp: parse_content_def op_defs split: sum.splits)

lemma parse_input_exact: "parse_input x s = (case InputHash_from_str x s of Inl e \<Rightarrow> ret_err (invalid_argument x e) | Inr h \<Rightarrow> ret_ok h)"
  by (rule ext) (auto simp: parse_input_def op_defs split: sum.splits)

lemma rpc_pull_mem:
  assumes "store_codec x" and "map_of (mem_blobs s) (h, f) = Some d"
    and "fmt = (case f of Deploy \<Rightarrow> FormatDeploy | BuildCache \<Rightarrow> FormatBuildCache)"
  shows "\<exists>cs. rpc_pull_layer x memory_backend (show_ContentHash x h) fmt s = (Inr cs, s) \<and> concat cs = d \<and>
    (\<forall>c \<in> set cs. length c \<le> 64 * 1024)"
proof -
  have "rpc_pull_layer x memory_backend (show_ContentHash x h) fmt s = (Inr (pull_stream (64 * 1024) [Chunk d]), s)"
    using assms(2,3) by (cases f) (simp_all add: rpc_pull_layer_def parse_content_exact store_codec.content_roundtrip [OF assms(1)]
        op_defs pull_layer_def mem_defs)
  moreover have "concat (pull_stream (64 * 1024) [Chunk d]) = d" by (rule concat_pull_stream) simp_all
  ultimately show ?thesis using pull_stream_small [of _ "64 * 1024" "[Chunk d]"] by blast
qed

text \<open>What an upload of new content leaves in the in-memory store.\<close>

abbreviation mem_published where
  "mem_published x \<equiv> reliable_store.published x (\<lambda>s. map_of (mem_blobs s)) (\<lambda>s. map_of (mem_meta s)) mem_ok"

lemmas mem_published_def = reliable_store.published_def [OF mem_store]

lemma rpc_upload:
  assumes "store_codec x" and "mem_ok s" and "0 < room" and "rust_meta x m s = (Inr lm, s)"
    and "map_of (mem_blobs s) (content_hash lm, Deploy) = None"
    and "meta_to_vec x (lm\<lparr>file_checksum_deploy := document_hash x (sent deploy_part items),
      file_checksum_cache := document_hash x (sent cache_part items)\<rparr>) = Inr doc"
  obtains s' where "rpc_publish_layer first stop_at room x memory_backend (Item (Some (Meta m)) # items) s =
      (Inr (show_ContentHash x (content_hash lm)), s')"
    and "mem_published x lm (sent deploy_part items) (sent cache_part items) doc s s'"
proof -
  let ?rd = "channel_reader room (demux items)"
  have data: "drain (events (?rd Deploy)) = Inr (sent deploy_part items)"
    "drain (events (?rd BuildCache)) = Inr (sent cache_part items)"
    using drain_channel [OF assms(3)] demux_messages [of items] by simp_all
  from reliable_store.publish_fresh(2) [OF mem_store [OF assms(1)] assms(2,5) _ data assms(6), of first] obtain s' where
    pub: "publish_layer_concurrent first x memory_backend (?rd Deploy) (?rd BuildCache) lm s = (Inr (content_hash lm), s')"
    and st: "mem_published x lm (sent deploy_part items) (sent cache_part items) doc s s'"
    by auto
  have "settles (Concurrent first) CHANNEL_CAPACITY (\<lambda>f. ToEnd) (demux items)"
    by (rule concurrent_settles) (simp add: CHANNEL_CAPACITY_def)
  then have "rpc_publish_layer first stop_at room x memory_backend (Item (Some (Meta m)) # items) s =
      (Inr (show_ContentHash x (content_hash lm)), s')"
    using pub assms(4) mem_demands [OF assms(3,5)]
    by (simp add: rpc_publish_layer_def publish_from_channels_def publish_as_def op_defs Let_def)
  then show thesis using st by (rule that)
qed

text \<open>
  C32. On the in-memory backend, an upload over the wire whose metadata is valid and whose content is
  not stored yet is answered and succeeds, for every interleaving and number of chunks, every schedule of
  the task and the readers of the two bounded channels, and any buffer size; pulling the layer streams
  each artifact in pieces of at most 64 KiB that add up to the chunks sent for it.
\<close>

theorem rpc_upload_roundtrip:
  assumes "store_codec x" and "mem_ok s" and "0 < room" and "rust_meta x m s = (Inr lm, s)"
    and "map_of (mem_blobs s) (content_hash lm, Deploy) = None"
    and "meta_to_vec x (lm\<lparr>file_checksum_deploy := document_hash x (sent deploy_part items),
      file_checksum_cache := document_hash x (sent cache_part items)\<rparr>) = Inr doc"
  shows "\<exists>s' ds ks. rpc_publish_layer first stop_at room x memory_backend (Item (Some (Meta m)) # items) s =
      (Inr (show_ContentHash x (content_hash lm)), s') \<and>
    rpc_pull_layer x memory_backend (show_ContentHash x (content_hash lm)) FormatDeploy s' = (Inr ds, s') \<and>
    concat ds = sent deploy_part items \<and> (\<forall>c \<in> set ds. length c \<le> 64 * 1024) \<and>
    rpc_pull_layer x memory_backend (show_ContentHash x (content_hash lm)) FormatBuildCache s' = (Inr ks, s') \<and>
    concat ks = sent cache_part items \<and> (\<forall>c \<in> set ks. length c \<le> 64 * 1024)"
proof -
  obtain s' where s': "rpc_publish_layer first stop_at room x memory_backend (Item (Some (Meta m)) # items) s =
      (Inr (show_ContentHash x (content_hash lm)), s')"
    "mem_published x lm (sent deploy_part items) (sent cache_part items) doc s s'"
    by (rule rpc_upload [OF assms])
  then have b: "map_of (mem_blobs s') (content_hash lm, Deploy) = Some (sent deploy_part items)"
      "map_of (mem_blobs s') (content_hash lm, BuildCache) = Some (sent cache_part items)"
    by (simp_all add: mem_published_def [OF assms(1)])
  from s'(1) rpc_pull_mem [OF assms(1) b(1), of FormatDeploy] rpc_pull_mem [OF assms(1) b(2), of FormatBuildCache]
  show ?thesis unfolding ArtifactFormat.case by blast
qed

definition proto_meta :: "store_ext \<Rightarrow> LayerMeta \<Rightarrow> ProtoLayerMeta" where
  "proto_meta x m =
     \<lparr>pm_input_hash = show_InputHash x (input_hash m), pm_content_hash = show_ContentHash x (content_hash m),
      pm_parent_input_hash = map_option (show_InputHash x) (parent_input_hash m),
      pm_uncompressed_size = uncompressed_size m, pm_compressed_size_deploy = compressed_size_deploy m,
      pm_compressed_size_cache = compressed_size_cache m, pm_builder_version = builder_version m,
      pm_build_timestamp = build_timestamp m, pm_build_host = build_host m,
      pm_stage_definition_hash = show_ContentHash x (stage_definition_hash m),
      pm_dockerfile_hash = show_ContentHash x (dockerfile_hash m)\<rparr>"

context store_codec
begin

lemma zero_hash_parses: "ContentHash_from_str x zero_hash = Inr (ContentHash (Array32 (replicate 32 0)))"
proof -
  have "zero_hash = replicate 64 (CHR ''0'')"
    by (simp add: zero_hash_def numeral_eq_Suc)
  moreover have "to_lowercase (replicate 64 (CHR ''0'')) = replicate 64 (CHR ''0'')"
    by (simp add: to_lowercase_def to_lower_def)
  ultimately show ?thesis
    by (simp add: content_from_str_iff show_ContentHash_def content_bytes_def hex_zero)
qed

lemma rust_meta_proto:
  "rust_meta x (proto_meta x m) s =
     (Inr (m\<lparr>file_checksum_deploy := ContentHash (Array32 (replicate 32 0)),
            file_checksum_cache := ContentHash (Array32 (replicate 32 0))\<rparr>), s)"
  by (cases m; cases "parent_input_hash m")
    (simp_all add: rust_meta_def proto_meta_def parse_content_exact parse_input_exact unwrap_def zero_hash_parses op_defs)

lemma rust_layers_proto: "rust_layers x (map (proto_layer x) ls) s = (Inr ls, s)"
proof (induction ls)
  case (Cons l ls)
  have "rust_layer x (proto_layer x l) s = (Inr l, s)"
    by (cases l; cases "ml_parent_input_hash l") (simp_all add: rust_layer_def proto_layer_def unwrap_def op_defs)
  with Cons show ?case by (simp add: op_defs)
qed (simp add: op_defs)

lemma rust_manifest_proto: "rust_manifest x (proto_manifest x mf) s = (Inr mf, s)"
proof -
  have "rust_layers x (map (proto_layer x) (layers mf)) s = (Inr (layers mf), s)" by (rule rust_layers_proto)
  then show ?thesis
    by (cases mf; cases "build_metadata mf")
      (simp add: rust_manifest_def proto_manifest_def parse_content_exact op_defs)
qed

end

theorem rpc_upload_roundtrip_witness:
  "\<exists>s' ds. rpc_publish_layer True (\<lambda>f. 0) 2 sample_codec memory_backend
       [Item (Some (Meta (proto_meta sample_codec sample_meta))), Item (Some (DeployChunk [1, 2, 3])),
        Item (Some (CacheChunk [9])), Item None, Item (Some (DeployChunk [4]))] new_InMemoryBackend
       = (Inr (show_ContentHash sample_codec (sample_hash 2)), s') \<and>
     rpc_pull_layer sample_codec memory_backend (show_ContentHash sample_codec (sample_hash 2)) FormatDeploy s' = (Inr ds, s') \<and>
     concat ds = [1, 2, 3, 4]"
proof -
  have h: "content_hash sample_meta = sample_hash 2" by (simp add: sample_meta_def)
  have d: "sent deploy_part [Item (Some (DeployChunk [1, 2, 3])), Item (Some (CacheChunk [9])), Item None,
      Item (Some (DeployChunk [4]))] = [1, 2, 3, 4]"
    by (simp add: sent_def)
  from rpc_upload_roundtrip [OF sample_laws mem_empty(3) _ sample.rust_meta_proto, of 2 sample_meta
      "[Item (Some (DeployChunk [1, 2, 3])), Item (Some (CacheChunk [9])), Item None, Item (Some (DeployChunk [4]))]"
      "enc_meta (sample_meta\<lparr>file_checksum_deploy := document_hash sample_codec [1, 2, 3, 4],
         file_checksum_cache := document_hash sample_codec [9]\<rparr>)" True "\<lambda>f. 0"]
  show ?thesis by (simp add: h d) (simp add: sent_def, blast)
qed

text \<open>
  A stream that breaks is treated like one that ends: the response and the stored state are
  those of the chunks received so far, so that a truncated upload is accepted as complete.
\<close>

theorem broken_upload_is_accepted:
  assumes "items \<noteq> []"
  shows "rpc_publish_layer first stop_at room x b (items @ Broken e # rest) = rpc_publish_layer first stop_at room x b items"
proof -
  obtain i more where "items = i # more" using assms by (cases items) auto
  then show ?thesis by (cases i rule: stream_item.exhaust) (simp_all add: rpc_publish_layer_def demux_broken split: option.splits Payload.splits)
qed

theorem broken_upload_is_accepted_witness:
  "rpc_publish_layer True (\<lambda>f. 0) 2 sample_codec memory_backend
     ([Item (Some (Meta (proto_meta sample_codec sample_meta))), Item (Some (DeployChunk [1]))] @ Broken (Status Internal ''reset'') # [])
     new_InMemoryBackend
   = rpc_publish_layer True (\<lambda>f. 0) 2 sample_codec memory_backend
     [Item (Some (Meta (proto_meta sample_codec sample_meta))), Item (Some (DeployChunk [1]))] new_InMemoryBackend"
  by (subst broken_upload_is_accepted) simp_all

text \<open>
  A manifest survives the service: publishing its message and getting the manifest with the
  returned hash gives the same message.
\<close>

theorem rpc_manifest_roundtrip:
  assumes "store_codec x" and "manifest_to_vec x mf = Inr buf"
    and "catalog_to_vec x (catalog_entry mf (document_hash x buf) (new_build_id ts uuid)) = Inr cat"
  shows "\<exists>s' h. rpc_publish_manifest x memory_backend ts uuid (Some (proto_manifest x mf)) s = (Inr h, s') \<and>
    rpc_get_manifest x memory_backend h s' = (Inr (proto_manifest x mf), s')"
proof -
  let ?h = "document_hash x buf"
  let ?s = "s\<lparr>mem_meta := AList.update (build_key (new_build_id ts uuid)) cat
      (AList.update (manifest_key x ?h) buf (mem_meta s))\<rparr>"
  have p: "publish_manifest x memory_backend ts uuid mf s = (Inr ?h, ?s)"
    using assms(2,3) by (simp add: publish_manifest_def op_defs Let_def mem_defs)
  have g: "get_manifest x memory_backend ?h ?s = (Inr mf, ?s)"
    using store_codec.manifest_inverse [OF assms(1,2)] by (simp add: get_manifest_mem update_conv')
  have "rpc_publish_manifest x memory_backend ts uuid (Some (proto_manifest x mf)) s = (Inr (show_ContentHash x ?h), ?s)"
    using p store_codec.rust_manifest_proto [OF assms(1), of mf s] by (simp add: rpc_publish_manifest_def op_defs)
  moreover have "rpc_get_manifest x memory_backend (show_ContentHash x ?h) ?s = (Inr (proto_manifest x mf), ?s)"
    using g by (simp add: rpc_get_manifest_def parse_content_exact store_codec.content_roundtrip [OF assms(1)] op_defs)
  ultimately show ?thesis by blast
qed

theorem rpc_manifest_roundtrip_witness:
  "\<exists>s' h. rpc_publish_manifest sample_codec memory_backend 7 ''u'' (Some (proto_manifest sample_codec (sample_manifest (sample_hash 2))))
       sample_state = (Inr h, s') \<and>
     rpc_get_manifest sample_codec memory_backend h s' = (Inr (proto_manifest sample_codec (sample_manifest (sample_hash 2))), s')"
  using rpc_manifest_roundtrip [of sample_codec "sample_manifest (sample_hash 2)" _ 7 "''u''" _ sample_state,
      OF sample_laws sample_to_vec(2) sample_to_vec(3)] .

text \<open>
  A text that is no hash is refused as an invalid argument, without an effect, wherever it is
  the subject of a request; in a layer of a manifest or in a build filter it makes the handler panic,
  and so does a manifest without build metadata.
\<close>

theorem malformed_hash_handling:
  assumes "ContentHash_from_str x bad = Inl e"
  shows "rpc_resolve_input_hash x b bad s = (Inl (Status InvalidArgument (''Invalid hash: '' @ bad)), s)
    \<and> rpc_has_layer x b bad s = (Inl (Status InvalidArgument (''Invalid hash: '' @ bad)), s)
    \<and> rpc_pull_layer x b bad fmt s = (Inl (Status InvalidArgument (''Invalid hash: '' @ bad)), s)
    \<and> rpc_get_manifest x b bad s = (Inl (Status InvalidArgument (''Invalid hash: '' @ bad)), s)
    \<and> rpc_create_tag x b name bad s = (Inl (Status InvalidArgument (''Invalid hash: '' @ bad)), s)
    \<and> rust_layer x (l\<lparr>pl_input_hash := bad\<rparr>) s = (Inl Panic, s)
    \<and> rpc_publish_manifest x b ts uuid (Some (p\<lparr>pr_build_metadata := None\<rparr>)) s = (Inl Panic, s)
    \<and> rpc_list_builds x b (Some (f\<lparr>pf_layer_hash := Some bad\<rparr>)) s = (Inl Panic, s)"
proof -
  have c: "ContentHash_from_str x bad = Inl (InvalidHash bad)" and i: "InputHash_from_str x bad = Inl (InvalidHash bad)"
    using assms by (auto simp: ContentHash_from_str_def InputHash_from_str_def split: option.splits if_splits)
  show ?thesis
    by (simp add: c i rpc_resolve_input_hash_def rpc_has_layer_def rpc_pull_layer_def rpc_get_manifest_def rpc_create_tag_def
        rpc_publish_manifest_def rpc_list_builds_def rust_manifest_def rust_filter_def rust_layer_def
        parse_content_exact parse_input_exact unwrap_def invalid_argument_def show_StoreError_def op_defs)
qed

theorem malformed_hash_handling_witness:
  "rpc_has_layer sample_codec memory_backend ''xyz'' new_InMemoryBackend =
     (Inl (Status InvalidArgument ''Invalid hash: xyz''), new_InMemoryBackend)"
proof -
  have "hex_parse ''xyz'' = None" by (simp add: hex_val_def to_lower_def)
  then have "ContentHash_from_str sample_codec ''xyz'' = Inl (InvalidHash ''xyz'')"
    by (simp add: ContentHash_from_str_def sample_codec_def)
  from malformed_hash_handling [OF this, of memory_backend new_InMemoryBackend] show ?thesis by simp
qed

end
