(* ===== verification/Build_Client.thy ===== *)
theory Build_Client
  imports Build_Format Layer_Server
begin

text \<open>
  The store client of the build system, \<^verbatim>\<open>build-system/src/store.rs\<close>, on the service of
  \<open>Layer_Server\<close>. The state adds the state of the remote store to the calls made so far. A request
  goes over a wire that delivers it, refuses it, cuts its stream or loses the reply; the text a client
  sees for a failed call is the transport library's.

  Both programs are compiled from their own copy of the protocol file; the messages used here have
  the same fields with the same numbers in both.
\<close>

section \<open>Messages\<close>

record LayerMetadata =
  lm_input_hash :: BuildInputHash
  lm_output_hash :: OutputHash
  lm_parent_input_hash :: "BuildInputHash option"
  lm_size_bytes :: u64
  lm_size_compressed_bytes :: u64
  lm_build_timestamp :: u64
  lm_builder_version :: string
  lm_build_host :: string

record BuildManifestLayer =
  bml_name :: string
  bml_order :: u32
  bml_input_hash :: BuildInputHash
  bml_output_hash :: OutputHash
  bml_size_bytes :: u64
  bml_size_compressed_bytes :: u64
  bml_parent_input_hash :: "BuildInputHash option"

record BuildInfo =
  bi_dockerfile_hash :: string
  bi_build_timestamp :: u64
  bi_builder_version :: string
  bi_build_host :: string

record BuildReleaseManifest =
  brm_schema_version :: string
  brm_manifest_id :: string
  brm_build_metadata :: BuildInfo
  brm_layers :: "BuildManifestLayer list"
  brm_workload_metadata :: "(string, string) fmap"

definition meta_message :: "LayerMetadata \<Rightarrow> ProtoLayerMeta" where
  "meta_message meta =
     (let placeholder_hash = output_text (lm_output_hash meta)
      in \<lparr>pm_input_hash = input_text (lm_input_hash meta), pm_content_hash = output_text (lm_output_hash meta),
          pm_parent_input_hash = map_option input_text (lm_parent_input_hash meta),
          pm_uncompressed_size = lm_size_bytes meta, pm_compressed_size_deploy = lm_size_compressed_bytes meta,
          pm_compressed_size_cache = 0, pm_builder_version = lm_builder_version meta,
          pm_build_timestamp = lm_build_timestamp meta, pm_build_host = lm_build_host meta,
          pm_stage_definition_hash = placeholder_hash, pm_dockerfile_hash = placeholder_hash\<rparr>)"

definition layer_message :: "BuildManifestLayer \<Rightarrow> ProtoManifestLayer" where
  "layer_message l =
     \<lparr>pl_name = bml_name l, pl_order = bml_order l, pl_input_hash = input_text (bml_input_hash l),
      pl_content_hash = output_text (bml_output_hash l), pl_size_bytes = bml_size_bytes l,
      pl_size_compressed_bytes = bml_size_compressed_bytes l,
      pl_parent_input_hash = map_option input_text (bml_parent_input_hash l)\<rparr>"

definition manifest_message :: "BuildReleaseManifest \<Rightarrow> ProtoReleaseManifest" where
  "manifest_message m =
     \<lparr>pr_schema_version = brm_schema_version m, pr_manifest_id = brm_manifest_id m,
      pr_build_metadata = Some
        \<lparr>pb_dockerfile_hash = bi_dockerfile_hash (brm_build_metadata m),
         pb_build_timestamp = bi_build_timestamp (brm_build_metadata m),
         pb_builder_version = bi_builder_version (brm_build_metadata m),
         pb_build_host = bi_build_host (brm_build_metadata m)\<rparr>,
      pr_layers = map layer_message (brm_layers m), pr_workload_metadata = brm_workload_metadata m\<rparr>"

section \<open>Calls over the wire\<close>

record 'b build_state = sys_state +
  remote :: 'b

text \<open>The server: its backend, the choices it makes, its clock and the texts of its failures.\<close>

record 'b server =
  backend :: "'b StorageBackend"
  deploy_first :: "call list \<Rightarrow> bool"
  upload_stop :: "call list \<Rightarrow> ArtifactFormat \<Rightarrow> nat"
  adapter_room :: nat
  server_secs :: "call list \<Rightarrow> u64"
  server_uuid :: "call list \<Rightarrow> string"
  status_text :: "failure \<Rightarrow> string"

definition handle :: "'b server \<Rightarrow> ('b, failure, 'a) op \<Rightarrow> ('b build_state, build_error, 'a) op" where
  "handle srv h s =
     (case h (remote s) of
        (r, b') \<Rightarrow>
          (case r of Inl NoReply \<Rightarrow> Inl BuildWaits | Inl f \<Rightarrow> Inl (BuildError (status_text srv f)) | Inr a \<Rightarrow> Inr a,
           s\<lparr>remote := b'\<rparr>))"

definition send_call ::
  "'x build_os_scheme \<Rightarrow> 'b server \<Rightarrow> string \<Rightarrow> (stream_item list \<Rightarrow> ('b, failure, 'a) op) \<Rightarrow> stream_item list \<Rightarrow>
     ('b build_state, build_error, 'a) op" where
  "send_call os srv name h items s =
     (let s' = s\<lparr>trace := trace s @ [Rpc name]\<rparr>
      in case wire os name (trace s) of
           Delivered \<Rightarrow> handle srv (h items) s'
         | ReplyLost e \<Rightarrow> (Inl (BuildError e), snd (handle srv (h items) s'))
         | Refused e \<Rightarrow> (Inl (BuildError e), s')
         | CutAfter n e \<Rightarrow>
             (Inl (BuildError e), snd (handle srv (h (take n items @ [Broken (Status Internal e)])) s')))"

text \<open>A request of one message that is cut has not reached its handler.\<close>

definition unary ::
  "'x build_os_scheme \<Rightarrow> 'b server \<Rightarrow> string \<Rightarrow> ('b, failure, 'a) op \<Rightarrow> ('b build_state, build_error, 'a) op" where
  "unary os srv name h =
     send_call os srv name (\<lambda>items. case items of [] \<Rightarrow> h | _ \<Rightarrow> ret_err Panic) []"

section \<open>The client\<close>

definition client_connect :: "'x build_os_scheme \<Rightarrow> string \<Rightarrow> ('s sys_state_scheme, build_error, unit) op" where
  "client_connect os dst = io (sys_call os (Connect dst))"

definition client_resolve ::
  "'x build_os_scheme \<Rightarrow> store_ext \<Rightarrow> 'b server \<Rightarrow> BuildInputHash \<Rightarrow> ('b build_state, build_error, OutputHash option) op" where
  "client_resolve os x srv h =
     and_then (unary os srv ''ResolveInputHash'' (rpc_resolve_input_hash x (backend srv) (input_text h))) (\<lambda>found.
     ret_ok (map_option OutputHash found))"

fun write_chunks :: "'x build_os_scheme \<Rightarrow> string \<Rightarrow> bytes list \<Rightarrow> ('s sys_state_scheme, build_error, unit) op" where
  "write_chunks os target [] = io (sys_call os Receive)"
| "write_chunks os target (c # cs) =
     and_then (io (sys_call os Receive)) (\<lambda>_.
     and_then (io (sys_call os (WriteBytes target c))) (\<lambda>_.
     write_chunks os target cs))"

definition pulled_meta :: "OutputHash \<Rightarrow> LayerMetadata" where
  "pulled_meta h =
     \<lparr>lm_input_hash = BuildInputHash [], lm_output_hash = h, lm_parent_input_hash = None, lm_size_bytes = 0,
      lm_size_compressed_bytes = 0, lm_build_timestamp = 0, lm_builder_version = [], lm_build_host = []\<rparr>"

definition client_pull_layer ::
  "'x build_os_scheme \<Rightarrow> store_ext \<Rightarrow> 'b server \<Rightarrow> OutputHash \<Rightarrow> ArtifactFormat \<Rightarrow> string \<Rightarrow>
     ('b build_state, build_error, LayerMetadata) op" where
  "client_pull_layer os x srv h fmt target =
     (let proto_format = (case fmt of Deploy \<Rightarrow> FormatDeploy | BuildCache \<Rightarrow> FormatBuildCache)
      in and_then (unary os srv ''PullLayer'' (rpc_pull_layer x (backend srv) (output_text h) proto_format)) (\<lambda>chunks.
         and_then (io (sys_call os (CreateFile target))) (\<lambda>_.
         and_then (write_chunks os target chunks) (\<lambda>_.
         and_then (io (sys_call os (Flush target))) (\<lambda>_.
         ret_ok (pulled_meta h))))))"

text \<open>
  The sending task. An artifact that cannot be opened is reported on the terminal and skipped, and a
  read error ends its loop like the end of the file.
\<close>

definition read_artifact :: "'x build_os_scheme \<Rightarrow> string \<Rightarrow> ('s sys_state_scheme, build_error, bytes list) op" where
  "read_artifact os path =
     and_then (attempt (perform (OpenFile path) (file_stream os path))) (\<lambda>r.
     ret_ok (case r of Inl e \<Rightarrow> [] | Inr es \<Rightarrow> pull_stream 65536 es))"

definition client_publish_layer ::
  "'x build_os_scheme \<Rightarrow> store_ext \<Rightarrow> 'b server \<Rightarrow> LayerArtifacts \<Rightarrow> LayerMetadata \<Rightarrow> ('b build_state, build_error, unit) op" where
  "client_publish_layer os x srv artifacts meta =
     and_then (read_artifact os (deploy_artifact artifacts)) (\<lambda>deploy.
     and_then (read_artifact os (build_cache_artifact artifacts)) (\<lambda>cache.
     and_then (\<lambda>s. send_call os srv ''PublishLayer''
         (rpc_publish_layer (deploy_first srv (trace s)) (upload_stop srv (trace s)) (adapter_room srv) x (backend srv))
         (Item (Some (Meta (meta_message meta))) #
          map (\<lambda>c. Item (Some (DeployChunk c))) deploy @ map (\<lambda>c. Item (Some (CacheChunk c))) cache) s) (\<lambda>_.
     ret_ok ())))"

definition client_publish_manifest ::
  "'x build_os_scheme \<Rightarrow> store_ext \<Rightarrow> 'b server \<Rightarrow> BuildReleaseManifest \<Rightarrow> ('b build_state, build_error, string) op" where
  "client_publish_manifest os x srv m =
     (\<lambda>s. unary os srv ''PublishManifest''
        (rpc_publish_manifest x (backend srv) (server_secs srv (trace s)) (server_uuid srv (trace s))
          (Some (manifest_message m))) s)"

section \<open>A layer goes up and comes down\<close>

text \<open>The bytes of a file as the sending task sees them, and what was written to a path.\<close>

definition artifact_data :: "'x build_os_scheme \<Rightarrow> string \<Rightarrow> call list \<Rightarrow> bytes" where
  "artifact_data os path tr = (case file_stream os path tr of Inl e \<Rightarrow> [] | Inr es \<Rightarrow> concat (pull_stream 65536 es))"

definition written :: "string \<Rightarrow> call list \<Rightarrow> bytes" where
  "written target cs = concat (map (\<lambda>c. case c of WriteBytes p b \<Rightarrow> if p = target then b else [] | _ \<Rightarrow> []) cs)"

lemma written_simps [simp]:
  "written target [] = []"
  "written target (WriteBytes target b # cs) = b @ written target cs"
  "written target (Receive # cs) = written target cs"
  "written target (Flush p # cs) = written target cs"
  "written target (CreateFile p # cs) = written target cs"
  "written target (Rpc n # cs) = written target cs"
  "written target (cs @ ds) = written target cs @ written target ds"
  by (simp_all add: written_def)

text \<open>
  A host on which files can be written and calls reach the server. The empty path names no file,
  and creating it fails on every host.
\<close>

definition fair_host :: "'x build_os_scheme \<Rightarrow> bool" where
  "fair_host os \<longleftrightarrow> (\<forall>c tr. case sys os c tr of Inl e \<Rightarrow> c = CreateFile [] | Inr u \<Rightarrow> c \<noteq> CreateFile []) \<and>
     (\<forall>name tr. wire os name tr = Delivered)"

lemma fair_call:
  assumes "fair_host os" and "c \<noteq> CreateFile []"
  shows "sys_call os c s = (Inr (), s\<lparr>trace := trace s @ [c]\<rparr>)"
proof -
  have "case sys os c (trace s) of Inl e \<Rightarrow> c = CreateFile [] | Inr u \<Rightarrow> c \<noteq> CreateFile []"
    using assms(1) by (simp add: fair_host_def)
  with assms(2) show ?thesis by (simp add: sys_call_def perform_def split: sum.splits)
qed

lemma fair_empty_path:
  assumes "fair_host os"
  obtains e where "sys_call os (CreateFile []) s = (Inl e, s\<lparr>trace := trace s @ [CreateFile []]\<rparr>)"
proof -
  have "case sys os (CreateFile []) (trace s) of Inl e \<Rightarrow> True | Inr u \<Rightarrow> False"
    using assms by (auto simp: fair_host_def split: sum.splits)
  then show thesis by (auto simp: sys_call_def perform_def split: sum.splits intro: that)
qed

lemma fair_send: "fair_host os \<Longrightarrow> send_call os srv name h items s = handle srv (h items) (s\<lparr>trace := trace s @ [Rpc name]\<rparr>)"
  by (simp add: fair_host_def send_call_def Let_def)

lemma fair_write_chunks:
  assumes "fair_host os"
  shows "\<exists>cs. write_chunks os target chunks s = (Inr (), s\<lparr>trace := trace s @ cs\<rparr>) \<and> written target cs = concat chunks"
proof (induction chunks arbitrary: s)
  case Nil
  show ?case by (auto simp: map_err_def fair_call [OF assms] intro!: exI [of _ "[Receive]"])
next
  case (Cons c chunks)
  obtain cs where cs: "write_chunks os target chunks (s\<lparr>trace := trace s @ [Receive, WriteBytes target c]\<rparr>)
      = (Inr (), s\<lparr>trace := trace s @ [Receive, WriteBytes target c] @ cs\<rparr>)" "written target cs = concat chunks"
    using Cons.IH [of "s\<lparr>trace := trace s @ [Receive, WriteBytes target c]\<rparr>"] by auto
  then show ?case
    by (auto simp: op_defs fair_call [OF assms] intro!: exI [of _ "[Receive, WriteBytes target c] @ cs"])
qed

lemma read_artifact_eq:
  "\<exists>chunks. read_artifact os path s = (Inr chunks, s\<lparr>trace := trace s @ [OpenFile path]\<rparr>) \<and>
     concat chunks = artifact_data os path (trace s)"
  by (auto simp: read_artifact_def op_defs perform_def artifact_data_def split: sum.splits)

lemma sent_parts:
  "sent deploy_part (map (\<lambda>c. Item (Some (DeployChunk c))) d @ map (\<lambda>c. Item (Some (CacheChunk c))) k) = concat d"
  "sent cache_part (map (\<lambda>c. Item (Some (DeployChunk c))) d @ map (\<lambda>c. Item (Some (CacheChunk c))) k) = concat k"
proof -
  have "sent deploy_part (map (\<lambda>c. Item (Some (CacheChunk c))) k) = []"
    "sent cache_part (map (\<lambda>c. Item (Some (CacheChunk c))) k) = concat k"
    by (induction k) (simp_all add: sent_def)
  then show "sent deploy_part (map (\<lambda>c. Item (Some (DeployChunk c))) d @ map (\<lambda>c. Item (Some (CacheChunk c))) k) = concat d"
    "sent cache_part (map (\<lambda>c. Item (Some (DeployChunk c))) d @ map (\<lambda>c. Item (Some (CacheChunk c))) k) = concat k"
    by (induction d) (simp_all add: sent_def)
qed

text \<open>What the client has stored after it has published a layer, whatever the files delivered.\<close>

lemma client_upload:
  fixes a :: LayerArtifacts and x :: store_ext
  assumes "store_codec x" and "fair_host os" and "backend srv = memory_backend" and "0 < adapter_room srv"
    and "mem_ok (remote s)" and "rust_meta x (meta_message meta) (remote s) = (Inr lm, remote s)"
    and "map_of (mem_blobs (remote s)) (content_hash lm, Deploy) = None"
  defines "d \<equiv> artifact_data os (deploy_artifact a) (trace s)"
  defines "k \<equiv> artifact_data os (build_cache_artifact a) (trace s @ [OpenFile (deploy_artifact a)])"
  assumes enc: "meta_to_vec x (lm\<lparr>file_checksum_deploy := document_hash x d, file_checksum_cache := document_hash x k\<rparr>) = Inr doc"
  obtains s' where "client_publish_layer os x srv a meta s = (Inr (), s')"
    and "mem_published x lm d k doc (remote s) (remote s')"
proof -
  let ?s1 = "s\<lparr>trace := trace s @ [OpenFile (deploy_artifact a)]\<rparr>"
  let ?s2 = "?s1\<lparr>trace := trace ?s1 @ [OpenFile (build_cache_artifact a)]\<rparr>"
  obtain dc where dc: "read_artifact os (deploy_artifact a) s = (Inr dc, ?s1)" "concat dc = d"
    using read_artifact_eq [of os "deploy_artifact a" s] by (auto simp: d_def)
  obtain kc where kc: "read_artifact os (build_cache_artifact a) ?s1 = (Inr kc, ?s2)" "concat kc = k"
    using read_artifact_eq [of os "build_cache_artifact a" ?s1] by (auto simp: k_def)
  let ?items = "map (\<lambda>c. Item (Some (DeployChunk c))) dc @ map (\<lambda>c. Item (Some (CacheChunk c))) kc"
  have doc: "meta_to_vec x (lm\<lparr>file_checksum_deploy := document_hash x (sent deploy_part ?items),
      file_checksum_cache := document_hash x (sent cache_part ?items)\<rparr>) = Inr doc"
    using enc unfolding sent_parts dc(2) kc(2) .
  obtain st where st: "rpc_publish_layer (deploy_first srv (trace ?s2)) (upload_stop srv (trace ?s2)) (adapter_room srv) x memory_backend
      (Item (Some (Meta (meta_message meta))) # ?items) (remote s) = (Inr (show_ContentHash x (content_hash lm)), st)"
    "mem_published x lm d k doc (remote s) st"
    using rpc_upload [OF assms(1,5,4,6,7) doc] dc(2) kc(2) unfolding sent_parts by blast
  let ?s3 = "?s2\<lparr>trace := trace ?s2 @ [Rpc ''PublishLayer''], remote := st\<rparr>"
  have pub: "client_publish_layer os x srv a meta s = (Inr (), ?s3)"
    using dc(1) kc(1) st(1) assms(3)
    by (simp add: client_publish_layer_def and_then_def ret_ok_def fair_send [OF assms(2)] handle_def)
  have "remote ?s3 = st" by simp
  then show thesis by (intro that [OF pub]) (simp only: st(2))
qed

text \<open>Reading a stored layer back to a file.\<close>

lemma client_download:
  assumes "store_codec x" and "fair_host os" and "backend srv = memory_backend"
    and "map_of (mem_blobs (remote s)) (h, f) = Some d" and "target \<noteq> []"
  shows "\<exists>cs. client_pull_layer os x srv (OutputHash (show_ContentHash x h)) f target s =
      (Inr (pulled_meta (OutputHash (show_ContentHash x h))), s\<lparr>trace := trace s @ cs\<rparr>) \<and> written target cs = d"
proof -
  let ?fmt = "case f of Deploy \<Rightarrow> FormatDeploy | BuildCache \<Rightarrow> FormatBuildCache"
  obtain chunks where ch: "rpc_pull_layer x memory_backend (show_ContentHash x h) ?fmt (remote s) = (Inr chunks, remote s)"
    "concat chunks = d"
    using rpc_pull_mem [OF assms(1,4) refl] by blast
  let ?s1 = "s\<lparr>trace := trace s @ [Rpc ''PullLayer'', CreateFile target]\<rparr>"
  obtain cs where cs: "write_chunks os target chunks ?s1 = (Inr (), ?s1\<lparr>trace := trace ?s1 @ cs\<rparr>)" "written target cs = d"
    using fair_write_chunks [OF assms(2), of target chunks ?s1] ch(2) by auto
  show ?thesis
    using ch(1) cs assms(3,5)
    by (auto simp: client_pull_layer_def Let_def and_then_def unary_def fair_send [OF assms(2)] handle_def map_err_def
        fair_call [OF assms(2)] ret_ok_def intro!: exI [of _ "[Rpc ''PullLayer'', CreateFile target] @ cs @ [Flush target]"])
qed

lemma client_finds:
  assumes "store_codec x" and "fair_host os" and "backend srv = memory_backend"
    and "map_of (mem_meta (remote s)) (index_key x i) = Some (as_bytes (show_ContentHash x h))"
  shows "client_resolve os x srv (BuildInputHash (show_InputHash x i)) s =
    (Inr (Some (OutputHash (show_ContentHash x h))), s\<lparr>trace := trace s @ [Rpc ''ResolveInputHash'']\<rparr>)"
  using assms(3,4) store_codec.stored_hash [OF assms(1)] store_codec.content_roundtrip [OF assms(1)]
  by (simp add: client_resolve_def and_then_def unary_def fair_send [OF assms(2)] handle_def rpc_resolve_input_hash_def
      parse_input_exact store_codec.input_roundtrip [OF assms(1)] resolve_input_hash_def op_defs mem_run)

text \<open>The document the server keeps for the metadata of the client.\<close>

definition stored_meta :: "LayerMetadata \<Rightarrow> InputHash \<Rightarrow> ContentHash \<Rightarrow> InputHash option \<Rightarrow> LayerMeta" where
  "stored_meta meta i h p =
     \<lparr>input_hash = i, content_hash = h, parent_input_hash = p, uncompressed_size = lm_size_bytes meta,
      compressed_size_deploy = lm_size_compressed_bytes meta, compressed_size_cache = 0,
      file_checksum_deploy = ContentHash (Array32 (replicate 32 0)), file_checksum_cache = ContentHash (Array32 (replicate 32 0)),
      builder_version = lm_builder_version meta, build_timestamp = lm_build_timestamp meta,
      build_host = lm_build_host meta, stage_definition_hash = h, dockerfile_hash = h\<rparr>"

text \<open>
  The client can publish a layer: host and server work, the hash texts are those of hashes, the
  content is new, and the server's encoder accepts its own records.
\<close>

definition can_publish ::
  "store_ext \<Rightarrow> 'x build_os_scheme \<Rightarrow> InMemoryBackend server \<Rightarrow> InMemoryBackend build_state \<Rightarrow> LayerMetadata \<Rightarrow>
     InputHash \<Rightarrow> ContentHash \<Rightarrow> InputHash option \<Rightarrow> bool" where
  "can_publish x os srv s meta i h p \<longleftrightarrow>
     fair_host os \<and> backend srv = memory_backend \<and> 0 < adapter_room srv \<and> mem_ok (remote s) \<and>
     lm_input_hash meta = BuildInputHash (show_InputHash x i) \<and>
     lm_output_hash meta = OutputHash (show_ContentHash x h) \<and>
     lm_parent_input_hash meta = map_option (\<lambda>j. BuildInputHash (show_InputHash x j)) p \<and>
     map_of (mem_blobs (remote s)) (h, Deploy) = None \<and> (\<forall>m. \<exists>doc. meta_to_vec x m = Inr doc)"

lemma rust_meta_message:
  assumes "store_codec x" and "can_publish x os srv s meta i h p"
  shows "rust_meta x (meta_message meta) st = (Inr (stored_meta meta i h p), st)"
  using assms(2) store_codec.zero_hash_parses [OF assms(1)] store_codec.content_roundtrip [OF assms(1)]
    store_codec.input_roundtrip [OF assms(1)]
  by (cases p) (simp_all add: can_publish_def rust_meta_def meta_message_def Let_def parse_input_exact parse_content_exact
      op_defs unwrap_def stored_meta_def)

lemma client_published:
  assumes "store_codec x" and "can_publish x os srv s meta i h p"
  obtains s' where "client_publish_layer os x srv a meta s = (Inr (), s')"
    and "map_of (mem_blobs (remote s')) (h, Deploy) = Some (artifact_data os (deploy_artifact a) (trace s))"
    and "map_of (mem_blobs (remote s')) (h, BuildCache) =
      Some (artifact_data os (build_cache_artifact a) (trace s @ [OpenFile (deploy_artifact a)]))"
    and "map_of (mem_meta (remote s')) (index_key x i) = Some (as_bytes (show_ContentHash x h))"
proof -
  let ?lm = "stored_meta meta i h p"
  let ?d = "artifact_data os (deploy_artifact a) (trace s)"
    and ?k = "artifact_data os (build_cache_artifact a) (trace s @ [OpenFile (deploy_artifact a)])"
  have c: "fair_host os" "backend srv = memory_backend" "0 < adapter_room srv" "mem_ok (remote s)"
    "map_of (mem_blobs (remote s)) (content_hash ?lm, Deploy) = None"
    using assms(2) by (simp_all add: can_publish_def stored_meta_def)
  obtain doc where doc: "meta_to_vec x (?lm\<lparr>file_checksum_deploy := document_hash x ?d, file_checksum_cache := document_hash x ?k\<rparr>) = Inr doc"
    using assms(2) by (auto simp: can_publish_def)
  obtain s' where "client_publish_layer os x srv a meta s = (Inr (), s')"
    and "mem_published x ?lm ?d ?k doc (remote s) (remote s')"
    by (rule client_upload [OF assms(1) c(1,2,3,4) rust_meta_message [OF assms] c(5) doc])
  then show thesis
    by (intro that [of s']) (simp_all add: mem_published_def [OF assms(1)] stored_meta_def)
qed

text \<open>
  C29. On a host on which every call and the connection work, and with the server on the in-memory
  backend, a layer with well-formed hashes whose content is not stored yet and both of whose artifacts can be read is published
  by the build client and comes back as it was: the input hash resolves to the layer's hash, and pulling
  either artifact to a path that is not empty writes exactly the bytes that were read from the
  artifact, whatever the sizes of reads, chunks and buffers on the way.
\<close>

theorem client_layer_roundtrip:
  assumes "store_codec x" and "can_publish x os srv s meta i h p"
    and "file_stream os (deploy_artifact a) (trace s) = Inr des" and "drain des = Inr d"
    and "file_stream os (build_cache_artifact a) (trace s @ [OpenFile (deploy_artifact a)]) = Inr kes" and "drain kes = Inr k"
    and "target \<noteq> []"
  shows "\<exists>s'. client_publish_layer os x srv a meta s = (Inr (), s') \<and>
    fst (client_resolve os x srv (lm_input_hash meta) s') = Inr (Some (lm_output_hash meta)) \<and>
    (\<exists>cs. client_pull_layer os x srv (lm_output_hash meta) Deploy target s' =
       (Inr (pulled_meta (lm_output_hash meta)), s'\<lparr>trace := trace s' @ cs\<rparr>) \<and> written target cs = d) \<and>
    (\<exists>cs. client_pull_layer os x srv (lm_output_hash meta) BuildCache target s' =
       (Inr (pulled_meta (lm_output_hash meta)), s'\<lparr>trace := trace s' @ cs\<rparr>) \<and> written target cs = k)"
proof -
  have data: "artifact_data os (deploy_artifact a) (trace s) = d"
    "artifact_data os (build_cache_artifact a) (trace s @ [OpenFile (deploy_artifact a)]) = k"
    using assms(3-6) by (simp_all add: artifact_data_def concat_pull_stream)
  obtain s' where s': "client_publish_layer os x srv a meta s = (Inr (), s')"
    "map_of (mem_blobs (remote s')) (h, Deploy) = Some d" "map_of (mem_blobs (remote s')) (h, BuildCache) = Some k"
    "map_of (mem_meta (remote s')) (index_key x i) = Some (as_bytes (show_ContentHash x h))"
    using client_published [OF assms(1,2), of a] data by metis
  have c: "fair_host os" "backend srv = memory_backend" "lm_input_hash meta = BuildInputHash (show_InputHash x i)"
    "lm_output_hash meta = OutputHash (show_ContentHash x h)"
    using assms(2) by (simp_all add: can_publish_def)
  show ?thesis
    using s'(1) client_finds [OF assms(1) c(1,2) s'(4)] client_download [OF assms(1) c(1,2) s'(2) assms(7)]
      client_download [OF assms(1) c(1,2) s'(3) assms(7)] unfolding c(3,4) by auto
qed

text \<open>
  An artifact that cannot be opened is published as an empty one: the client reports success,
  the input hash resolves, and pulling the artifact gives no bytes.
\<close>

theorem unreadable_artifact_published_empty:
  assumes "store_codec x" and "can_publish x os srv s meta i h p"
    and "file_stream os (deploy_artifact a) (trace s) = Inl e" and "target \<noteq> []"
  shows "\<exists>s'. client_publish_layer os x srv a meta s = (Inr (), s') \<and>
    fst (client_resolve os x srv (lm_input_hash meta) s') = Inr (Some (lm_output_hash meta)) \<and>
    (\<exists>cs. client_pull_layer os x srv (lm_output_hash meta) Deploy target s' =
       (Inr (pulled_meta (lm_output_hash meta)), s'\<lparr>trace := trace s' @ cs\<rparr>) \<and> written target cs = [])"
proof -
  obtain s' where s': "client_publish_layer os x srv a meta s = (Inr (), s')"
    "map_of (mem_blobs (remote s')) (h, Deploy) = Some []"
    "map_of (mem_meta (remote s')) (index_key x i) = Some (as_bytes (show_ContentHash x h))"
    using client_published [OF assms(1,2), of a] assms(3) by (metis artifact_data_def sum.case(1))
  have c: "fair_host os" "backend srv = memory_backend" "lm_input_hash meta = BuildInputHash (show_InputHash x i)"
    "lm_output_hash meta = OutputHash (show_ContentHash x h)"
    using assms(2) by (simp_all add: can_publish_def)
  show ?thesis
    using s'(1) client_finds [OF assms(1) c(1,2) s'(3)] client_download [OF assms(1) c(1,2) s'(2) assms(4)]
    unfolding c(3,4) by auto
qed

section \<open>A sample host and server\<close>

definition sample_host :: "(string \<Rightarrow> string + bytes) \<Rightarrow> build_os" where
  "sample_host files = os.extend (sample_os (\<lambda>c. c = CreateFile []) (\<lambda>p. case files p of Inl e \<Rightarrow> Inl e | Inr d \<Rightarrow> Inr (of_bytes d)))
     \<lparr>file_stream = (\<lambda>p tr. case files p of Inl e \<Rightarrow> Inl e | Inr d \<Rightarrow> Inr [Chunk d]),
      file_len = (\<lambda>p tr. case files p of Inl e \<Rightarrow> Inl e | Inr d \<Rightarrow> Inr (of_nat (length d))),
      walk = (\<lambda>p tr. []), now_secs = (\<lambda>tr. 7), now_millis = (\<lambda>tr. Some 7000), host_name = (\<lambda>tr. Inr ''h''),
      new_uuid = (\<lambda>tr. ''u''), wire = (\<lambda>name tr. Delivered)\<rparr>"

definition sample_server :: "InMemoryBackend server" where
  "sample_server = \<lparr>backend = memory_backend, deploy_first = (\<lambda>tr. True), upload_stop = (\<lambda>tr f. 0), adapter_room = 4096, server_secs = (\<lambda>tr. 7),
     server_uuid = (\<lambda>tr. ''v''), status_text = (\<lambda>f. ''failed'')\<rparr>"

definition sample_artifacts :: LayerArtifacts where
  "sample_artifacts = \<lparr>deploy_artifact = ''/a'', build_cache_artifact = ''/b'',
     artifact_hash = OutputHash (show_ContentHash sample_codec (sample_hash 2))\<rparr>"

definition sample_client_meta :: LayerMetadata where
  "sample_client_meta =
     \<lparr>lm_input_hash = BuildInputHash (show_InputHash sample_codec (sample_input 1)),
      lm_output_hash = OutputHash (show_ContentHash sample_codec (sample_hash 2)), lm_parent_input_hash = None,
      lm_size_bytes = 1, lm_size_compressed_bytes = 1, lm_build_timestamp = 7, lm_builder_version = ''0'',
      lm_build_host = ''h''\<rparr>"

definition sample_build_state :: "InMemoryBackend build_state" where
  "sample_build_state = \<lparr>trace = [], remote = new_InMemoryBackend\<rparr>"

lemma sample_can_publish:
  "can_publish sample_codec (sample_host files) sample_server sample_build_state sample_client_meta (sample_input 1) (sample_hash 2) None"
  by (simp add: can_publish_def fair_host_def sample_host_def os.defs sample_server_def sample_build_state_def
      sample_client_meta_def mem_empty split: sum.splits)

theorem client_layer_roundtrip_witness:
  "\<exists>s' cs. client_publish_layer (sample_host (\<lambda>p. if p = ''/a'' then Inr [1, 2] else Inr [3])) sample_codec sample_server
      sample_artifacts sample_client_meta sample_build_state = (Inr (), s') \<and>
    snd (client_pull_layer (sample_host (\<lambda>p. if p = ''/a'' then Inr [1, 2] else Inr [3])) sample_codec sample_server
      (lm_output_hash sample_client_meta) Deploy ''/c'' s') = s'\<lparr>trace := trace s' @ cs\<rparr> \<and> written ''/c'' cs = [1, 2]"
proof -
  let ?os = "sample_host (\<lambda>p. if p = ''/a'' then Inr [1, 2] else Inr [3])"
  have "file_stream ?os (deploy_artifact sample_artifacts) (trace sample_build_state) = Inr [Chunk [1, 2]]"
    "file_stream ?os (build_cache_artifact sample_artifacts)
       (trace sample_build_state @ [OpenFile (deploy_artifact sample_artifacts)]) = Inr [Chunk [3]]"
    by (simp_all add: sample_host_def os.defs sample_artifacts_def)
  from client_layer_roundtrip [OF sample_laws sample_can_publish this(1) _ this(2), of "[1, 2]" "[3]" "''/c''"]
  show ?thesis by auto
qed

theorem unreadable_artifact_published_empty_witness:
  "\<exists>s'. client_publish_layer (sample_host (\<lambda>p. Inl ''No such file'')) sample_codec sample_server
      sample_artifacts sample_client_meta sample_build_state = (Inr (), s')"
proof -
  have "file_stream (sample_host (\<lambda>p. Inl ''No such file'')) (deploy_artifact sample_artifacts) (trace sample_build_state) = Inl ''No such file''"
    by (simp add: sample_host_def os.defs)
  from unreadable_artifact_published_empty [OF sample_laws sample_can_publish this, of "''/c''"] show ?thesis by blast
qed

end
