(* ===== verification/Build_Run.thy ===== *)
theory Build_Run
  imports Build_Client
begin

text \<open>
  The build orchestrator, \<^verbatim>\<open>build-system/src/orchestrator.rs\<close>, with the interfaces of
  \<^verbatim>\<open>traits.rs\<close>. Parser, hasher, engine, format and store client are trait objects in the source; here
  they are the functions of a record over the state; \<open>new_BuildSystem\<close> is the record of the real parts.

  Two errors of the source guard against inconsistent graphs: a parent without a result and a
  released layer without metadata. They are parameters of the loop, and the theorem on accepted
  graphs says that the build does not depend on them.
\<close>

section \<open>The parts of a build\<close>

record 's StoreClient =
  resolve_call :: "BuildInputHash \<Rightarrow> ('s, build_error, OutputHash option) op"
  pull_call :: "OutputHash \<Rightarrow> ArtifactFormat \<Rightarrow> string \<Rightarrow> ('s, build_error, LayerMetadata) op"
  publish_call :: "LayerArtifacts \<Rightarrow> LayerMetadata \<Rightarrow> ('s, build_error, unit) op"
  manifest_call :: "BuildReleaseManifest \<Rightarrow> ('s, build_error, string) op"

record 's BuildOrchestrator =
  parse_call :: "string \<Rightarrow> ('s, build_error, BuildGraph) op"
  hash_call :: "ParsedStage \<Rightarrow> BuildInputHash option \<Rightarrow> BuildInputHash"
  solve_call :: "SolveRequest \<Rightarrow> ('s, build_error, string) op"
  pack_call :: "string \<Rightarrow> string \<Rightarrow> ('s, build_error, LayerArtifacts) op"
  unpack_call :: "string \<Rightarrow> string \<Rightarrow> ('s, build_error, unit) op"
  store_client :: "'s StoreClient"
  scratch_dir :: string

record StageResult =
  sr_input_hash :: BuildInputHash
  sr_output_hash :: OutputHash
  was_cache_hit :: bool

text \<open>The two maps of a running build: results by stage name and metadata by layer name.\<close>

record build_progress =
  stage_results :: "string \<Rightarrow> StageResult option"
  layer_metas :: "string \<Rightarrow> LayerMetadata option"

definition new_progress :: build_progress where
  "new_progress = \<lparr>stage_results = (\<lambda>_. None), layer_metas = (\<lambda>_. None)\<rparr>"

definition pkg_version :: string where
  "pkg_version = ''0.1.0''"

section \<open>One stage\<close>

definition parent_input :: "build_progress \<Rightarrow> ParsedStage \<Rightarrow> BuildInputHash option" where
  "parent_input pr stage =
     (case parent_name stage of
        None \<Rightarrow> None
      | Some name \<Rightarrow> map_option sr_input_hash (stage_results pr name))"

definition finish_stage ::
  "ParsedStage \<Rightarrow> BuildInputHash \<Rightarrow> OutputHash \<Rightarrow> bool \<Rightarrow> LayerMetadata \<Rightarrow> build_progress \<Rightarrow> build_progress" where
  "finish_stage stage ih oh hit meta pr =
     pr\<lparr>stage_results := (stage_results pr)(stage_name stage \<mapsto>
           \<lparr>sr_input_hash = ih, sr_output_hash = oh, was_cache_hit = hit\<rparr>),
        layer_metas := (layer_metas pr)(layer_name stage \<mapsto> meta)\<rparr>"

definition choose_stage_dir ::
  "'x build_os_scheme \<Rightarrow> 's sys_state_scheme BuildOrchestrator \<Rightarrow> string \<Rightarrow> ('s sys_state_scheme, build_error, string) op" where
  "choose_stage_dir os o' name =
     (let stage_dir = path_join (scratch_dir o') name
      in and_then (io (exists_path os stage_dir)) (\<lambda>present.
         if \<not> present then ret_ok stage_dir
         else and_then (attempt (sys_call os (RemoveDirAll stage_dir))) (\<lambda>removed.
           case removed of
             Inr _ \<Rightarrow> ret_ok stage_dir
           | Inl _ \<Rightarrow>
               and_then (perform Now (\<lambda>tr. case now_millis os tr of None \<Rightarrow> Inl BuildPanic | Some n \<Rightarrow> Inr n)) (\<lambda>millis.
               ret_ok (path_join (scratch_dir o') (name @ ''-'' @ dec millis))))))"

definition parent_override ::
  "build_error \<Rightarrow> 'x build_os_scheme \<Rightarrow> 's sys_state_scheme BuildOrchestrator \<Rightarrow> build_progress \<Rightarrow> ParsedStage \<Rightarrow> string \<Rightarrow>
     ('s sys_state_scheme, build_error, (string \<times> string) option) op" where
  "parent_override no_parent os o' pr stage stage_dir =
     (case parent_name stage of
        None \<Rightarrow> ret_ok None
      | Some name \<Rightarrow>
          (case stage_results pr name of
             None \<Rightarrow> ret_err no_parent
           | Some res \<Rightarrow>
               if was_cache_hit res
               then (let oci_dir = path_join stage_dir ''parent_oci''
                     in and_then (io (sys_call os (CreateDirAll oci_dir))) (\<lambda>_.
                        and_then (pull_call (store_client o') (sr_output_hash res) BuildCache oci_dir) (\<lambda>_.
                        and_then (unpack_call o' (path_join oci_dir ''layer.oci.tar.zst'') oci_dir) (\<lambda>_.
                        ret_ok (Some (name, oci_dir))))))
               else ret_ok None))"

definition layer_metadata ::
  "'x build_os_scheme \<Rightarrow> BuildInputHash \<Rightarrow> BuildInputHash option \<Rightarrow> string \<Rightarrow> LayerArtifacts \<Rightarrow>
     ('s sys_state_scheme, build_error, LayerMetadata) op" where
  "layer_metadata os ih parent rootfs_dir artifacts =
     and_then (io (perform (Stat (deploy_artifact artifacts)) (file_len os (deploy_artifact artifacts)))) (\<lambda>deploy_size.
     and_then (attempt (get_dir_size os rootfs_dir)) (\<lambda>measured.
     and_then (perform Now (\<lambda>tr. Inr (now_secs os tr))) (\<lambda>ts.
     and_then (io (perform HostName (host_name os))) (\<lambda>host.
     ret_ok
       \<lparr>lm_input_hash = ih, lm_output_hash = artifact_hash artifacts, lm_parent_input_hash = parent,
        lm_size_bytes = (case measured of Inl e \<Rightarrow> 0 | Inr n \<Rightarrow> n), lm_size_compressed_bytes = deploy_size,
        lm_build_timestamp = ts, lm_builder_version = pkg_version, lm_build_host = host\<rparr>))))"

definition build_missing ::
  "build_error \<Rightarrow> 'x build_os_scheme \<Rightarrow> 's sys_state_scheme BuildOrchestrator \<Rightarrow> string \<Rightarrow> ParsedStage \<Rightarrow> BuildInputHash \<Rightarrow>
     build_progress \<Rightarrow> ('s sys_state_scheme, build_error, build_progress) op" where
  "build_missing no_parent os o' dockerfile stage ih pr =
     and_then (choose_stage_dir os o' (stage_name stage)) (\<lambda>stage_dir.
     let rootfs_dir = path_join stage_dir ''rootfs''; artifact_dir = path_join stage_dir ''artifacts''
     in and_then (io (sys_call os (CreateDirAll rootfs_dir))) (\<lambda>_.
        and_then (io (sys_call os (CreateDirAll artifact_dir))) (\<lambda>_.
        and_then (parent_override no_parent os o' pr stage stage_dir) (\<lambda>override.
        and_then (solve_call o'
          \<lparr>req_stage_name = stage_name stage, dockerfile_path = dockerfile,
           context_path = (case path_parent dockerfile of Some p \<Rightarrow> p | None \<Rightarrow> ''.''),
           parent_cache_override = override, export_dir = rootfs_dir\<rparr>) (\<lambda>_.
        and_then (pack_call o' rootfs_dir artifact_dir) (\<lambda>artifacts.
        and_then (layer_metadata os ih (parent_input pr stage) rootfs_dir artifacts) (\<lambda>meta.
        and_then (publish_call (store_client o') artifacts meta) (\<lambda>_.
        ret_ok (finish_stage stage ih (artifact_hash artifacts) False meta pr)))))))))"

definition build_stage ::
  "build_error \<Rightarrow> 'x build_os_scheme \<Rightarrow> 's sys_state_scheme BuildOrchestrator \<Rightarrow> string \<Rightarrow> ParsedStage \<Rightarrow> build_progress \<Rightarrow>
     ('s sys_state_scheme, build_error, build_progress) op" where
  "build_stage no_parent os o' dockerfile stage pr =
     (let ih = hash_call o' stage (parent_input pr stage)
      in and_then (resolve_call (store_client o') ih) (\<lambda>found.
         case found of
           Some oh \<Rightarrow>
             and_then (pull_call (store_client o') oh BuildCache []) (\<lambda>meta.
             ret_ok (finish_stage stage ih oh True meta pr))
         | None \<Rightarrow> build_missing no_parent os o' dockerfile stage ih pr))"

fun build_stages ::
  "build_error \<Rightarrow> 'x build_os_scheme \<Rightarrow> 's sys_state_scheme BuildOrchestrator \<Rightarrow> string \<Rightarrow> ParsedStage list \<Rightarrow> build_progress \<Rightarrow>
     ('s sys_state_scheme, build_error, build_progress) op" where
  "build_stages no_parent os o' dockerfile [] pr = ret_ok pr"
| "build_stages no_parent os o' dockerfile (stage # rest) pr =
     and_then (build_stage no_parent os o' dockerfile stage pr) (\<lambda>pr'. build_stages no_parent os o' dockerfile rest pr')"

section \<open>The manifest\<close>

fun collect_layers ::
  "(string \<Rightarrow> build_error) \<Rightarrow> (string \<Rightarrow> LayerMetadata option) \<Rightarrow> nat \<Rightarrow> string list \<Rightarrow> build_error + BuildManifestLayer list" where
  "collect_layers no_meta metas i [] = Inr []"
| "collect_layers no_meta metas i (name # names) =
     (case metas name of
        None \<Rightarrow> Inl (no_meta name)
      | Some meta \<Rightarrow>
          (case collect_layers no_meta metas (Suc i) names of
             Inl e \<Rightarrow> Inl e
           | Inr ls \<Rightarrow> Inr
              (\<lparr>bml_name = name, bml_order = of_nat i, bml_input_hash = lm_input_hash meta,
                bml_output_hash = lm_output_hash meta, bml_size_bytes = lm_size_bytes meta,
                bml_size_compressed_bytes = lm_size_compressed_bytes meta,
                bml_parent_input_hash = lm_parent_input_hash meta\<rparr> # ls)))"

definition make_manifest ::
  "'x build_os_scheme \<Rightarrow> string \<Rightarrow> BuildManifestLayer list \<Rightarrow> (string, string) fmap \<Rightarrow>
     ('s sys_state_scheme, build_error, BuildReleaseManifest) op" where
  "make_manifest os df_hash ls workload =
     and_then (perform NewUuid (\<lambda>tr. Inr (new_uuid os tr))) (\<lambda>uuid.
     and_then (perform Now (\<lambda>tr. Inr (now_secs os tr))) (\<lambda>ts.
     and_then (io (perform HostName (host_name os))) (\<lambda>host.
     ret_ok
       \<lparr>brm_schema_version = ''1.0'', brm_manifest_id = uuid,
        brm_build_metadata = \<lparr>bi_dockerfile_hash = df_hash, bi_build_timestamp = ts,
          bi_builder_version = pkg_version, bi_build_host = host\<rparr>,
        brm_layers = ls, brm_workload_metadata = workload\<rparr>)))"

text \<open>\<open>std::fs::read\<close>.\<close>

definition read_file :: "'x build_os_scheme \<Rightarrow> string \<Rightarrow> ('s sys_state_scheme, build_error, bytes) op" where
  "read_file os path =
     and_then (io (perform (ReadFile path) (file_stream os path))) (\<lambda>es. io (lift_res (drain es)))"

definition build_with ::
  "build_error \<Rightarrow> (string \<Rightarrow> build_error) \<Rightarrow> 'x build_os_scheme \<Rightarrow> store_ext \<Rightarrow> 's sys_state_scheme BuildOrchestrator \<Rightarrow> string \<Rightarrow>
     ('s sys_state_scheme, build_error, BuildReleaseManifest) op" where
  "build_with no_parent no_meta os x o' dockerfile =
     and_then (parse_call o' dockerfile) (\<lambda>graph.
     and_then (read_file os dockerfile) (\<lambda>content.
     and_then (build_stages no_parent os o' dockerfile (stages graph) new_progress) (\<lambda>pr.
     and_then (lift_res (collect_layers no_meta (layer_metas pr) 0 (layer_order (release_meta graph)))) (\<lambda>ls.
     and_then (make_manifest os (hex_encode x (sha256 x content)) ls (workload_meta (release_meta graph))) (\<lambda>manifest.
     and_then (manifest_call (store_client o') manifest) (\<lambda>_.
     ret_ok manifest))))))"

definition build ::
  "'x build_os_scheme \<Rightarrow> store_ext \<Rightarrow> 's sys_state_scheme BuildOrchestrator \<Rightarrow> string \<Rightarrow>
     ('s sys_state_scheme, build_error, BuildReleaseManifest) op" where
  "build = build_with (BuildError ''Parent result missing'') (\<lambda>name. BuildError (''Missing metadata for layer '' @ name))"

section \<open>The real parts\<close>

definition file_parse :: "'x build_os_scheme \<Rightarrow> string \<Rightarrow> ('s sys_state_scheme, build_error, BuildGraph) op" where
  "file_parse os path = and_then (io (perform (ReadFile path) (file_text os path))) (\<lambda>content. lift_res (parse_text content))"

definition GrpcStoreClient :: "'x build_os_scheme \<Rightarrow> store_ext \<Rightarrow> 'b server \<Rightarrow> 'b build_state StoreClient" where
  "GrpcStoreClient os x srv =
     \<lparr>resolve_call = client_resolve os x srv, pull_call = client_pull_layer os x srv,
      publish_call = client_publish_layer os x srv, manifest_call = client_publish_manifest os x srv\<rparr>"

text \<open>The parts that \<^verbatim>\<open>main.rs\<close> puts together; the scratch directory is named after the process.\<close>

definition new_BuildSystem ::
  "'x build_os_scheme \<Rightarrow> store_ext \<Rightarrow> 'b server \<Rightarrow> string \<Rightarrow> u32 \<Rightarrow> 'b build_state BuildOrchestrator" where
  "new_BuildSystem os x srv temp_dir pid =
     \<lparr>parse_call = file_parse os, hash_call = compute_input_hash x, solve_call = solve_stage os,
      pack_call = pack os x, unpack_call = unpack_for_build os, store_client = GrpcStoreClient os x srv,
      scratch_dir = path_join temp_dir (''microvisor-build-'' @ show_word pid)\<rparr>"

section \<open>The consistency errors\<close>

fun parents_first :: "string set \<Rightarrow> ParsedStage list \<Rightarrow> bool" where
  "parents_first seen [] \<longleftrightarrow> True"
| "parents_first seen (stage # rest) \<longleftrightarrow>
     (\<forall>p. parent_name stage = Some p \<longrightarrow> p \<in> seen) \<and> parents_first (insert (stage_name stage) seen) rest"

definition valid_graph :: "BuildGraph \<Rightarrow> bool" where
  "valid_graph g \<longleftrightarrow> parents_first {} (stages g) \<and>
     (\<forall>n \<in> set (layer_order (release_meta g)). \<exists>st \<in> set (stages g). layer_name st = n)"

lemma parents_firstI:
  "(\<And>i p. i < length sts \<Longrightarrow> parent_name (sts ! i) = Some p \<Longrightarrow> p \<in> seen \<or> (\<exists>j < i. stage_name (sts ! j) = p)) \<Longrightarrow>
     parents_first seen sts"
proof (induction sts arbitrary: seen)
  case (Cons st sts)
  have "\<forall>p. parent_name st = Some p \<longrightarrow> p \<in> seen" using Cons.prems [of 0] by auto
  moreover have "parents_first (insert (stage_name st) seen) sts"
  proof (rule Cons.IH)
    fix i p
    assume "i < length sts" "parent_name (sts ! i) = Some p"
    then consider "p \<in> seen" | j where "j < Suc i" "stage_name ((st # sts) ! j) = p"
      using Cons.prems [of "Suc i" p] by auto
    then show "p \<in> insert (stage_name st) seen \<or> (\<exists>j < i. stage_name (sts ! j) = p)"
      by cases (auto simp: nth_Cons' less_Suc_eq_0_disj split: if_splits)
  qed
  ultimately show ?case by simp
qed simp

lemma parsed_graph_valid: "parse_text content = Inr g \<Longrightarrow> valid_graph g"
  using accepted_graph(1,2) [of content g] by (auto simp: valid_graph_def well_parented_def intro!: parents_firstI)

lemma finish_stage_dom [simp]:
  "dom (stage_results (finish_stage stage ih oh hit meta pr)) = insert (stage_name stage) (dom (stage_results pr))"
  "dom (layer_metas (finish_stage stage ih oh hit meta pr)) = insert (layer_name stage) (dom (layer_metas pr))"
  by (simp_all add: finish_stage_def)

lemma build_stage_Inr:
  assumes "build_stage e os o' df stage pr s = (Inr pr', t)"
  obtains oh hit meta where "pr' = finish_stage stage (hash_call o' stage (parent_input pr stage)) oh hit meta pr"
  using assms by (auto simp: build_stage_def build_missing_def Let_def and_then_Inr split: option.splits)

lemma build_stage_dom:
  assumes "build_stage e os o' df stage pr s = (Inr pr', t)"
  shows "dom (stage_results pr') = insert (stage_name stage) (dom (stage_results pr))"
    and "dom (layer_metas pr') = insert (layer_name stage) (dom (layer_metas pr))"
proof -
  obtain oh hit meta where "pr' = finish_stage stage (hash_call o' stage (parent_input pr stage)) oh hit meta pr"
    by (rule build_stage_Inr [OF assms])
  then show "dom (stage_results pr') = insert (stage_name stage) (dom (stage_results pr))"
    "dom (layer_metas pr') = insert (layer_name stage) (dom (layer_metas pr))"
    by simp_all
qed

lemma build_stages_dom:
  "build_stages e os o' df sts pr s = (Inr pr', t) \<Longrightarrow>
     dom (stage_results pr') = dom (stage_results pr) \<union> stage_name ` set sts \<and>
     dom (layer_metas pr') = dom (layer_metas pr) \<union> layer_name ` set sts"
proof (induction sts arbitrary: pr s)
  case (Cons st sts)
  then obtain pr1 s1 where "build_stage e os o' df st pr s = (Inr pr1, s1)" and r: "build_stages e os o' df sts pr1 s1 = (Inr pr', t)"
    by (auto simp: and_then_Inr)
  from build_stage_dom [OF this(1)] Cons.IH [OF r] show ?case by simp
qed simp

lemma build_stage_indep:
  assumes "\<forall>p. parent_name stage = Some p \<longrightarrow> p \<in> dom (stage_results pr)"
  shows "build_stage e os o' df stage pr = build_stage e' os o' df stage pr"
proof -
  have "parent_override e os o' pr stage = parent_override e' os o' pr stage"
    using assms by (auto simp: parent_override_def fun_eq_iff split: option.splits)
  then show ?thesis by (simp add: build_stage_def build_missing_def)
qed

lemma and_then_cong:
  assumes "\<And>a t. m s = (Inr a, t) \<Longrightarrow> k a t = k' a t"
  shows "and_then m k s = and_then m k' s"
  using assms by (auto simp: and_then_def split: prod.splits sum.splits)

lemma build_stages_indep:
  "parents_first (dom (stage_results pr)) sts \<Longrightarrow>
     build_stages e os o' df sts pr s = build_stages e' os o' df sts pr s"
proof (induction sts arbitrary: pr s)
  case (Cons st sts)
  have "build_stage e os o' df st pr = build_stage e' os o' df st pr"
    using Cons.prems by (intro build_stage_indep) simp
  moreover have "build_stages e os o' df sts pr1 t = build_stages e' os o' df sts pr1 t"
    if b: "build_stage e' os o' df st pr s = (Inr pr1, t)" for pr1 t
    using Cons.prems build_stage_dom(1) [OF b] by (intro Cons.IH) simp
  ultimately show ?case unfolding build_stages.simps by (simp only:) (rule and_then_cong)
qed simp

lemma collect_layers_Inr:
  "collect_layers f metas i names = Inr ls \<Longrightarrow>
     map bml_name ls = names \<and> map bml_order ls = map of_nat [i..<i + length names] \<and>
     (\<forall>l \<in> set ls. \<exists>meta. metas (bml_name l) = Some meta \<and> bml_input_hash l = lm_input_hash meta \<and>
        bml_output_hash l = lm_output_hash meta \<and> bml_parent_input_hash l = lm_parent_input_hash meta)"
proof (induction f metas i names arbitrary: ls rule: collect_layers.induct)
  case (2 f metas i name names)
  have "map of_nat [i..<i + length (name # names)] = (of_nat i # map of_nat [Suc i..<Suc i + length names] :: u32 list)"
    by (subst upt_conv_Cons) simp_all
  with 2 show ?case by (auto split: option.splits sum.splits)
qed simp

lemma collect_layers_indep:
  "set names \<subseteq> dom metas \<Longrightarrow> collect_layers f metas i names = collect_layers f' metas i names"
  by (induction f metas i names rule: collect_layers.induct) (auto split: option.splits)

text \<open>The orchestrator relies on its parser for valid graphs.\<close>

locale graph_source =
  fixes o' :: "'s sys_state_scheme BuildOrchestrator"
  assumes parse_valid: "parse_call o' p s = (Inr g, t) \<Longrightarrow> valid_graph g"
begin

lemma build_indep: "build_with e f os x o' df s = build_with e' f' os x o' df s"
  unfolding build_with_def
proof (rule and_then_cong, rule and_then_cong)
  fix g t content u
  assume g: "parse_call o' df s = (Inr g, t)"
  have v: "parents_first (dom (stage_results new_progress)) (stages g)"
    using parse_valid [OF g] by (simp add: valid_graph_def new_progress_def)
  have c: "collect_layers f (layer_metas pr) 0 (layer_order (release_meta g)) = collect_layers f' (layer_metas pr) 0 (layer_order (release_meta g))"
    if b: "build_stages e' os o' df (stages g) new_progress u = (Inr pr, w)" for pr w
    using build_stages_dom [OF b] parse_valid [OF g] by (intro collect_layers_indep) (auto simp: valid_graph_def)
  show "and_then (build_stages e os o' df (stages g) new_progress) (\<lambda>pr.
      and_then (lift_res (collect_layers f (layer_metas pr) 0 (layer_order (release_meta g)))) (\<lambda>ls.
      and_then (make_manifest os (hex_encode x (sha256 x content)) ls (workload_meta (release_meta g))) (\<lambda>manifest.
      and_then (manifest_call (store_client o') manifest) (\<lambda>_. ret_ok manifest)))) u =
    and_then (build_stages e' os o' df (stages g) new_progress) (\<lambda>pr.
      and_then (lift_res (collect_layers f' (layer_metas pr) 0 (layer_order (release_meta g)))) (\<lambda>ls.
      and_then (make_manifest os (hex_encode x (sha256 x content)) ls (workload_meta (release_meta g))) (\<lambda>manifest.
      and_then (manifest_call (store_client o') manifest) (\<lambda>_. ret_ok manifest)))) u"
    using build_stages_indep [OF v, of e os o' df u e'] c
    by (auto simp: and_then_def split: prod.splits sum.splits)
qed

end

interpretation build_system: graph_source "new_BuildSystem os x srv temp_dir pid"
  by unfold_locales (auto simp: new_BuildSystem_def file_parse_def and_then_Inr lift_res_def intro: parsed_graph_valid)

text \<open>
  C28. The two consistency checks of the orchestrator never fail for a Dockerfile that the parser
  accepts: a build behaves the same whatever errors they would raise.
\<close>

theorem consistency_errors_unreachable:
  "build_with no_parent no_meta os x (new_BuildSystem os x srv temp_dir pid) dockerfile s =
     build os x (new_BuildSystem os x srv temp_dir pid) dockerfile s"
  unfolding build_def by (rule build_system.build_indep)

section \<open>What a build publishes\<close>

lemma client_pull_empty:
  assumes "fair_host os"
  obtains e t where "client_pull_layer os x srv h f [] s = (Inl e, t)"
proof -
  let ?m = "unary os srv ''PullLayer'' (rpc_pull_layer x (backend srv) (output_text h)
    (case f of Deploy \<Rightarrow> FormatDeploy | BuildCache \<Rightarrow> FormatBuildCache))"
  obtain r u where m: "?m s = (r, u)" by (cases "?m s")
  show thesis
  proof (cases r)
    case (Inl e)
    with m show thesis by (auto simp: client_pull_layer_def Let_def and_then_def intro: that)
  next
    case (Inr chunks)
    obtain e where "sys_call os (CreateFile []) u = (Inl e, u\<lparr>trace := trace u @ [CreateFile []]\<rparr>)"
      by (rule fair_empty_path [OF assms])
    with m Inr show thesis by (auto simp: client_pull_layer_def Let_def and_then_def map_err_def intro: that)
  qed
qed

text \<open>A stage that succeeds with a client that cannot pull to the empty path was built.\<close>

definition never_hits :: "'s sys_state_scheme BuildOrchestrator \<Rightarrow> bool" where
  "never_hits o' \<longleftrightarrow> (\<forall>h s. \<exists>e t. pull_call (store_client o') h BuildCache [] s = (Inl e, t))"

lemma system_never_hits: "fair_host os \<Longrightarrow> never_hits (new_BuildSystem os x srv temp_dir pid)"
  using client_pull_empty [of os x srv _ BuildCache]
  by (auto simp: never_hits_def new_BuildSystem_def GrpcStoreClient_def) metis

lemma layer_metadata_Inr:
  "layer_metadata os ih parent dir a s = (Inr meta, t) \<Longrightarrow>
     lm_input_hash meta = ih \<and> lm_output_hash meta = artifact_hash a \<and> lm_parent_input_hash meta = parent"
  by (auto simp: layer_metadata_def and_then_Inr)

lemma build_stage_missed:
  assumes "never_hits o'" and "build_stage e os o' df stage pr s = (Inr pr', t)"
  obtains oh meta where
    "pr' = finish_stage stage (hash_call o' stage (parent_input pr stage)) oh False meta pr"
    "lm_input_hash meta = hash_call o' stage (parent_input pr stage)" "lm_output_hash meta = oh"
    "lm_parent_input_hash meta = parent_input pr stage"
proof -
  let ?ih = "hash_call o' stage (parent_input pr stage)"
  obtain found u where f: "resolve_call (store_client o') ?ih s = (Inr found, u)"
    using assms(2) by (auto simp: build_stage_def Let_def and_then_Inr)
  have "found = None"
  proof (cases found)
    case (Some oh)
    obtain e1 w where "pull_call (store_client o') oh BuildCache [] u = (Inl e1, w)"
      using assms(1) unfolding never_hits_def by blast
    with assms(2) f Some show ?thesis by (simp add: build_stage_def Let_def and_then_def)
  qed
  with assms(2) f have "build_missing e os o' df stage ?ih pr u = (Inr pr', t)"
    by (simp add: build_stage_def Let_def and_then_def)
  then show thesis
    by (auto simp: build_missing_def Let_def and_then_Inr dest!: layer_metadata_Inr intro: that)
qed

text \<open>
  The stages that a stage is built on, base first and the stage itself last, found through the names
  of the parents; \<open>layer_chains\<close> gives them for each layer, for the last stage of that layer when
  several have its name. A stage whose base is no stage has none below it.
\<close>

fun layer_chains ::
  "(string \<Rightarrow> ParsedStage list option) \<Rightarrow> (string \<Rightarrow> ParsedStage list option) \<Rightarrow> ParsedStage list \<Rightarrow>
     (string \<Rightarrow> ParsedStage list option)" where
  "layer_chains by_stage by_layer [] = by_layer"
| "layer_chains by_stage by_layer (stage # rest) =
     (let below = (case parent_name stage of
                     None \<Rightarrow> []
                   | Some p \<Rightarrow> (case by_stage p of None \<Rightarrow> [] | Some chain \<Rightarrow> chain));
          chain = below @ [stage]
      in layer_chains (by_stage(stage_name stage \<mapsto> chain)) (by_layer(layer_name stage \<mapsto> chain)) rest)"

text \<open>The results and the metadata of a running build carry the hashes of these chains.\<close>

definition chains_hashed ::
  "store_ext \<Rightarrow> (string \<Rightarrow> ParsedStage list option) \<Rightarrow> (string \<Rightarrow> ParsedStage list option) \<Rightarrow> build_progress \<Rightarrow> bool" where
  "chains_hashed x by_stage by_layer pr \<longleftrightarrow>
     (\<forall>n. map_option sr_input_hash (stage_results pr n) =
        (case by_stage n of None \<Rightarrow> None | Some chain \<Rightarrow> chain_hash x None chain)) \<and>
     (\<forall>n meta. layer_metas pr n = Some meta \<longrightarrow> (\<exists>chain. by_layer n = Some chain \<and>
        Some (lm_input_hash meta) = chain_hash x None chain \<and> lm_parent_input_hash meta = chain_hash x None (butlast chain)))"

lemma build_stages_hashed:
  assumes "never_hits o'" and "hash_call o' = compute_input_hash x"
  shows "build_stages e os o' df sts pr s = (Inr pr', t) \<Longrightarrow> chains_hashed x C L pr \<Longrightarrow>
     \<exists>C'. chains_hashed x C' (layer_chains C L sts) pr'"
proof (induction sts arbitrary: pr s C L)
  case (Cons st sts)
  obtain pr1 s1 where b: "build_stage e os o' df st pr s = (Inr pr1, s1)" "build_stages e os o' df sts pr1 s1 = (Inr pr', t)"
    using Cons.prems(1) by (auto simp: and_then_Inr)
  define below where "below = (case parent_name st of None \<Rightarrow> []
      | Some p \<Rightarrow> (case C p of None \<Rightarrow> [] | Some chain \<Rightarrow> chain))"
  have parent: "parent_input pr st = chain_hash x None below"
    using Cons.prems(2) by (auto simp: chains_hashed_def parent_input_def below_def split: option.splits)
  let ?ih = "compute_input_hash x st (chain_hash x None below)"
  obtain oh meta where "pr1 = finish_stage st ?ih oh False meta pr" "lm_input_hash meta = ?ih"
    "lm_parent_input_hash meta = chain_hash x None below"
    using build_stage_missed [OF assms(1) b(1)] unfolding assms(2) parent by metis
  then have "chains_hashed x (C(stage_name st \<mapsto> below @ [st])) (L(layer_name st \<mapsto> below @ [st])) pr1"
    using Cons.prems(2) by (auto simp: chains_hashed_def finish_stage_def chain_hash_snoc)
  from Cons.IH [OF b(2) this] show ?case unfolding layer_chains.simps Let_def below_def .
qed auto

text \<open>
  C27. On a host on which every call and the connection work, a build that succeeds has published, as
  its last step, the manifest it returns. The layers are those of the release label, in order and
  numbered from zero. The input hash of each is the hash of the chain of its stages, from the stage at the
  bottom up through the parents to the stage of the layer, each hashed with the hash of the one below;
  the parent hash it records is the hash of the chain below it. The manifest names the digest of the
  Dockerfile.
\<close>

theorem build_publishes_release:
  assumes "fair_host os" and "build os x (new_BuildSystem os x srv temp_dir pid) dockerfile s = (Inr m, t)"
  shows "\<exists>content g es d. file_text os dockerfile (trace s) = Inr content \<and> parse_text content = Inr g \<and>
    file_stream os dockerfile (trace s @ [ReadFile dockerfile]) = Inr es \<and> drain es = Inr d \<and>
    map bml_name (brm_layers m) = layer_order (release_meta g) \<and>
    map bml_order (brm_layers m) = map of_nat [0..<length (brm_layers m)] \<and>
    (\<forall>l \<in> set (brm_layers m). \<exists>chain. layer_chains Map.empty Map.empty (stages g) (bml_name l) = Some chain \<and>
       Some (bml_input_hash l) = chain_hash x None chain \<and> bml_parent_input_hash l = chain_hash x None (butlast chain)) \<and>
    brm_workload_metadata m = workload_meta (release_meta g) \<and>
    bi_dockerfile_hash (brm_build_metadata m) = hex_encode x (sha256 x d) \<and>
    (\<exists>u h. client_publish_manifest os x srv m u = (Inr h, t))"
proof -
  let ?o = "new_BuildSystem os x srv temp_dir pid"
  have parts: "parse_call ?o = file_parse os" "hash_call ?o = compute_input_hash x"
    "manifest_call (store_client ?o) = client_publish_manifest os x srv"
    by (simp_all add: new_BuildSystem_def GrpcStoreClient_def)
  obtain g s1 d s2 pr s3 ls u h where g: "file_parse os dockerfile s = (Inr g, s1)"
    and d: "read_file os dockerfile s1 = (Inr d, s2)"
    and b: "build_stages (BuildError ''Parent result missing'') os ?o dockerfile (stages g) new_progress s2 = (Inr pr, s3)"
    and ls: "collect_layers (\<lambda>name. BuildError (''Missing metadata for layer '' @ name)) (layer_metas pr) 0
        (layer_order (release_meta g)) = Inr ls"
    and m: "brm_layers m = ls" "brm_workload_metadata m = workload_meta (release_meta g)"
      "bi_dockerfile_hash (brm_build_metadata m) = hex_encode x (sha256 x d)"
    and p: "client_publish_manifest os x srv m u = (Inr h, t)"
    using assms(2) unfolding build_def build_with_def parts
    by (auto simp: and_then_Inr make_manifest_def lift_res_def)
  obtain content where c: "file_text os dockerfile (trace s) = Inr content" "parse_text content = Inr g" "trace s1 = trace s @ [ReadFile dockerfile]"
    using g by (auto simp: file_parse_def and_then_Inr perform_def lift_res_def)
  obtain es where es: "file_stream os dockerfile (trace s @ [ReadFile dockerfile]) = Inr es" "drain es = Inr d"
    using d c(3) by (auto simp: read_file_def and_then_Inr perform_def lift_res_def)
  have "chains_hashed x Map.empty Map.empty new_progress" by (simp add: chains_hashed_def new_progress_def)
  from build_stages_hashed [OF system_never_hits [OF assms(1)] parts(2) b this] obtain C where
    "chains_hashed x C (layer_chains Map.empty Map.empty (stages g)) pr" by blast
  then have "\<forall>l \<in> set ls. \<exists>chain. layer_chains Map.empty Map.empty (stages g) (bml_name l) = Some chain \<and>
      Some (bml_input_hash l) = chain_hash x None chain \<and> bml_parent_input_hash l = chain_hash x None (butlast chain)"
    using collect_layers_Inr [OF ls] unfolding chains_hashed_def by metis
  moreover have "length ls = length (layer_order (release_meta g))"
    using collect_layers_Inr [OF ls] by (metis length_map)
  ultimately show ?thesis using c(1,2) es m p collect_layers_Inr [OF ls] by auto
qed

section \<open>A build that succeeds\<close>

definition small_file :: "string list" where
  "small_file = [''FROM scratch AS base'', ''LABEL steel.layer=base'', ''LABEL steel.layer.order=0'', ''LABEL steel.release.layers=base'']"

definition small_stage :: ParsedStage where
  "small_stage = \<lparr>stage_name = ''base'', parent_name = None, layer_name = ''base'', stage_order = 0, instructions = small_file\<rparr>"

definition small_graph :: BuildGraph where
  "small_graph = \<lparr>stages = [small_stage], release_meta = \<lparr>layer_order = [''base''], workload_meta = fmempty\<rparr>\<rparr>"

definition small_text :: string where
  "small_text = join [CHR 0x0A] small_file"

lemma small_parsed: "parse_text small_text = Inr small_graph"
proof -
  have l: "lines small_text = small_file"
    unfolding small_text_def by (rule lines_join) (auto simp: small_file_def)
  have p: "parse_lines small_file \<lparr>finished = [], current_stage = None, steel_release_stage = None\<rparr> =
      Inr \<lparr>finished = [], current_stage = Some small_stage, steel_release_stage = Some (release_meta small_graph)\<rparr>"
    by (simp add: parser_eval number_eval small_file_def small_stage_def small_graph_def trim_start_matches.simps char_of_def bit_iff_odd)
  have "validate_graph [small_stage] (release_meta small_graph) = Inr ()"
    by (simp add: validate_graph_def layer_stages_def small_graph_def small_stage_def)
  with p l show ?thesis by (simp add: parse_text_def all_stages_def small_graph_def)
qed

definition small_host :: build_os where
  "small_host = sample_host (\<lambda>p. Inr (as_bytes small_text))"

lemma small_host_sels [simp]:
  "file_text small_host p tr = Inr small_text"
  "file_stream small_host p tr = Inr [Chunk (as_bytes small_text)]"
  "run small_host prog args tr = Inr (True, [])"
  "walk small_host p tr = []" "now_secs small_host tr = 7" "host_name small_host tr = Inr ''h''"
  "new_uuid small_host tr = ''u''" "path_exists small_host p tr = True"
  "file_len small_host p tr = Inr (of_nat (length (as_bytes small_text)))"
  by (simp_all add: small_host_def sample_host_def os.defs)

lemma small_host_fair: "fair_host small_host"
  using sample_can_publish by (simp add: can_publish_def small_host_def)

lemmas small_call = fair_call [OF small_host_fair]

abbreviation small_system :: "InMemoryBackend build_state BuildOrchestrator" where
  "small_system \<equiv> new_BuildSystem small_host sample_codec sample_server ''/tmp'' 1"

definition small_hash :: ContentHash where
  "small_hash = ContentHash (Array32 (sha256 sample_codec (as_bytes small_text)))"

definition small_input :: InputHash where
  "small_input = InputHash (Array32 (sha256 sample_codec (hash_preimage small_stage None)))"

lemma small_hashes:
  "hex_encode sample_codec (sha256 sample_codec (as_bytes small_text)) = show_ContentHash sample_codec small_hash"
  "compute_input_hash sample_codec small_stage None = BuildInputHash (show_InputHash sample_codec small_input)"
  by (simp_all add: show_ContentHash_def show_InputHash_def small_hash_def small_input_def content_bytes_def input_bytes_def
      compute_input_hash_def sample.sha_length)

lemma drain_one: "drain [Chunk c] = Inr c"
  by simp

lemma small_steps:
  "status_or small_host msg prog args s = (Inr (), s\<lparr>trace := trace s @ [Run prog args]\<rparr>)"
  "get_dir_size small_host p s = (Inr 0, s\<lparr>trace := trace s @ [WalkDir p]\<rparr>)"
  "compute_output_hash small_host sample_codec p s =
     (Inr (OutputHash (show_ContentHash sample_codec small_hash)), s\<lparr>trace := trace s @ [OpenFile p]\<rparr>)"
  "read_file small_host p s = (Inr (as_bytes small_text), s\<lparr>trace := trace s @ [ReadFile p]\<rparr>)"
  "file_parse small_host p s = (Inr small_graph, s\<lparr>trace := trace s @ [ReadFile p]\<rparr>)"
  by (simp_all add: status_or_def get_dir_size_def compute_output_hash_def read_file_def file_parse_def op_defs run_command_def
      perform_def hash_file_drain drain_one small_parsed small_hashes del: drain.simps)

text \<open>
  Total correctness: from every state that satisfies \<open>I\<close> the operation succeeds with a value that
  satisfies \<open>P\<close> in a state that satisfies \<open>J\<close>.
\<close>

definition runs :: "('s \<Rightarrow> bool) \<Rightarrow> ('s, 'e, 'a) op \<Rightarrow> ('a \<Rightarrow> bool) \<Rightarrow> ('s \<Rightarrow> bool) \<Rightarrow> bool" where
  "runs I m P J \<longleftrightarrow> (\<forall>s. I s \<longrightarrow> (\<exists>a t. m s = (Inr a, t) \<and> P a \<and> J t))"

named_theorems run_intros \<open>operations that succeed\<close>

lemma runsD: "runs I m P J \<Longrightarrow> I s \<Longrightarrow> \<exists>a t. m s = (Inr a, t) \<and> P a \<and> J t"
  by (simp add: runs_def)

lemma runs_then: "runs I m P J \<Longrightarrow> (\<And>a. P a \<Longrightarrow> runs J (k a) Q K) \<Longrightarrow> runs I (and_then m k) Q K"
  unfolding runs_def and_then_def by fastforce

lemma runs_ret [run_intros]: "P a \<Longrightarrow> runs I (ret_ok a) P I"
  by (simp add: runs_def ret_ok_def)

lemma runs_weaken: "runs I m P J \<Longrightarrow> (\<And>t. J t \<Longrightarrow> K t) \<Longrightarrow> runs I m P K"
  unfolding runs_def by metis

text \<open>The state is the given one, apart from the calls made.\<close>

definition same_rest :: "'s sys_state_scheme \<Rightarrow> 's sys_state_scheme \<Rightarrow> bool" where
  "same_rest s0 t \<longleftrightarrow> sys_state.more t = sys_state.more s0"

lemma same_rest_trace [simp]: "same_rest s0 (t\<lparr>trace := tr\<rparr>) = same_rest s0 t" "same_rest s0 s0"
  by (simp_all add: same_rest_def)

lemma same_restD: "same_rest s0 t \<Longrightarrow> t = s0\<lparr>trace := trace t\<rparr>"
  by (simp add: same_rest_def)

abbreviation fresh :: "InMemoryBackend build_state \<Rightarrow> bool" where
  "fresh \<equiv> same_rest sample_build_state"

lemma fresh_remote: "fresh s \<longleftrightarrow> remote s = new_InMemoryBackend"
  by (cases s) (simp add: same_rest_def sample_build_state_def)

lemma small_runs [run_intros]:
  "runs (same_rest s0) (status_or small_host msg prog args) (\<lambda>_. True) (same_rest s0)"
  "runs (same_rest s0) (get_dir_size small_host p) (\<lambda>_. True) (same_rest s0)"
  "runs (same_rest s0) (compute_output_hash small_host sample_codec p) (\<lambda>h. h = OutputHash (show_ContentHash sample_codec small_hash)) (same_rest s0)"
  "runs (same_rest s0) (read_file small_host p) (\<lambda>d. d = as_bytes small_text) (same_rest s0)"
  "runs (same_rest s0) (file_parse small_host p) (\<lambda>g. g = small_graph) (same_rest s0)"
  "runs (same_rest s0) (attempt (get_dir_size small_host p)) (\<lambda>_. True) (same_rest s0)"
  "c \<noteq> CreateFile [] \<Longrightarrow> runs (same_rest s0) (io (sys_call small_host c)) (\<lambda>_. True) (same_rest s0)"
  "c \<noteq> CreateFile [] \<Longrightarrow> runs (same_rest s0) (ignore (sys_call small_host c)) (\<lambda>_. True) (same_rest s0)"
  by (simp_all add: runs_def small_steps small_call map_err_def ignore_def attempt_def)

lemma runs_perform [run_intros]:
  "(\<And>tr. \<exists>a. f tr = Inr a) \<Longrightarrow> runs (same_rest s0) (perform c f) (\<lambda>_. True) (same_rest s0)"
  "(\<And>tr. \<exists>a. g tr = Inr a) \<Longrightarrow> runs (same_rest s0) (io (perform c g)) (\<lambda>_. True) (same_rest s0)"
  by (auto simp: runs_def perform_def map_err_def split: sum.splits) (metis Inl_Inr_False)

lemma runs_pack [run_intros]:
  "runs fresh (pack small_host sample_codec src out) (\<lambda>a. artifact_hash a = OutputHash (show_ContentHash sample_codec small_hash)) fresh"
  unfolding pack_def Let_def by (rule runs_then, rule run_intros, (simp; fail)?)+ (rule run_intros, simp)

lemma runs_parts [run_intros]:
  "runs (same_rest s0) (choose_stage_dir small_host o' n) (\<lambda>_. True) (same_rest s0)"
  "runs fresh (solve_stage small_host req) (\<lambda>_. True) fresh"
  "runs fresh (client_resolve small_host sample_codec sample_server (BuildInputHash (show_InputHash sample_codec small_input)))
     (\<lambda>r. r = None) fresh"
  "parent_name st = None \<Longrightarrow> runs fresh (parent_override e small_host small_system pr st dir) (\<lambda>_. True) fresh"
proof -
  show "runs (same_rest s0) (choose_stage_dir small_host o' n) (\<lambda>_. True) (same_rest s0)"
    by (simp add: runs_def choose_stage_dir_def Let_def and_then_def exists_path_def perform_def attempt_def small_call
        ret_ok_def map_err_def)
  show "runs fresh (solve_stage small_host req) (\<lambda>_. True) fresh"
    unfolding solve_stage_def by (rule runs_then, rule run_intros, rule run_intros, simp)
  show "runs fresh (client_resolve small_host sample_codec sample_server (BuildInputHash (show_InputHash sample_codec small_input)))
     (\<lambda>r. r = None) fresh"
    by (simp add: runs_def fresh_remote client_resolve_def and_then_def unary_def fair_send [OF small_host_fair] handle_def
        rpc_resolve_input_hash_def parse_input_exact resolve_input_hash_def op_defs sample_server_def mem_run new_InMemoryBackend_def)
  show "parent_name st = None \<Longrightarrow> runs fresh (parent_override e small_host small_system pr st dir) (\<lambda>_. True) fresh"
    by (simp add: parent_override_def runs_ret)
qed

lemma runs_layer_metadata [run_intros]:
  "runs (same_rest s0) (layer_metadata small_host ih parent dir a)
     (\<lambda>m. lm_input_hash m = ih \<and> lm_output_hash m = artifact_hash a \<and> lm_parent_input_hash m = parent) (same_rest s0)"
  unfolding layer_metadata_def by (rule runs_then, rule run_intros, (simp; fail)?)+ (rule run_intros, simp)

lemma runs_publish:
  assumes "lm_input_hash meta = BuildInputHash (show_InputHash sample_codec small_input)"
    and "lm_output_hash meta = OutputHash (show_ContentHash sample_codec small_hash)" and "lm_parent_input_hash meta = None"
  shows "runs fresh (client_publish_layer small_host sample_codec sample_server a meta) (\<lambda>_. True) (\<lambda>_. True)"
  unfolding runs_def
proof (intro allI impI)
  fix s assume "fresh s"
  then have "can_publish sample_codec small_host sample_server s meta small_input small_hash None"
    using assms small_host_fair by (simp add: can_publish_def sample_server_def mem_empty fresh_remote)
  then obtain t where "client_publish_layer small_host sample_codec sample_server a meta s = (Inr (), t)"
    by (rule client_published [OF sample_laws])
  then show "\<exists>r t. client_publish_layer small_host sample_codec sample_server a meta s = (Inr r, t) \<and> True \<and> True" by blast
qed

lemma small_system_parts:
  "parse_call small_system = file_parse small_host" "hash_call small_system = compute_input_hash sample_codec"
  "solve_call small_system = solve_stage small_host" "pack_call small_system = pack small_host sample_codec"
  "resolve_call (store_client small_system) = client_resolve small_host sample_codec sample_server"
  "publish_call (store_client small_system) = client_publish_layer small_host sample_codec sample_server"
  "manifest_call (store_client small_system) = client_publish_manifest small_host sample_codec sample_server"
  by (simp_all add: new_BuildSystem_def GrpcStoreClient_def)

definition small_metas :: "build_progress \<Rightarrow> bool" where
  "small_metas pr \<longleftrightarrow> (\<exists>meta. layer_metas pr = [''base'' \<mapsto> meta] \<and>
     lm_input_hash meta = BuildInputHash (show_InputHash sample_codec small_input) \<and>
     lm_output_hash meta = OutputHash (show_ContentHash sample_codec small_hash) \<and> lm_parent_input_hash meta = None)"

lemma runs_small_stage: "runs fresh (build_stage e small_host small_system df small_stage new_progress) small_metas (\<lambda>_. True)"
proof -
  let ?ih = "BuildInputHash (show_InputHash sample_codec small_input)"
  have p: "parent_input new_progress small_stage = None" "parent_name small_stage = None"
    by (simp_all add: parent_input_def small_stage_def)
  have "runs fresh (build_missing e small_host small_system df small_stage ?ih new_progress) small_metas (\<lambda>_. True)"
    unfolding build_missing_def Let_def small_system_parts p
    apply (rule runs_then, rule run_intros)
    apply (rule runs_then, rule run_intros, simp)
    apply (rule runs_then, rule run_intros, simp)
    apply (rule runs_then, rule run_intros, simp add: p)
    apply (rule runs_then, rule run_intros)
    apply (rule runs_then, rule run_intros)
    apply (rule runs_then, rule run_intros)
    apply (rule runs_then, rule runs_publish, simp, simp, simp)
    apply (rule runs_ret)
    apply (auto simp: small_metas_def finish_stage_def new_progress_def small_stage_def)
    done
  then show ?thesis
    unfolding build_stage_def Let_def small_system_parts p small_hashes
    by (intro runs_then [OF runs_parts(3)]) simp
qed

lemma runs_manifest:
  assumes "small_metas pr" and "collect_layers f (layer_metas pr) 0 [''base''] = Inr ls"
    and "brm_layers m = ls" and "bi_dockerfile_hash (brm_build_metadata m) = show_ContentHash sample_codec small_hash"
  shows "runs (\<lambda>_. True) (client_publish_manifest small_host sample_codec sample_server m) (\<lambda>_. True) (\<lambda>_. True)"
proof -
  obtain l where l: "ls = [l]" "bml_input_hash l = BuildInputHash (show_InputHash sample_codec small_input)"
    "bml_output_hash l = OutputHash (show_ContentHash sample_codec small_hash)" "bml_parent_input_hash l = None"
    using assms(1,2) by (auto simp: small_metas_def)
  have "\<exists>mf. \<forall>st :: InMemoryBackend. rust_manifest sample_codec (manifest_message m) st = (Inr mf, st)"
    using assms(3,4) by (simp add: l rust_manifest_def rust_layer_def unwrap_def manifest_message_def layer_message_def
        parse_content_exact op_defs)
  then obtain mf where mf: "rust_manifest sample_codec (manifest_message m) st = (Inr mf, st)" for st :: InMemoryBackend by blast
  have r: "\<exists>h st'. rpc_publish_manifest sample_codec memory_backend ts uuid (Some (manifest_message m)) st = (Inr h, st')" for ts uuid st
    using mf [of st] by (simp add: rpc_publish_manifest_def publish_manifest_def op_defs Let_def mem_defs)
  show ?thesis
    unfolding runs_def
  proof (intro allI impI)
    fix s :: "InMemoryBackend build_state"
    obtain h st' where "rpc_publish_manifest sample_codec memory_backend 7 ''v'' (Some (manifest_message m)) (remote s) = (Inr h, st')"
      using r by blast
    then show "\<exists>a t. client_publish_manifest small_host sample_codec sample_server m s = (Inr a, t) \<and> True \<and> True"
      by (simp add: client_publish_manifest_def unary_def fair_send [OF small_host_fair] handle_def sample_server_def)
  qed
qed

lemma runs_small_build:
  "runs fresh (build small_host sample_codec small_system ''/f'') (\<lambda>_. True) (\<lambda>_. True)"
  unfolding build_def build_with_def small_system_parts
proof (rule runs_then, rule run_intros, rule runs_then, rule run_intros, rule runs_then)
  fix g d assume g: "g = small_graph" "d = as_bytes small_text"
  let ?e = "BuildError ''Parent result missing''" and ?f = "\<lambda>name. BuildError (''Missing metadata for layer '' @ name)"
  show "runs fresh (build_stages ?e small_host small_system ''/f'' (stages g) new_progress) small_metas (\<lambda>_. True)"
    unfolding g small_graph_def
    by (simp del: build_stages.simps(2) add: build_stages.simps(2) runs_then [OF runs_small_stage] runs_ret)
  fix pr assume pr: "small_metas pr"
  then obtain ls where ls: "collect_layers ?f (layer_metas pr) 0 [''base''] = Inr ls" by (auto simp: small_metas_def)
  have any: "runs (\<lambda>_. True) (make_manifest small_host (hex_encode sample_codec (sha256 sample_codec d)) ls (workload_meta (release_meta g)))
      (\<lambda>m. brm_layers m = ls \<and> bi_dockerfile_hash (brm_build_metadata m) = show_ContentHash sample_codec small_hash) (\<lambda>_. True)"
    by (auto simp: runs_def make_manifest_def op_defs perform_def g small_hashes)
  show "runs (\<lambda>_. True)
     (and_then (lift_res (collect_layers ?f (layer_metas pr) 0 (layer_order (release_meta g)))) (\<lambda>ls.
      and_then (make_manifest small_host (hex_encode sample_codec (sha256 sample_codec d)) ls (workload_meta (release_meta g))) (\<lambda>manifest.
      and_then (client_publish_manifest small_host sample_codec sample_server manifest) (\<lambda>_. ret_ok manifest))))
     (\<lambda>_. True) (\<lambda>_. True)"
  proof (rule runs_then [of _ _ "\<lambda>l. l = ls"])
    show "runs (\<lambda>_. True) (lift_res (collect_layers ?f (layer_metas pr) 0 (layer_order (release_meta g)))) (\<lambda>l. l = ls) (\<lambda>_. True)"
      using ls by (simp add: runs_def lift_res_def g small_graph_def)
  qed (auto intro!: runs_then [OF any] runs_then [OF runs_manifest [OF pr ls]] runs_ret)
qed

theorem build_publishes_release_witness:
  "\<exists>m t. build small_host sample_codec small_system ''/f'' sample_build_state = (Inr m, t) \<and>
     map bml_name (brm_layers m) = [''base''] \<and>
     (\<forall>l \<in> set (brm_layers m). bml_input_hash l = compute_input_hash sample_codec small_stage None)"
proof -
  obtain m t where b: "build small_host sample_codec small_system ''/f'' sample_build_state = (Inr m, t)"
    using runsD [OF runs_small_build, of sample_build_state] by auto
  have c: "layer_chains Map.empty Map.empty (stages small_graph) = [''base'' \<mapsto> [small_stage]]"
    by (simp add: small_graph_def small_stage_def)
  from build_publishes_release [OF small_host_fair b]
  obtain g where g: "parse_text small_text = Inr g" "map bml_name (brm_layers m) = layer_order (release_meta g)"
    and l: "\<forall>l \<in> set (brm_layers m). \<exists>chain. layer_chains Map.empty Map.empty (stages g) (bml_name l) = Some chain \<and>
      Some (bml_input_hash l) = chain_hash sample_codec None chain \<and> bml_parent_input_hash l = chain_hash sample_codec None (butlast chain)"
    unfolding small_host_sels by blast
  have s: "g = small_graph" using g(1) small_parsed by simp
  then have n: "map bml_name (brm_layers m) = [''base'']" using g(2) by (simp add: small_graph_def)
  have "bml_input_hash l = compute_input_hash sample_codec small_stage None" if "l \<in> set (brm_layers m)" for l
    using l that unfolding s c by (auto split: if_splits)
  with b n show ?thesis by (intro exI conjI) auto
qed

end
