(* ===== verification/Build_Cache.thy ===== *)
theory Build_Cache
  imports Build_Run
begin

text \<open>
  Cache hits. When the store has registered the input hash of a stage, the orchestrator pulls the layer
  instead of building it, and passes the empty path as a dummy target. The client of \<^verbatim>\<open>store.rs\<close>
  writes what it pulls to a file, so that a build with a cached stage fails. The test doubles of
  \<^verbatim>\<open>mocks.rs\<close>, with which the repository tests caching, ignore the target.
\<close>

section \<open>Rebuilding with the store service\<close>

text \<open>
  C31. With the client of the store service a cache hit makes the build fail: when the store has
  registered the input hash of the first stage of a Dockerfile, every build of it ends with an error.
\<close>

theorem cache_hit_fails:
  assumes "store_codec x" and "fair_host os" and "backend srv = memory_backend"
    and "file_text os dockerfile (trace s) = Inr content" and "parse_text content = Inr g" and "stages g = st # rest"
    and "input_text (compute_input_hash x st None) = show_InputHash x i"
    and "map_of (mem_meta (remote s)) (index_key x i) = Some (as_bytes (show_ContentHash x h))"
  shows "\<exists>e. fst (build os x (new_BuildSystem os x srv temp_dir pid) dockerfile s) = Inl e"
proof (rule ccontr)
  let ?o = "new_BuildSystem os x srv temp_dir pid" and ?e = "BuildError ''Parent result missing''"
  have parts: "parse_call ?o = file_parse os" "hash_call ?o = compute_input_hash x"
    "resolve_call (store_client ?o) = client_resolve os x srv"
    by (simp_all add: new_BuildSystem_def GrpcStoreClient_def)
  assume "\<nexists>e. fst (build os x ?o dockerfile s) = Inl e"
  then obtain m t where "build os x ?o dockerfile s = (Inr m, t)" by (cases "build os x ?o dockerfile s", cases "fst (build os x ?o dockerfile s)") auto
  then obtain d s2 pr s3 where r: "read_file os dockerfile (s\<lparr>trace := trace s @ [ReadFile dockerfile]\<rparr>) = (Inr d, s2)"
    and b: "build_stages ?e os ?o dockerfile (st # rest) new_progress s2 = (Inr pr, s3)"
    using assms(4-6) unfolding build_def build_with_def parts
    by (auto simp: and_then_Inr file_parse_def perform_def lift_res_def)
  obtain pr1 s4 where b1: "build_stage ?e os ?o dockerfile st new_progress s2 = (Inr pr1, s4)"
    using b by (auto simp: and_then_Inr)
  have rem: "remote s2 = remote s" using r by (auto simp: read_file_def and_then_Inr perform_def lift_res_def)
  have "parent_name st = None"
    using parsed_graph_valid [OF assms(5)] assms(6) by (cases "parent_name st") (auto simp: valid_graph_def)
  then have ih: "hash_call ?o st (parent_input new_progress st) = BuildInputHash (show_InputHash x i)"
    using assms(7) by (simp add: parts parent_input_def BuildInputHash.expand)
  let ?s3 = "s2\<lparr>trace := trace s2 @ [Rpc ''ResolveInputHash'']\<rparr>" and ?oh = "OutputHash (show_ContentHash x h)"
  have found: "resolve_call (store_client ?o) (BuildInputHash (show_InputHash x i)) s2 = (Inr (Some ?oh), ?s3)"
    using client_finds [OF assms(1-3)] assms(8) rem parts(3) by metis
  obtain e1 w where "pull_call (store_client ?o) ?oh BuildCache [] ?s3 = (Inl e1, w)"
    using system_never_hits [OF assms(2)] unfolding never_hits_def by blast
  with found have "build_stage ?e os ?o dockerfile st new_progress s2 = (Inl e1, w)"
    unfolding build_stage_def Let_def ih and_then_def by simp
  with b1 show False by simp
qed

theorem cache_hit_fails_witness:
  "\<exists>e. fst (build small_host sample_codec small_system ''/f''
     (sample_build_state\<lparr>remote := new_InMemoryBackend\<lparr>mem_meta :=
        [(index_key sample_codec small_input, as_bytes (show_ContentHash sample_codec small_hash))]\<rparr>\<rparr>)) = Inl e"
  by (rule cache_hit_fails [OF sample_laws small_host_fair, where content = small_text and g = small_graph and st = small_stage
        and rest = "[]" and i = small_input and h = small_hash])
    (simp_all add: sample_server_def small_parsed small_hashes, simp add: small_graph_def)

end
