(* ===== verification/Local_Json.thy ===== *)
theory Local_Json
  imports Layer_Safety Host_Os
begin

text \<open>
  The backend that keeps the store in files, \<^verbatim>\<open>fs-storage/src/backends/local_json.rs\<close>. The disk is a
  map from paths to directories and files; every call of the file system may fail with an I/O error
  at any time, and a failing write leaves a part of its data behind. An upload reads its input to the
  end before it writes, since nobody sees how far a failed upload has read; a blob that was opened is
  read without faults. Symbolic links, permissions and concurrent processes are not modelled.

  The backend implements the contract of \<open>storage_backend\<close> whatever calls fail: blobs and documents
  are the files at their paths, files appear by renaming only, and what a failure leaves behind is in
  the directory for temporary files, which a restart empties.
\<close>

section \<open>The file system\<close>

datatype node = Dir | File bytes

datatype io_error = NotFoundKind | OtherKind string

record disk =
  nodes :: "(string list \<times> node) list"
  tick :: nat

text \<open>The faults of the disk by the number of the call, what a failing write leaves, and fresh names.\<close>

record disk_env =
  fault :: "nat \<Rightarrow> string option"
  partial :: "nat \<Rightarrow> nat"
  uuids :: "nat \<Rightarrow> string"

definition io_text :: "io_error \<Rightarrow> string" where
  "io_text e = (case e of NotFoundKind \<Rightarrow> ''No such file or directory (os error 2)'' | OtherKind msg \<Rightarrow> msg)"

text \<open>The components of a path, and the path the kernel arrives at.\<close>

definition path_comps :: "string \<Rightarrow> string list" where
  "path_comps path = filter (\<lambda>c. c \<noteq> [] \<and> c \<noteq> ''.'') (split_char CHR ''/'' path)"

definition walk_comps :: "string list \<Rightarrow> string list" where
  "walk_comps cs = foldl (\<lambda>p c. if c = ''..'' then butlast p else p @ [c]) [] cs"

definition canon :: "string \<Rightarrow> string list" where
  "canon path = walk_comps (path_comps path)"

definition canon_parent :: "string \<Rightarrow> string list" where
  "canon_parent path = walk_comps (butlast (path_comps path))"

definition node_at :: "disk \<Rightarrow> string list \<Rightarrow> node option" where
  "node_at s p = (if p = [] then Some Dir else map_of (nodes s) p)"

definition set_node :: "string list \<Rightarrow> node \<Rightarrow> disk \<Rightarrow> disk" where
  "set_node p n s = s\<lparr>nodes := AList.update p n (nodes s)\<rparr>"

definition del_node :: "string list \<Rightarrow> disk \<Rightarrow> disk" where
  "del_node p s = s\<lparr>nodes := AList.delete p (nodes s)\<rparr>"

definition is_file :: "node \<Rightarrow> bool" where
  "is_file n = (case n of File d \<Rightarrow> True | Dir \<Rightarrow> False)"

definition through_file :: "disk \<Rightarrow> string list \<Rightarrow> bool" where
  "through_file s p = list_ex (\<lambda>k. case node_at s (take k p) of Some (File d) \<Rightarrow> True | _ \<Rightarrow> False) [0..<length p]"

definition fs_lookup :: "disk \<Rightarrow> string list \<Rightarrow> io_error + node" where
  "fs_lookup s p =
     (if through_file s p then Inl (OtherKind ''Not a directory'')
      else case node_at s p of None \<Rightarrow> Inl NotFoundKind | Some n \<Rightarrow> Inr n)"

definition fs_call :: "disk_env \<Rightarrow> (disk, io_error, 'a) op \<Rightarrow> (disk, io_error, 'a) op" where
  "fs_call env m s =
     (let s' = s\<lparr>tick := Suc (tick s)\<rparr>
      in case fault env (tick s) of Some e \<Rightarrow> (Inl (OtherKind e), s') | None \<Rightarrow> m s')"

definition fs_metadata :: "disk_env \<Rightarrow> string \<Rightarrow> (disk, io_error, node) op" where
  "fs_metadata env path = fs_call env (\<lambda>s. (fs_lookup s (canon path), s))"

definition fs_mkdir :: "disk_env \<Rightarrow> string list \<Rightarrow> (disk, io_error, unit) op" where
  "fs_mkdir env p = fs_call env (\<lambda>s.
     case node_at s p of
       Some Dir \<Rightarrow> (Inr (), s)
     | Some (File d) \<Rightarrow> (Inl (OtherKind ''File exists''), s)
     | None \<Rightarrow> (Inr (), set_node p Dir s))"

fun mkdirs :: "disk_env \<Rightarrow> string list \<Rightarrow> string list \<Rightarrow> (disk, io_error, unit) op" where
  "mkdirs env pre [] = ret_ok ()"
| "mkdirs env pre (c # cs) = and_then (fs_mkdir env (pre @ [c])) (\<lambda>_. mkdirs env (pre @ [c]) cs)"

definition create_dir_all :: "disk_env \<Rightarrow> string list \<Rightarrow> (disk, io_error, unit) op" where
  "create_dir_all env p = mkdirs env [] p"

definition into_dir :: "disk \<Rightarrow> string list \<Rightarrow> io_error + unit" where
  "into_dir s p =
     (case fs_lookup s (butlast p) of
        Inl e \<Rightarrow> Inl e
      | Inr (File d) \<Rightarrow> Inl (OtherKind ''Not a directory'')
      | Inr Dir \<Rightarrow> (case node_at s p of Some Dir \<Rightarrow> Inl (OtherKind ''Is a directory'') | _ \<Rightarrow> Inr ()))"

definition fs_create :: "disk_env \<Rightarrow> string \<Rightarrow> (disk, io_error, unit) op" where
  "fs_create env path = fs_call env (\<lambda>s.
     case into_dir s (canon path) of Inl e \<Rightarrow> (Inl e, s) | Inr u \<Rightarrow> (Inr (), set_node (canon path) (File []) s))"

text \<open>Writing to the file that was just created.\<close>

definition fs_write :: "disk_env \<Rightarrow> string \<Rightarrow> bytes \<Rightarrow> (disk, io_error, unit) op" where
  "fs_write env path data s =
     (let s' = s\<lparr>tick := Suc (tick s)\<rparr>
      in case fault env (tick s) of
           Some e \<Rightarrow> (Inl (OtherKind e), set_node (canon path) (File (take (partial env (tick s)) data)) s')
         | None \<Rightarrow> (Inr (), set_node (canon path) (File data) s'))"

definition fs_sync :: "disk_env \<Rightarrow> (disk, io_error, unit) op" where
  "fs_sync env = fs_call env (\<lambda>s. (Inr (), s))"

text \<open>Renaming, for files only: the backend renames nothing else.\<close>

definition fs_rename :: "disk_env \<Rightarrow> string \<Rightarrow> string \<Rightarrow> (disk, io_error, unit) op" where
  "fs_rename env old new = fs_call env (\<lambda>s.
     case fs_lookup s (canon old) of
       Inl e \<Rightarrow> (Inl e, s)
     | Inr Dir \<Rightarrow> (Inl (OtherKind ''Is a directory''), s)
     | Inr (File d) \<Rightarrow>
         (case into_dir s (canon new) of
            Inl e \<Rightarrow> (Inl e, s)
          | Inr u \<Rightarrow> (Inr (), set_node (canon new) (File d) (del_node (canon old) s))))"

definition fs_remove_file :: "disk_env \<Rightarrow> string \<Rightarrow> (disk, io_error, unit) op" where
  "fs_remove_file env path = fs_call env (\<lambda>s.
     case fs_lookup s (canon path) of
       Inl e \<Rightarrow> (Inl e, s)
     | Inr Dir \<Rightarrow> (Inl (OtherKind ''Is a directory''), s)
     | Inr (File d) \<Rightarrow> (Inr (), del_node (canon path) s))"

definition fs_read :: "disk_env \<Rightarrow> string \<Rightarrow> (disk, io_error, bytes) op" where
  "fs_read env path = fs_call env (\<lambda>s.
     (case fs_lookup s (canon path) of
        Inl e \<Rightarrow> Inl e
      | Inr Dir \<Rightarrow> Inl (OtherKind ''Is a directory'')
      | Inr (File d) \<Rightarrow> Inr d, s))"

text \<open>A directory can be opened like a file; reading from it fails.\<close>

definition fs_open :: "disk_env \<Rightarrow> string \<Rightarrow> (disk, io_error, reader) op" where
  "fs_open env path = fs_call env (\<lambda>s.
     (case fs_lookup s (canon path) of
        Inl e \<Rightarrow> Inl e
      | Inr Dir \<Rightarrow> Inr \<lparr>events = [read_event.Failure ''Is a directory'']\<rparr>
      | Inr (File d) \<Rightarrow> Inr \<lparr>events = [Chunk d]\<rparr>, s))"

text \<open>The entries of a directory, in the order of the model; nothing depends on it.\<close>

definition dir_list :: "disk \<Rightarrow> string list \<Rightarrow> (string \<times> node) list" where
  "dir_list s p = map (\<lambda>(q, n). (last q, n)) (filter (\<lambda>(q, n). q \<noteq> [] \<and> butlast q = p) (nodes s))"

definition fs_read_dir :: "disk_env \<Rightarrow> string \<Rightarrow> (disk, io_error, (string \<times> node) list) op" where
  "fs_read_dir env path = fs_call env (\<lambda>s.
     (case fs_lookup s (canon path) of
        Inl e \<Rightarrow> Inl e
      | Inr (File d) \<Rightarrow> Inl (OtherKind ''Not a directory'')
      | Inr Dir \<Rightarrow> Inr (dir_list s (canon path)), s))"

section \<open>The backend\<close>

definition blob_path :: "store_ext \<Rightarrow> string \<Rightarrow> ContentHash \<Rightarrow> ArtifactFormat \<Rightarrow> string" where
  "blob_path x root h f =
     (let hash_str = show_ContentHash x h; pre = take 2 hash_str; suf = drop 2 hash_str
      in path_join (path_join (path_join root ''objects'') pre) (suf @ ''.'' @ extension f))"

definition get_meta_file_path :: "string \<Rightarrow> string \<Rightarrow> string" where
  "get_meta_file_path root key =
     (case strip_prefix key ''manifests/'' of
        Some name \<Rightarrow> path_join (path_join root ''manifests'') (name @ ''.json'')
      | None \<Rightarrow> case strip_prefix key ''tags/'' of
        Some name \<Rightarrow> path_join (path_join (path_join root ''refs'') ''tags'') name
      | None \<Rightarrow> case strip_prefix key ''layers/'' of
        Some name \<Rightarrow> path_join (path_join (path_join root ''meta'') ''layers'') (name @ ''.json'')
      | None \<Rightarrow> case strip_prefix key ''builds/'' of
        Some name \<Rightarrow> path_join (path_join (path_join root ''meta'') ''builds'') (name @ ''.json'')
      | None \<Rightarrow> case strip_prefix key ''index/'' of
        Some name \<Rightarrow> path_join (path_join (path_join root ''meta'') ''index'') name
      | None \<Rightarrow> path_join (path_join root ''meta'') key)"

text \<open>The conversion of the question mark operator, and the arms that treat a missing file apart.\<close>

abbreviation store_io :: "(disk, io_error, 'a) op \<Rightarrow> (disk, StoreError, 'a) op" where
  "store_io m \<equiv> map_err (\<lambda>e. Io (io_text e)) m"

definition or_missing :: "'a \<Rightarrow> (disk, io_error, 'a) op \<Rightarrow> (disk, StoreError, 'a) op" where
  "or_missing dflt m =
     and_then (attempt m) (\<lambda>r. case r of
        Inr a \<Rightarrow> ret_ok a
      | Inl NotFoundKind \<Rightarrow> ret_ok dflt
      | Inl e \<Rightarrow> ret_err (Io (io_text e)))"

text \<open>The directories that the constructor makes.\<close>

definition store_dirs :: "string \<Rightarrow> string list" where
  "store_dirs root =
     [path_join root ''objects'', path_join root ''manifests'',
      path_join (path_join root ''meta'') ''layers'', path_join (path_join root ''meta'') ''index'',
      path_join (path_join root ''meta'') ''builds'', path_join (path_join root ''refs'') ''tags'', path_join root ''tmp'']"

fun make_dirs :: "disk_env \<Rightarrow> string list \<Rightarrow> (disk, StoreError, unit) op" where
  "make_dirs env [] = ret_ok ()"
| "make_dirs env (d # ds) = and_then (store_io (create_dir_all env (canon d))) (\<lambda>_. make_dirs env ds)"

text \<open>Removing what is left of interrupted uploads; the loop ends at the first error.\<close>

fun clean_entries :: "disk_env \<Rightarrow> string \<Rightarrow> (string \<times> node) list \<Rightarrow> disk \<Rightarrow> disk" where
  "clean_entries env dir [] s = s"
| "clean_entries env dir ((name, n) # entries) s =
     (case fs_sync env s of
        (Inl e, s1) \<Rightarrow> s1
      | (Inr u, s1) \<Rightarrow>
          (case fs_sync env s1 of
             (Inl e, s2) \<Rightarrow> clean_entries env dir entries s2
           | (Inr u, s2) \<Rightarrow>
               clean_entries env dir entries (if is_file n then snd (fs_remove_file env (path_join dir name) s2) else s2)))"

definition new_LocalJsonBackend :: "disk_env \<Rightarrow> string \<Rightarrow> (disk, StoreError, unit) op" where
  "new_LocalJsonBackend env root =
     and_then (make_dirs env (store_dirs root)) (\<lambda>_.
     let tmp_dir = path_join root ''tmp''
     in (\<lambda>s. case fs_read_dir env tmp_dir s of
               (Inl e, s1) \<Rightarrow> (Inr (), s1)
             | (Inr entries, s1) \<Rightarrow> (Inr (), clean_entries env tmp_dir entries s1)))"

definition local_has_blob :: "disk_env \<Rightarrow> store_ext \<Rightarrow> string \<Rightarrow> ContentHash \<Rightarrow> ArtifactFormat \<Rightarrow> (disk, StoreError, bool) op" where
  "local_has_blob env x root h f =
     and_then (or_missing Dir (fs_metadata env (blob_path x root h f))) (\<lambda>m. ret_ok (is_file m))"

definition new_tmp :: "disk_env \<Rightarrow> string \<Rightarrow> string \<Rightarrow> (disk, StoreError, string) op" where
  "new_tmp env root final =
     and_then (store_io (create_dir_all env (canon_parent final))) (\<lambda>_.
     (\<lambda>s. let tmp = path_join (path_join root ''tmp'') (uuids env (tick s))
          in and_then (store_io (fs_create env tmp)) (\<lambda>_. ret_ok tmp) s))"

definition move_tmp :: "disk_env \<Rightarrow> string \<Rightarrow> string \<Rightarrow> (disk, StoreError, unit) op" where
  "move_tmp env tmp final =
     and_then (attempt (fs_rename env tmp final)) (\<lambda>r. case r of
        Inr u \<Rightarrow> ret_ok ()
      | Inl e \<Rightarrow> and_then (ignore (fs_remove_file env tmp)) (\<lambda>_. ret_err (Io (io_text e))))"

definition fill_tmp :: "disk_env \<Rightarrow> string \<Rightarrow> string \<Rightarrow> bytes \<Rightarrow> (disk, StoreError, unit) op" where
  "fill_tmp env tmp final data =
     and_then (store_io (fs_write env tmp data)) (\<lambda>_.
     and_then (store_io (fs_sync env)) (\<lambda>_.
     move_tmp env tmp final))"

definition local_put_blob ::
  "disk_env \<Rightarrow> store_ext \<Rightarrow> string \<Rightarrow> ContentHash \<Rightarrow> ArtifactFormat \<Rightarrow> HashingReader \<Rightarrow> disk \<Rightarrow>
     (StoreError + unit) \<times> HashingReader \<times> disk" where
  "local_put_blob env x root h f hr s =
     (let final = blob_path x root h f
      in case fs_metadata env final s of
           (Inr n, s0) \<Rightarrow> (Inr (), hr, s0)
         | (Inl e0, s0) \<Rightarrow>
             (case new_tmp env root final s0 of
                (Inl e, s1) \<Rightarrow> (Inl e, hr, s1)
              | (Inr tmp, s1) \<Rightarrow>
                  (case copy_all [] hr of
                     (Inl e, hr') \<Rightarrow>
                       (Inl e, hr', set_node (canon tmp)
                          (File (take (partial env (tick s1)) (drop (length (hasher hr)) (hasher hr')))) s1)
                   | (Inr d, hr') \<Rightarrow> (case fill_tmp env tmp final d s1 of (r, s2) \<Rightarrow> (r, hr', s2)))))"

definition local_get_blob :: "disk_env \<Rightarrow> store_ext \<Rightarrow> string \<Rightarrow> ContentHash \<Rightarrow> ArtifactFormat \<Rightarrow> (disk, StoreError, reader) op" where
  "local_get_blob env x root h f =
     map_err (\<lambda>e. case e of NotFoundKind \<Rightarrow> NotFound | _ \<Rightarrow> Io (io_text e)) (fs_open env (blob_path x root h f))"

definition local_delete_blob :: "disk_env \<Rightarrow> store_ext \<Rightarrow> string \<Rightarrow> ContentHash \<Rightarrow> ArtifactFormat \<Rightarrow> (disk, StoreError, unit) op" where
  "local_delete_blob env x root h f = or_missing () (fs_remove_file env (blob_path x root h f))"

definition local_put_meta :: "disk_env \<Rightarrow> string \<Rightarrow> string \<Rightarrow> bytes \<Rightarrow> (disk, StoreError, unit) op" where
  "local_put_meta env root key v =
     (let final = get_meta_file_path root key
      in and_then (new_tmp env root final) (\<lambda>tmp. fill_tmp env tmp final v))"

definition local_get_meta :: "disk_env \<Rightarrow> string \<Rightarrow> string \<Rightarrow> (disk, StoreError, bytes option) op" where
  "local_get_meta env root key =
     or_missing None (\<lambda>s. case fs_read env (get_meta_file_path root key) s of (r, s') \<Rightarrow> (case r of Inl e \<Rightarrow> Inl e | Inr d \<Rightarrow> Inr (Some d), s'))"

definition list_dir :: "string \<Rightarrow> string \<Rightarrow> string" where
  "list_dir root pre =
     (if pre = ''manifests'' \<or> starts_with pre ''manifests/'' then path_join root ''manifests''
      else if pre = ''tags'' \<or> starts_with pre ''tags/'' then path_join (path_join root ''refs'') ''tags''
      else path_join (path_join root ''meta'') pre)"

definition entry_key :: "string \<Rightarrow> string \<Rightarrow> string" where
  "entry_key pre file_name =
     (let name = (case strip_suffix file_name ''.json'' of Some n \<Rightarrow> n | None \<Rightarrow> file_name)
      in if starts_with pre ''manifests'' then ''manifests/'' @ name
         else if starts_with pre ''tags'' then ''tags/'' @ name
         else trim_end_matches CHR ''/'' pre @ ''/'' @ name)"

fun list_entries :: "disk_env \<Rightarrow> string \<Rightarrow> (string \<times> node) list \<Rightarrow> (disk, StoreError, string list) op" where
  "list_entries env pre [] = and_then (store_io (fs_sync env)) (\<lambda>_. ret_ok [])"
| "list_entries env pre ((file_name, n) # entries) =
     and_then (store_io (fs_sync env)) (\<lambda>_.
     and_then (store_io (fs_sync env)) (\<lambda>_.
     and_then (list_entries env pre entries) (\<lambda>keys.
     ret_ok (if is_file n then entry_key pre file_name # keys else keys))))"

definition local_list_meta :: "disk_env \<Rightarrow> string \<Rightarrow> string \<Rightarrow> (disk, StoreError, string list) op" where
  "local_list_meta env root pre =
     and_then (attempt (fs_read_dir env (list_dir root pre))) (\<lambda>r. case r of
        Inl NotFoundKind \<Rightarrow> ret_ok []
      | Inl e \<Rightarrow> ret_err (Io (io_text e))
      | Inr entries \<Rightarrow> list_entries env pre entries)"

definition local_delete_meta :: "disk_env \<Rightarrow> string \<Rightarrow> string \<Rightarrow> (disk, StoreError, unit) op" where
  "local_delete_meta env root key = or_missing () (fs_remove_file env (get_meta_file_path root key))"

definition local_backend :: "disk_env \<Rightarrow> store_ext \<Rightarrow> string \<Rightarrow> disk StorageBackend" where
  "local_backend env x root =
     \<lparr>has_blob = local_has_blob env x root, put_blob = local_put_blob env x root, get_blob = local_get_blob env x root,
      delete_blob = local_delete_blob env x root, put_meta = local_put_meta env root, get_meta = local_get_meta env root,
      list_meta = local_list_meta env root, delete_meta = local_delete_meta env root\<rparr>"

section \<open>Paths of the store\<close>

definition plain :: "string \<Rightarrow> bool" where
  "plain n \<longleftrightarrow> n \<noteq> [] \<and> n \<noteq> ''.'' \<and> n \<noteq> ''..'' \<and> CHR ''/'' \<notin> set n"

lemma split_char_app: "split_char c (a @ c # b) = split_char c a @ split_char c b"
proof (induction a)
  case (Cons y a)
  obtain w ws where "split_char c a = w # ws" by (cases "split_char c a") auto
  with Cons show ?case by simp
qed simp

lemma path_comps_app: "path_comps (a @ CHR ''/'' # b) = path_comps a @ path_comps b"
  by (simp add: path_comps_def split_char_app)

lemma path_comps_Nil [simp]: "path_comps [] = []"
  by (simp add: path_comps_def)

lemma path_comps_plain: "plain n \<Longrightarrow> path_comps n = [n]"
  by (simp add: path_comps_def plain_def split_char_id)

lemma path_comps_join:
  assumes "plain n"
  shows "path_comps (path_join base n) = path_comps base @ [n]"
proof -
  have n: "\<not> prefix ''/'' n" using assms by (auto simp: plain_def prefix_def)
  note n = n path_comps_plain [OF assms]
  show ?thesis
  proof (cases "suffix ''/'' base")
    case True
    then obtain b where b: "base = b @ [CHR ''/'']" by (auto simp: suffix_def)
    have "path_comps base = path_comps b" using path_comps_app [of b "[]"] unfolding b by simp
    moreover have "path_join base n = b @ CHR ''/'' # n"
      using n(1) True unfolding path_join_def starts_with_def ends_with_def b by simp
    ultimately show ?thesis using path_comps_app [of b n] n(2) by simp
  next
    case False
    have "path_join base n = (if base = [] then n else base @ CHR ''/'' # n)"
      using n(1) False by (simp add: path_join_def starts_with_def ends_with_def)
    then show ?thesis using path_comps_app [of base n] n(2) by simp
  qed
qed

lemma canon_join: "plain n \<Longrightarrow> canon (path_join base n) = canon base @ [n]"
  by (simp add: canon_def walk_comps_def path_comps_join) (simp add: plain_def)

lemma canon_parent_join: "plain n \<Longrightarrow> canon_parent (path_join base n) = canon base"
  by (simp add: canon_parent_def canon_def path_comps_join)

lemma plain_names [simp]:
  "plain ''objects''" "plain ''manifests''" "plain ''meta''" "plain ''layers''" "plain ''index''" "plain ''builds''"
  "plain ''refs''" "plain ''tags''" "plain ''tmp''"
  by (simp_all add: plain_def)

lemma plain_json: "plain n \<Longrightarrow> plain (n @ ''.json'')"
  by (auto simp: plain_def)

text \<open>The directory of each section of the key space, and the name of the file of a key in it.\<close>

definition section_dir :: "string \<Rightarrow> string list" where
  "section_dir sec =
     (if sec = ''manifests/'' then [''manifests''] else if sec = ''tags/'' then [''refs'', ''tags'']
      else [''meta'', butlast sec])"

definition key_file :: "string \<Rightarrow> string \<Rightarrow> string" where
  "key_file sec name = (if sec = ''tags/'' \<or> sec = ''index/'' then name else name @ ''.json'')"

definition name_ok :: "string \<Rightarrow> string \<Rightarrow> bool" where
  "name_ok sec name \<longleftrightarrow> plain name \<and> (sec = ''tags/'' \<or> sec = ''index/'' \<longrightarrow> \<not> suffix ''.json'' name)"

text \<open>The keys under which a document is found again, also by listing its section.\<close>

definition local_key :: "string \<Rightarrow> bool" where
  "local_key k \<longleftrightarrow> list_ex (\<lambda>sec. case strip_prefix k sec of None \<Rightarrow> False | Some name \<Rightarrow> name_ok sec name) meta_sections"

lemma local_keyE:
  assumes "local_key k"
  obtains sec name where "sec \<in> set meta_sections" "k = sec @ name" "name_ok sec name"
  using assms by (auto simp: local_key_def list_ex_iff strip_prefix_Some split: option.splits)

lemma local_keyI: "sec \<in> set meta_sections \<Longrightarrow> name_ok sec name \<Longrightarrow> local_key (sec @ name)"
  by (auto simp: local_key_def list_ex_iff intro!: bexI [of _ sec])

lemma section_cases:
  assumes "sec \<in> set meta_sections"
  obtains "sec = ''index/''" | "sec = ''layers/''" | "sec = ''builds/''" | "sec = ''manifests/''" | "sec = ''tags/''"
proof -
  have "sec = ''index/'' \<or> sec = ''layers/'' \<or> sec = ''builds/'' \<or> sec = ''manifests/'' \<or> sec = ''tags/''"
    using assms by (simp add: meta_sections_def)
  then show thesis by (elim disjE) (erule that)+
qed

lemma key_file_plain: "name_ok sec name \<Longrightarrow> plain (key_file sec name)"
  by (auto simp: name_ok_def key_file_def plain_json)

lemma key_path:
  assumes "sec \<in> set meta_sections" and "name_ok sec name"
  shows "canon (get_meta_file_path root (sec @ name)) = canon root @ section_dir sec @ [key_file sec name]"
    and "canon_parent (get_meta_file_path root (sec @ name)) = canon root @ section_dir sec"
proof -
  have "canon (get_meta_file_path root (sec @ name)) = canon root @ section_dir sec @ [key_file sec name] \<and>
      canon_parent (get_meta_file_path root (sec @ name)) = canon root @ section_dir sec"
    using assms(1) key_file_plain [OF assms(2)]
    by (cases sec rule: section_cases)
      (simp_all add: get_meta_file_path_def strip_prefix_def key_file_def section_dir_def canon_join canon_parent_join)
  then show "canon (get_meta_file_path root (sec @ name)) = canon root @ section_dir sec @ [key_file sec name]"
    "canon_parent (get_meta_file_path root (sec @ name)) = canon root @ section_dir sec" by blast+
qed

lemma canon_join_slash: "plain n \<Longrightarrow> canon (path_join base (n @ ''/'')) = canon base @ [n]"
proof -
  assume n: "plain n"
  have "path_comps (path_join base (n @ ''/'')) = path_comps (path_join base n @ ''/'')"
    using n by (auto simp: path_join_def starts_with_def plain_def prefix_def append_eq_Cons_conv)
  then show ?thesis using path_comps_app [of "path_join base n" "[]"] canon_join [OF n, of base] by (simp add: canon_def)
qed

lemma list_path:
  assumes "sec \<in> set meta_sections"
  shows "canon (list_dir root sec) = canon root @ section_dir sec"
  using assms canon_join_slash [of "''index''"] canon_join_slash [of "''layers''"] canon_join_slash [of "''builds''"]
  by (cases sec rule: section_cases) (simp_all add: list_dir_def starts_with_def section_dir_def canon_join)

section \<open>The invariant of the disk\<close>

text \<open>
  What may be at a path of the store: directories of blobs and blobs in them, temporary files, and
  in each section only the files of its keys.
\<close>

definition allowed :: "string list \<Rightarrow> string list \<Rightarrow> node \<Rightarrow> bool" where
  "allowed R p n \<longleftrightarrow>
     (\<forall>a. p = R @ [''objects'', a] \<longrightarrow> n = Dir) \<and>
     (\<forall>a b. p = R @ [''objects'', a, b] \<longrightarrow> is_file n) \<and>
     (\<forall>a. p = R @ [''tmp'', a] \<longrightarrow> is_file n \<and> plain a) \<and>
     (\<forall>sec a. sec \<in> set meta_sections \<and> p = R @ section_dir sec @ [a] \<longrightarrow>
        is_file n \<and> (\<exists>name. name_ok sec name \<and> a = key_file sec name))"

definition disk_ok :: "string list \<Rightarrow> disk \<Rightarrow> bool" where
  "disk_ok R s \<longleftrightarrow> distinct (map fst (nodes s)) \<and>
     (\<forall>p n. map_of (nodes s) p = Some n \<longrightarrow> p \<noteq> [] \<and> node_at s (butlast p) = Some Dir \<and> allowed R p n)"

definition base_dirs :: "string list list" where
  "base_dirs = [[''objects''], [''manifests''], [''meta'', ''layers''], [''meta'', ''index''], [''meta'', ''builds''],
     [''refs'', ''tags''], [''tmp'']]"

definition local_ok :: "string \<Rightarrow> disk \<Rightarrow> bool" where
  "local_ok root s \<longleftrightarrow> disk_ok (canon root) s \<and> (\<forall>d \<in> set base_dirs. node_at s (canon root @ d) = Some Dir)"

definition file_at :: "disk \<Rightarrow> string list \<Rightarrow> bytes option" where
  "file_at s p = (case node_at s p of Some (File d) \<Rightarrow> Some d | _ \<Rightarrow> None)"

lemma node_at_simps [simp]:
  "node_at (s\<lparr>tick := k\<rparr>) p = node_at s p"
  "p \<noteq> [] \<Longrightarrow> node_at (set_node p n s) q = (if q = p then Some n else node_at s q)"
  "p \<noteq> [] \<Longrightarrow> node_at (del_node p s) q = (if q = p then None else node_at s q)"
  by (auto simp: node_at_def set_node_def del_node_def update_conv' delete_conv')

lemma file_at_simps [simp]:
  "file_at (s\<lparr>tick := k\<rparr>) p = file_at s p"
  "p \<noteq> [] \<Longrightarrow> file_at (set_node p (File d) s) q = (if q = p then Some d else file_at s q)"
  "p \<noteq> [] \<Longrightarrow> file_at (set_node p Dir s) q = (if q = p then None else file_at s q)"
  "p \<noteq> [] \<Longrightarrow> file_at (del_node p s) q = (if q = p then None else file_at s q)"
  by (auto simp: file_at_def)

lemma ok_tick [simp]: "disk_ok R (s\<lparr>tick := k\<rparr>) = disk_ok R s" "local_ok root (s\<lparr>tick := k\<rparr>) = local_ok root s"
  by (simp_all add: disk_ok_def local_ok_def)

lemma disk_okD:
  assumes "disk_ok R s" and "node_at s p = Some n" and "p \<noteq> []"
  shows "node_at s (butlast p) = Some Dir" and "allowed R p n"
  using assms by (auto simp: disk_ok_def node_at_def [of s p])

lemma prefix_dir:
  "disk_ok R s \<Longrightarrow> node_at s p = Some n \<Longrightarrow> k < length p \<Longrightarrow> node_at s (take k p) = Some Dir"
proof (induction p arbitrary: n rule: rev_induct)
  case (snoc c p)
  have p: "node_at s p = Some Dir" using disk_okD(1) [OF snoc.prems(1,2)] by simp
  show ?case
  proof (cases "k = length p")
    case True
    with p show ?thesis by simp
  next
    case False
    with snoc.prems(3) have "k < length p" by simp
    with snoc.IH [OF snoc.prems(1) p] show ?thesis by simp
  qed
qed simp

lemma child_lookup:
  assumes "disk_ok R s" and "node_at s (butlast p) = Some Dir" and "p \<noteq> []"
  shows "fs_lookup s p = (case node_at s p of None \<Rightarrow> Inl NotFoundKind | Some n \<Rightarrow> Inr n)"
proof -
  have "node_at s (take k p) = Some Dir" if "k < length p" for k
  proof (cases "k = length p - 1")
    case True
    with assms(2) show ?thesis by (simp add: butlast_conv_take)
  next
    case False
    with that have "k < length (butlast p)" by simp
    from prefix_dir [OF assms(1,2) this] show ?thesis using that False by (simp add: butlast_conv_take min_def split: if_splits)
  qed
  then have "\<not> through_file s p" by (auto simp: through_file_def list_ex_iff split: option.splits)
  then show ?thesis by (simp add: fs_lookup_def)
qed

lemma node_lookup:
  assumes "disk_ok R s" and "node_at s p = Some n"
  shows "fs_lookup s p = Inr n"
proof (cases "p = []")
  case True
  with assms(2) show ?thesis by (simp add: fs_lookup_def through_file_def)
next
  case False
  with child_lookup [OF assms(1) disk_okD(1) [OF assms False]] assms(2) show ?thesis by simp
qed

lemma orphan_lookup:
  assumes "disk_ok R s" and "node_at s p = None" and "node_at s (butlast p) = Some Dir" and "p \<noteq> []"
  shows "fs_lookup s (p @ [c]) = Inl NotFoundKind"
proof -
  have "node_at s (p @ [c]) = None"
    using disk_okD(1) [OF assms(1), of "p @ [c]"] assms(2) by (cases "node_at s (p @ [c])") auto
  moreover have "\<not> through_file s (p @ [c])"
  proof -
    have "\<not> through_file s p" using child_lookup [OF assms(1,3,4)] assms(2) by (auto simp: fs_lookup_def split: if_splits)
    then show ?thesis using assms(2) by (auto simp: through_file_def list_ex_iff less_Suc_eq)
  qed
  ultimately show ?thesis by (simp add: fs_lookup_def)
qed

lemma disk_ok_set:
  assumes "disk_ok R s" and "p \<noteq> []" and "node_at s (butlast p) = Some Dir" and "allowed R p n" and "node_at s p \<noteq> Some Dir"
  shows "disk_ok R (set_node p n s)"
proof -
  have "distinct (map fst (nodes (set_node p n s)))" using assms(1) by (simp add: disk_ok_def set_node_def distinct_update)
  moreover have "q \<noteq> [] \<and> node_at (set_node p n s) (butlast q) = Some Dir \<and> allowed R q m"
    if q: "map_of (nodes (set_node p n s)) q = Some m" for q m
  proof (cases "q = p")
    case True
    have "butlast p \<noteq> p" using assms(2) by (metis append_butlast_last_id append_self_conv not_Cons_self2)
    moreover have "m = n" using True q by (simp add: set_node_def update_conv')
    ultimately show ?thesis using True assms by simp
  next
    case False
    then have "map_of (nodes s) q = Some m" using q by (simp add: set_node_def update_conv')
    then have "q \<noteq> [] \<and> node_at s (butlast q) = Some Dir \<and> allowed R q m" using assms(1) by (simp add: disk_ok_def)
    moreover from this have "butlast q \<noteq> p" using assms(5) by auto
    ultimately show ?thesis using assms(2) by simp
  qed
  ultimately show ?thesis by (simp add: disk_ok_def)
qed

lemma disk_ok_del:
  assumes "disk_ok R s" and "p \<noteq> []" and "node_at s p \<noteq> Some Dir"
  shows "disk_ok R (del_node p s)"
proof -
  have "distinct (map fst (nodes (del_node p s)))" using assms(1) by (simp add: disk_ok_def del_node_def distinct_delete)
  moreover have "q \<noteq> [] \<and> node_at (del_node p s) (butlast q) = Some Dir \<and> allowed R q m"
    if q: "map_of (nodes (del_node p s)) q = Some m" for q m
  proof -
    have "map_of (nodes s) q = Some m" using q by (simp add: del_node_def delete_conv' split: if_splits)
    then have "q \<noteq> [] \<and> node_at s (butlast q) = Some Dir \<and> allowed R q m" using assms(1) by (simp add: disk_ok_def)
    moreover from this have "butlast q \<noteq> p" using assms(3) by auto
    ultimately show ?thesis using assms(2) by simp
  qed
  ultimately show ?thesis by (simp add: disk_ok_def)
qed

lemma allowed_rel [simp]: "allowed R (R @ e) n = allowed [] e n"
  by (simp add: allowed_def)

lemma allowed_short: "length p \<le> length R \<Longrightarrow> allowed R p n"
  by (auto simp: allowed_def)

text \<open>The directories that the backend makes are of these shapes, and so are those above them.\<close>

definition dir_shape :: "string list \<Rightarrow> bool" where
  "dir_shape e \<longleftrightarrow> length e \<le> 1 \<or> (length e = 2 \<and> hd e \<in> {''objects'', ''meta'', ''refs''})"

lemma section_shape:
  assumes "sec \<in> set meta_sections"
  shows "section_dir sec = [''manifests''] \<or> length (section_dir sec) = 2"
  using assms by (cases sec rule: section_cases) (simp_all add: section_dir_def)

lemma allowed_Dir: "dir_shape e \<Longrightarrow> allowed [] e Dir"
proof -
  assume e: "dir_shape e"
  have "e \<noteq> section_dir sec @ [a]" if "sec \<in> set meta_sections" for sec a
    using section_shape [OF that] e by (elim disjE) (auto simp: dir_shape_def)
  moreover have "e \<noteq> [''objects'', a, b]" "e \<noteq> [''tmp'', a]" for a b
    using e by (auto simp: dir_shape_def)
  ultimately show ?thesis unfolding allowed_def append_Nil by blast
qed

lemma dir_shape_take: "dir_shape e \<Longrightarrow> dir_shape (take k e)"
  by (cases e; cases k) (auto simp: dir_shape_def)

lemma dir_shape_base: "d \<in> set base_dirs \<Longrightarrow> dir_shape d"
proof -
  have "list_all dir_shape base_dirs" by (simp add: base_dirs_def dir_shape_def)
  then show "d \<in> set base_dirs \<Longrightarrow> dir_shape d" by (simp add: list_all_iff)
qed

lemma dir_shape_section: "sec \<in> set meta_sections \<Longrightarrow> section_dir sec \<in> set base_dirs"
  by (cases sec rule: section_cases) (simp_all add: section_dir_def base_dirs_def)

lemma allowed_above: "dir_shape d \<Longrightarrow> allowed R (take k (R @ d)) Dir"
  using allowed_Dir [OF dir_shape_take, of d "k - length R"]
  by (cases "k \<le> length R") (simp_all add: allowed_short)

section \<open>Directories\<close>

lemma fs_mkdir_spec:
  assumes "fs_mkdir env p s = (r, t)" and "disk_ok R s" and "p \<noteq> []" and "node_at s (butlast p) = Some Dir" and "allowed R p Dir"
  shows "disk_ok R t" and "file_at t = file_at s" and "node_at s q = Some Dir \<Longrightarrow> node_at t q = Some Dir"
    and "r = Inr () \<Longrightarrow> node_at t p = Some Dir"
proof -
  let ?s = "s\<lparr>tick := Suc (tick s)\<rparr>"
  have "t = ?s \<and> (r = Inr () \<longrightarrow> node_at s p = Some Dir) \<or> node_at s p = None \<and> t = set_node p Dir ?s"
    using assms(1) by (auto simp: fs_mkdir_def fs_call_def Let_def split: option.splits node.splits)
  moreover have "disk_ok R (set_node p Dir ?s)" if "node_at s p = None"
    using assms that by (intro disk_ok_set) simp_all
  moreover have "file_at (set_node p Dir ?s) = file_at s" if "node_at s p = None"
    using that assms(3) by (auto simp: fun_eq_iff file_at_def)
  ultimately show "disk_ok R t" "file_at t = file_at s" "node_at s q = Some Dir \<Longrightarrow> node_at t q = Some Dir"
    "r = Inr () \<Longrightarrow> node_at t p = Some Dir"
    using assms(2,3) by (auto simp: fun_eq_iff)
qed

lemma mkdirs_spec:
  assumes "mkdirs env pre cs s = (r, t)" and "disk_ok R s" and "node_at s pre = Some Dir"
    and "\<And>k. allowed R (pre @ take (Suc k) cs) Dir"
  shows "disk_ok R t \<and> file_at t = file_at s \<and> (\<forall>q. node_at s q = Some Dir \<longrightarrow> node_at t q = Some Dir) \<and>
     (r = Inr () \<longrightarrow> node_at t (pre @ cs) = Some Dir)"
  using assms
proof (induction cs arbitrary: pre s)
  case (Cons c cs)
  obtain r1 s1 where m: "fs_mkdir env (pre @ [c]) s = (r1, s1)" by (cases "fs_mkdir env (pre @ [c]) s")
  have a: "allowed R (pre @ [c]) Dir" using Cons.prems(4) [of 0] by simp
  note spec = fs_mkdir_spec [OF m Cons.prems(2) _ _ a, simplified, OF Cons.prems(3)]
  show ?case
  proof (cases r1)
    case (Inl e)
    with m Cons.prems(1) have "t = s1" "r = Inl e" by (simp_all add: and_then_def)
    with spec show ?thesis by simp
  next
    case (Inr u)
    with m Cons.prems(1) have "mkdirs env (pre @ [c]) cs s1 = (r, t)" by (simp add: and_then_def)
    from Cons.IH [OF this] have "disk_ok R t \<and> file_at t = file_at s1 \<and> (\<forall>q. node_at s1 q = Some Dir \<longrightarrow> node_at t q = Some Dir) \<and>
        (r = Inr () \<longrightarrow> node_at t (pre @ [c] @ cs) = Some Dir)"
      using spec Inr Cons.prems(4) [of "Suc _"] by simp
    with spec show ?thesis by simp
  qed
qed (simp add: ret_ok_def)

lemma create_dir_spec:
  assumes "create_dir_all env (R @ d) s = (r, t)" and "disk_ok R s" and "dir_shape d"
  shows "disk_ok R t" and "file_at t = file_at s" and "node_at s q = Some Dir \<Longrightarrow> node_at t q = Some Dir"
    and "r = Inr () \<Longrightarrow> node_at t (R @ d) = Some Dir"
  using mkdirs_spec [OF assms(1) [unfolded create_dir_all_def] assms(2)] allowed_above [OF assms(3), of R "Suc _"]
  by (simp_all add: node_at_def [of s "[]"])

section \<open>What the store sees of the disk\<close>

definition in_tmp :: "string list \<Rightarrow> string list \<Rightarrow> bool" where
  "in_tmp R p \<longleftrightarrow> p \<noteq> [] \<and> butlast p = R @ [''tmp''] \<and> plain (last p)"

definition view :: "string \<Rightarrow> disk \<Rightarrow> string list \<Rightarrow> bytes option" where
  "view root s p = (if in_tmp (canon root) p then None else file_at s p)"

text \<open>The files that uploads are renamed to.\<close>

definition final_path :: "string list \<Rightarrow> string list \<Rightarrow> bool" where
  "final_path R p \<longleftrightarrow> (\<exists>a b. p = R @ [''objects'', a, b]) \<or>
     (\<exists>sec \<in> set meta_sections. \<exists>name. name_ok sec name \<and> p = R @ section_dir sec @ [key_file sec name])"

lemma view_tick [simp]: "view root (s\<lparr>tick := k\<rparr>) = view root s"
  by (simp add: fun_eq_iff view_def)

lemma view_set: "p \<noteq> [] \<Longrightarrow> \<not> in_tmp (canon root) p \<Longrightarrow> view root (set_node p (File d) s) = (view root s)(p \<mapsto> d)"
  by (auto simp: fun_eq_iff view_def)

lemma view_tmp:
  assumes "in_tmp (canon root) p"
  shows "view root (set_node p (File d) s) = view root s" and "view root (del_node p s) = view root s"
proof -
  have "p \<noteq> []" using assms by (simp add: in_tmp_def)
  then show "view root (set_node p (File d) s) = view root s" "view root (del_node p s) = view root s"
    using assms by (auto simp: fun_eq_iff view_def)
qed

lemma view_del: "p \<noteq> [] \<Longrightarrow> view root (del_node p s) = (view root s)(p := None)"
  by (auto simp: fun_eq_iff view_def)

lemma section_last: "sec \<in> set meta_sections \<Longrightarrow> section_dir sec \<noteq> [] \<and> section_dir sec \<noteq> [''tmp''] \<and> section_dir sec \<noteq> [''objects'']"
  by (cases sec rule: section_cases) (simp_all add: section_dir_def)

lemma section_dir_inj: "sec \<in> set meta_sections \<Longrightarrow> sec' \<in> set meta_sections \<Longrightarrow> section_dir sec = section_dir sec' \<Longrightarrow> sec = sec'"
  by (cases sec rule: section_cases; cases sec' rule: section_cases) (simp_all add: section_dir_def)

lemma final_pathE:
  assumes "final_path R p"
  obtains d c where "p = R @ d @ [c]" "dir_shape d" "d \<noteq> [''tmp'']" "allowed [] (d @ [c]) (File b)" "d \<noteq> []"
proof -
  have blob: "allowed [] ([''objects'', a] @ [c]) (File b)" for a c
    using section_shape by (fastforce simp: allowed_def is_file_def section_dir_def)
  have meta: "allowed [] (section_dir sec @ [key_file sec name]) (File b)" if "sec \<in> set meta_sections" "name_ok sec name" for sec name
    using that section_last [OF that(1)] section_shape [OF that(1)] section_dir_inj [OF that(1)]
    by (auto simp: allowed_def is_file_def)
  from assms consider a c where "p = R @ [''objects'', a] @ [c]"
    | sec name where "sec \<in> set meta_sections" "name_ok sec name" "p = R @ section_dir sec @ [key_file sec name]"
    by (auto simp: final_path_def)
  then show thesis
  proof cases
    case 1
    with blob show thesis by (intro that [of "[''objects'', a]" c]) (simp_all add: dir_shape_def)
  next
    case 2
    with meta [OF 2(1,2)] section_last [OF 2(1)] dir_shape_base [OF dir_shape_section [OF 2(1)]] show thesis
      by (intro that [of "section_dir sec" "key_file sec name"]) simp_all
  qed
qed

text \<open>Writing and removing temporary files, and putting a file at its final path.\<close>

lemma local_okD: "local_ok root s \<Longrightarrow> disk_ok (canon root) s" "local_ok root s \<Longrightarrow> d \<in> set base_dirs \<Longrightarrow> node_at s (canon root @ d) = Some Dir"
  by (simp_all add: local_ok_def)

lemma tmp_dir: "local_ok root s \<Longrightarrow> in_tmp (canon root) p \<Longrightarrow> node_at s (butlast p) = Some Dir"
  by (simp add: local_ok_def base_dirs_def in_tmp_def)

lemma in_tmpE:
  assumes "in_tmp R p"
  obtains a where "p = R @ [''tmp'', a]" "plain a"
proof -
  have "p = (R @ [''tmp'']) @ [last p]" using assms unfolding in_tmp_def by (metis append_butlast_last_id)
  with assms show thesis by (intro that [of "last p"]) (simp_all add: in_tmp_def)
qed

lemma tmp_allowed: "in_tmp R p \<Longrightarrow> allowed R p (File d)"
proof (elim in_tmpE)
  fix a
  assume "p = R @ [''tmp'', a]" "plain a"
  moreover have "[''tmp'', a] \<noteq> section_dir sec @ [c]" if "sec \<in> set meta_sections" for sec c
    using section_shape [OF that] section_last [OF that] by auto
  ultimately show ?thesis by (auto simp: allowed_def is_file_def)
qed

lemma tmp_file: "local_ok root s \<Longrightarrow> in_tmp (canon root) p \<Longrightarrow> node_at s p \<noteq> Some Dir"
proof (elim in_tmpE)
  fix a
  assume s: "local_ok root s" and p: "p = canon root @ [''tmp'', a]"
  show "node_at s p \<noteq> Some Dir"
    using disk_okD(2) [OF local_okD(1) [OF s], of p Dir] by (auto simp: p allowed_def is_file_def)
qed


lemma local_ok_set:
  assumes "local_ok root s" and "p \<noteq> []" and "node_at s (butlast p) = Some Dir" and "allowed (canon root) p (File d)"
    and "node_at s p \<noteq> Some Dir"
  shows "local_ok root (set_node p (File d) s)"
  using assms disk_ok_set [OF local_okD(1) [OF assms(1)] assms(2-5)] by (auto simp: local_ok_def)

lemma local_ok_del:
  assumes "local_ok root s" and "p \<noteq> []" and "node_at s p \<noteq> Some Dir"
  shows "local_ok root (del_node p s)"
  using assms disk_ok_del [OF local_okD(1) [OF assms(1)] assms(2,3)] by (auto simp: local_ok_def)

lemma tmp_keeps:
  assumes "local_ok root s" and "in_tmp (canon root) p"
  shows "local_ok root (set_node p (File d) s)" and "local_ok root (del_node p s)"
proof -
  have "p \<noteq> []" using assms(2) by (simp add: in_tmp_def)
  then show "local_ok root (set_node p (File d) s)" "local_ok root (del_node p s)"
    using assms tmp_dir [OF assms] tmp_file [OF assms] tmp_allowed [OF assms(2)]
    by (simp_all add: local_ok_set local_ok_del)
qed

lemma final_file: "disk_ok R s \<Longrightarrow> final_path R p \<Longrightarrow> node_at s p \<noteq> Some Dir"
  using disk_okD(2) [of R s p Dir] by (auto simp: final_path_def allowed_def is_file_def)

lemma final_keeps:
  assumes "local_ok root s" and "final_path (canon root) p" and "node_at s (butlast p) = Some Dir"
  shows "local_ok root (set_node p (File d) s)" and "view root (set_node p (File d) s) = (view root s)(p \<mapsto> d)"
proof -
  have "p \<noteq> [] \<and> \<not> in_tmp (canon root) p \<and> allowed (canon root) p (File d)"
    by (rule final_pathE [OF assms(2), of d]) (simp add: in_tmp_def butlast_append)
  then show "local_ok root (set_node p (File d) s)" "view root (set_node p (File d) s) = (view root s)(p \<mapsto> d)"
    using assms final_file [OF local_okD(1) [OF assms(1)] assms(2)] by (simp_all add: local_ok_set view_set)
qed

section \<open>The steps of an upload\<close>

lemma fs_call_cases:
  assumes "fs_call env m s = (r, t)"
  obtains e where "r = Inl (OtherKind e)" "t = s\<lparr>tick := Suc (tick s)\<rparr>" | "m (s\<lparr>tick := Suc (tick s)\<rparr>) = (r, t)"
  using assms by (auto simp: fs_call_def Let_def split: option.splits)

text \<open>An operation that leaves the store as it was, whatever it returns.\<close>

definition stays :: "string \<Rightarrow> disk \<Rightarrow> disk \<Rightarrow> bool" where
  "stays root s t \<longleftrightarrow> local_ok root t \<and> view root t = view root s \<and> (\<forall>d. node_at s d = Some Dir \<longrightarrow> node_at t d = Some Dir)"

definition leaves :: "string \<Rightarrow> (disk, 'e, 'a) op \<Rightarrow> bool" where
  "leaves root m \<longleftrightarrow> (\<forall>s. local_ok root s \<longrightarrow> stays root s (snd (m s)))"

lemma leaves_stays: "leaves root m \<Longrightarrow> m s = (r, t) \<Longrightarrow> local_ok root s \<Longrightarrow> stays root s t"
  by (auto simp: leaves_def dest: spec [of _ s])

lemma staysD: "stays root s t \<Longrightarrow> local_ok root t" "stays root s t \<Longrightarrow> view root t = view root s"
  "stays root s t \<Longrightarrow> node_at s d = Some Dir \<Longrightarrow> node_at t d = Some Dir"
  by (simp_all add: stays_def)

lemma stays_refl: "local_ok root s \<Longrightarrow> stays root s s"
  by (simp add: stays_def)

lemma stays_trans: "stays root s t \<Longrightarrow> stays root t u \<Longrightarrow> stays root s u"
  by (simp add: stays_def)

lemma leaves_then:
  assumes "leaves root m" and "\<And>x. leaves root (k x)"
  shows "leaves root (and_then m k)"
  unfolding leaves_def
proof (intro allI impI)
  fix s
  assume s: "local_ok root s"
  obtain r t where m: "m s = (r, t)" by (cases "m s")
  then have t: "stays root s t" using leaves_stays [OF assms(1)] s by blast
  show "stays root s (snd (and_then m k s))"
  proof (cases r)
    case (Inl e)
    with m t show ?thesis by (simp add: and_then_def)
  next
    case (Inr a)
    have "stays root t (snd (k a t))" using assms(2) staysD(1) [OF t] by (simp add: leaves_def)
    with stays_trans [OF t] m Inr show ?thesis by (simp add: and_then_def)
  qed
qed

lemma leaves_wrap:
  "leaves root m \<Longrightarrow> leaves root (map_err f m)" "leaves root m \<Longrightarrow> leaves root (attempt m)" "leaves root m \<Longrightarrow> leaves root (ignore m)"
  "leaves root (ret_ok y)" "leaves root (ret_err e)"
  by (simp_all add: leaves_def attempt_def ignore_def ret_ok_def ret_err_def stays_refl)

lemma stays_tick: "stays root (s\<lparr>tick := k\<rparr>) t = stays root s t"
  by (simp add: stays_def)

lemma leaves_call: "leaves root m \<Longrightarrow> leaves root (fs_call env m)"
  unfolding leaves_def
proof (intro allI impI)
  fix s
  assume m: "\<forall>s. local_ok root s \<longrightarrow> stays root s (snd (m s))" and s: "local_ok root s"
  let ?s = "s\<lparr>tick := Suc (tick s)\<rparr>"
  have "stays root s ?s" using s by (simp add: stays_def)
  moreover have "stays root ?s (snd (m ?s))" using m s by simp
  ultimately show "stays root s (snd (fs_call env m s))" by (simp add: stays_tick fs_call_def Let_def split: option.splits)
qed

lemma leaves_pure: "leaves root (\<lambda>s. (g s, s))"
  by (simp add: leaves_def stays_refl)

lemma leaves_queries:
  "leaves root (fs_metadata env path)" "leaves root (fs_sync env)" "leaves root (fs_read env path)"
  "leaves root (fs_open env path)" "leaves root (fs_read_dir env path)"
  unfolding fs_metadata_def fs_sync_def fs_read_def fs_open_def fs_read_dir_def by (intro leaves_call leaves_pure)+

lemma leaves_tmp:
  assumes "in_tmp (canon root) (canon path)"
  shows "leaves root (fs_create env path)" and "leaves root (fs_write env path data)" and "leaves root (fs_remove_file env path)"
proof -
  have set: "stays root s (set_node (canon path) (File d) s)" "stays root s (del_node (canon path) s)" if "local_ok root s" for s d
  proof -
    have "canon path \<noteq> []" "node_at s (canon path) \<noteq> Some Dir"
      using assms tmp_file [OF that assms] by (simp_all add: in_tmp_def)
    then show "stays root s (set_node (canon path) (File d) s)" "stays root s (del_node (canon path) s)"
      using tmp_keeps [OF that assms] view_tmp [OF assms] by (auto simp: stays_def)
  qed
  show "leaves root (fs_create env path)" "leaves root (fs_remove_file env path)"
    unfolding fs_create_def fs_remove_file_def
    by (rule leaves_call; simp add: leaves_def set stays_refl split: sum.splits node.splits)+
  have "stays root s (set_node (canon path) (File d) (s\<lparr>tick := k\<rparr>))" if "local_ok root s" for s d k
    using set(1) [of "s\<lparr>tick := k\<rparr>" d] that by (simp add: stays_tick)
  then show "leaves root (fs_write env path data)"
    by (simp add: leaves_def fs_write_def Let_def split: option.splits)
qed

lemma leaves_mkdir: "dir_shape d \<Longrightarrow> leaves root (create_dir_all env (canon root @ d))"
  unfolding leaves_def
proof (intro allI impI)
  fix s
  assume d: "dir_shape d" and s: "local_ok root s"
  obtain r t where "create_dir_all env (canon root @ d) s = (r, t)" by (cases "create_dir_all env (canon root @ d) s")
  with create_dir_spec [OF this local_okD(1) [OF s] d] local_okD [OF s] show "stays root s (snd (create_dir_all env (canon root @ d) s))"
    by (simp add: stays_def local_ok_def view_def fun_eq_iff)
qed

definition env_ok :: "disk_env \<Rightarrow> bool" where
  "env_ok env \<longleftrightarrow> (\<forall>n. plain (uuids env n))"

lemma tmp_path: "env_ok env \<Longrightarrow> in_tmp (canon root) (canon (path_join (path_join root ''tmp'') (uuids env k)))"
  by (simp add: env_ok_def canon_join in_tmp_def butlast_append)

lemma new_tmp_spec:
  assumes "env_ok env" and "canon_parent final = canon root @ d" and "dir_shape d" and "local_ok root s" and "new_tmp env root final s = (r, t)"
  shows "stays root s t" and "r = Inr tmp \<Longrightarrow> in_tmp (canon root) (canon tmp) \<and> node_at t (canon root @ d) = Some Dir"
proof -
  obtain r1 s1 where c: "create_dir_all env (canon root @ d) s = (r1, s1)" by (cases "create_dir_all env (canon root @ d) s")
  note s1 = leaves_stays [OF leaves_mkdir [OF assms(3)] c assms(4)]
  have create: "leaves root (fs_create env (path_join (path_join root ''tmp'') (uuids env k)))" for k
    by (rule leaves_tmp(1) [OF tmp_path [OF assms(1)]])
  have "stays root s t \<and> (r = Inr tmp \<longrightarrow> in_tmp (canon root) (canon tmp) \<and> node_at t (canon root @ d) = Some Dir)"
  proof (cases r1)
    case (Inl e)
    with assms(5) c s1 show ?thesis by (auto simp: new_tmp_def assms(2) and_then_def map_err_def)
  next
    case (Inr u)
    let ?tmp = "path_join (path_join root ''tmp'') (uuids env (tick s1))"
    obtain r2 s2 where f: "fs_create env ?tmp s1 = (r2, s2)" by (cases "fs_create env ?tmp s1")
    note s2 = leaves_stays [OF create f staysD(1) [OF s1]]
    have "t = s2" "r = Inr tmp \<Longrightarrow> tmp = ?tmp"
      using assms(5) c f Inr by (auto simp: new_tmp_def assms(2) and_then_def map_err_def Let_def ret_ok_def split: sum.splits)
    moreover have "node_at s1 (canon root @ d) = Some Dir"
      using create_dir_spec(4) [OF c local_okD(1) [OF assms(4)] assms(3)] Inr by simp
    ultimately show ?thesis using stays_trans [OF s1 s2] staysD(3) [OF s2] tmp_path [OF assms(1)] by auto
  qed
  then show "stays root s t" "r = Inr tmp \<Longrightarrow> in_tmp (canon root) (canon tmp) \<and> node_at t (canon root @ d) = Some Dir"
    by simp_all
qed

text \<open>A finished upload replaces the file at its final path; every failure leaves the store as it was.\<close>

definition settled :: "string \<Rightarrow> string list \<Rightarrow> bytes \<Rightarrow> disk \<Rightarrow> StoreError + unit \<Rightarrow> disk \<Rightarrow> bool" where
  "settled root p d s r t \<longleftrightarrow> local_ok root t \<and> view root t = (case r of Inl e \<Rightarrow> view root s | Inr u \<Rightarrow> (view root s)(p \<mapsto> d))"

lemma settled_failed: "stays root s t \<Longrightarrow> settled root p d s (Inl e) t"
  by (simp add: settled_def stays_def)

lemma settled_after: "stays root s s' \<Longrightarrow> settled root p d s' r t \<Longrightarrow> settled root p d s r t"
  by (simp add: settled_def stays_def split: sum.splits)

lemma rename_spec:
  assumes "local_ok root s" and "in_tmp (canon root) (canon old)" and "node_at s (canon old) = Some (File d)"
    and "final_path (canon root) (canon new)" and "node_at s (butlast (canon new)) = Some Dir" and "fs_rename env old new s = (r, t)"
  shows "(case r of Inl e \<Rightarrow> stays root s t | Inr u \<Rightarrow> settled root (canon new) d s (Inr ()) t)"
proof (rule fs_call_cases [OF assms(6) [unfolded fs_rename_def]])
  fix e
  assume "r = Inl (OtherKind e)" "t = s\<lparr>tick := Suc (tick s)\<rparr>"
  with assms(1) show ?thesis by (simp add: stays_def)
next
  let ?s = "s\<lparr>tick := Suc (tick s)\<rparr>" and ?old = "canon old" and ?new = "canon new"
  have s: "local_ok root ?s" using assms(1) by simp
  have old: "?old \<noteq> []" using assms(2) by (simp add: in_tmp_def)
  have "fs_lookup ?s ?old = Inr (File d)" "fs_lookup ?s (butlast ?new) = Inr Dir"
    using node_lookup [OF local_okD(1) [OF s]] assms(3,5) by simp_all
  moreover have "node_at ?s ?new \<noteq> Some Dir" using final_file [OF local_okD(1) [OF s] assms(4)] .
  ultimately have into: "into_dir ?s ?new = Inr ()" "fs_lookup ?s ?old = Inr (File d)"
    by (auto simp: into_dir_def split: option.splits node.splits)
  assume "(case fs_lookup ?s ?old of
       Inl e \<Rightarrow> (Inl e, ?s)
     | Inr Dir \<Rightarrow> (Inl (OtherKind ''Is a directory''), ?s)
     | Inr (File d) \<Rightarrow>
         (case into_dir ?s ?new of
            Inl e \<Rightarrow> (Inl e, ?s)
          | Inr u \<Rightarrow> (Inr (), set_node ?new (File d) (del_node ?old ?s)))) = (r, t)"
  with into have r: "r = Inr ()" "t = set_node ?new (File d) (del_node ?old ?s)" by simp_all
  have del: "local_ok root (del_node ?old ?s)" using tmp_keeps(2) [OF s assms(2)] .
  have "node_at (del_node ?old ?s) (butlast ?new) = Some Dir" using assms(3,5) old by auto
  from final_keeps [OF del assms(4) this, of d] view_tmp(2) [OF assms(2)] show ?thesis
    by (simp add: r settled_def)
qed

lemma fill_tmp_spec:
  assumes "local_ok root s" and "in_tmp (canon root) (canon tmp)" and "final_path (canon root) (canon final)"
    and "node_at s (butlast (canon final)) = Some Dir" and "fill_tmp env tmp final d s = (r, t)"
  shows "settled root (canon final) d s r t"
proof -
  obtain r1 s1 where w: "fs_write env tmp d s = (r1, s1)" by (cases "fs_write env tmp d s")
  obtain r2 s2 where y: "fs_sync env s1 = (r2, s2)" by (cases "fs_sync env s1")
  obtain r3 s3 where n: "fs_rename env tmp final s2 = (r3, s3)" by (cases "fs_rename env tmp final s2")
  obtain r4 s4 where d: "fs_remove_file env tmp s3 = (r4, s4)" by (cases "fs_remove_file env tmp s3")
  note s1 = leaves_stays [OF leaves_tmp(2) [OF assms(2)] w assms(1)]
  note s2 = stays_trans [OF s1 leaves_stays [OF leaves_queries(2) y staysD(1) [OF s1]]]
  note run = assms(5) [unfolded fill_tmp_def move_tmp_def and_then_def map_err_def attempt_def ignore_def ret_ok_def ret_err_def]
  show ?thesis
  proof (cases "r1 = Inr () \<and> r2 = Inr ()")
    case False
    with run w y have "\<exists>e. r = Inl e \<and> (t = s1 \<or> t = s2)"
      by (cases r1; cases r2) auto
    with s1 s2 show ?thesis by (auto intro: settled_failed)
  next
    case True
    have "node_at s1 (canon tmp) = Some (File d)"
      using w True assms(2) by (auto simp: fs_write_def Let_def in_tmp_def split: option.splits)
    moreover have "node_at s2 p = node_at s1 p" for p
      using y by (auto simp: fs_sync_def elim!: fs_call_cases)
    ultimately have "node_at s2 (canon tmp) = Some (File d)" by simp
    from rename_spec [OF staysD(1) [OF s2] assms(2) this assms(3) staysD(3) [OF s2 assms(4)] n]
    have s3: "case r3 of Inl e \<Rightarrow> stays root s2 s3 | Inr u \<Rightarrow> settled root (canon final) d s2 (Inr ()) s3" .
    show ?thesis
    proof (cases r3)
      case (Inl e)
      with s3 have s3: "stays root s2 s3" by simp
      note s4 = stays_trans [OF s2 stays_trans [OF s3 leaves_stays [OF leaves_tmp(3) [OF assms(2)] d staysD(1) [OF s3]]]]
      from run w y n d True Inl have "\<exists>e. r = Inl e" "t = s4" by auto
      with s4 show ?thesis by (auto intro: settled_failed)
    next
      case (Inr u)
      with run w y n True have "r = Inr ()" "t = s3" by auto
      with s3 Inr settled_after [OF s2] show ?thesis by simp
    qed
  qed
qed

section \<open>Blobs and documents\<close>

definition local_blobs :: "store_ext \<Rightarrow> string \<Rightarrow> disk \<Rightarrow> ContentHash \<times> ArtifactFormat \<Rightarrow> bytes option" where
  "local_blobs x root s = (\<lambda>(h, f). view root s (canon (blob_path x root h f)))"

definition local_metas :: "string \<Rightarrow> disk \<Rightarrow> string \<Rightarrow> bytes option" where
  "local_metas root s k = (if local_key k then view root s (canon (get_meta_file_path root k)) else None)"

lemma hex_no_dot: "list_all is_hex n \<Longrightarrow> CHR ''.'' \<notin> set n \<and> CHR ''/'' \<notin> set n"
proof -
  have "\<not> is_hex (CHR ''.'')" "\<not> is_hex (CHR ''/'')" by (simp_all add: is_hex_def is_digit_def)
  then show "list_all is_hex n \<Longrightarrow> CHR ''.'' \<notin> set n \<and> CHR ''/'' \<notin> set n" unfolding list_all_iff by blast
qed

lemma plain_hex: "list_all is_hex n \<Longrightarrow> n \<noteq> [] \<Longrightarrow> plain n"
  using hex_no_dot [of n] by (auto simp: plain_def)

lemma plain_long: "length n > 2 \<Longrightarrow> CHR ''/'' \<notin> set n \<Longrightarrow> plain n"
  by (auto simp: plain_def)

lemma hex_no_json: "list_all is_hex n \<Longrightarrow> \<not> suffix ''.json'' n"
  using hex_no_dot [of n] by (auto simp: suffix_def)

lemma extension_name: "CHR ''/'' \<notin> set (extension f)" "extension f = extension f' \<longleftrightarrow> f = f'" "extension f \<noteq> []"
  by (cases f; cases f'; simp)+

lemma local_key_final: "local_key k \<Longrightarrow> final_path (canon root) (canon (get_meta_file_path root k))"
  by (elim local_keyE) (auto simp: final_path_def key_path)

lemma key_file_inj:
  assumes "name_ok sec n" and "name_ok sec m" and "key_file sec n = key_file sec m"
  shows "n = m"
  using assms by (auto simp: key_file_def split: if_splits)

lemma key_path_inj:
  assumes "local_key j" and "local_key k" and "canon (get_meta_file_path root j) = canon (get_meta_file_path root k)"
  shows "j = k"
proof -
  obtain s1 n1 where j: "s1 \<in> set meta_sections" "j = s1 @ n1" "name_ok s1 n1" using assms(1) by (rule local_keyE)
  obtain s2 n2 where k: "s2 \<in> set meta_sections" "k = s2 @ n2" "name_ok s2 n2" using assms(2) by (rule local_keyE)
  have "section_dir s1 @ [key_file s1 n1] = section_dir s2 @ [key_file s2 n2]"
    using assms(3) j k by (simp add: key_path)
  then have "section_dir s1 = section_dir s2" "key_file s1 n1 = key_file s2 n2" by simp_all
  with section_dir_inj [OF j(1) k(1)] key_file_inj j k show ?thesis by simp
qed

context store_codec
begin

lemma show_hash_hex: "list_all is_hex (show_ContentHash x h)" "length (show_ContentHash x h) = 64"
  "list_all is_hex (show_InputHash x i)" "length (show_InputHash x i) = 64"
  using hex_chars hex_length
  by (simp_all add: show_ContentHash_def show_InputHash_def content_bytes_def input_bytes_def)

lemma hash_name_ok: "name_ok sec (show_ContentHash x h)" "name_ok sec (show_InputHash x i)"
proof -
  have "name_ok sec n" if "list_all is_hex n" "length n = 64" for n
    using plain_hex [OF that(1)] hex_no_json [OF that(1)] that(2) by (cases "n = []") (simp_all add: name_ok_def)
  then show "name_ok sec (show_ContentHash x h)" "name_ok sec (show_InputHash x i)" using show_hash_hex by blast+
qed

lemma local_key_hash [simp]: "local_key (index_key x i)" "local_key (layer_key x h)" "local_key (manifest_key x h)"
  by (simp_all add: index_key_def layer_key_def manifest_key_def local_keyI [of "''index/''"] local_keyI [of "''layers/''"]
      local_keyI [of "''manifests/''"] meta_sections_def hash_name_ok
      del: append.append_Cons append_Cons)

lemma blob_names:
  "plain (take 2 (show_ContentHash x h))" "plain (drop 2 (show_ContentHash x h) @ ''.'' @ extension f)"
proof -
  have h: "list_all is_hex (show_ContentHash x h)" "length (show_ContentHash x h) = 64" using show_hash_hex by blast+
  have "list_all is_hex (take 2 (show_ContentHash x h))" using h(1) by (auto simp: list_all_iff dest: in_set_takeD)
  then show "plain (take 2 (show_ContentHash x h))" by (rule plain_hex) (use h(2) in auto)
  have "CHR ''/'' \<notin> set (drop 2 (show_ContentHash x h))" using hex_no_dot [OF h(1)] by (auto dest: in_set_dropD)
  then show "plain (drop 2 (show_ContentHash x h) @ ''.'' @ extension f)"
    using h(2) by (intro plain_long) (simp_all add: extension_name)
qed

lemma blob_path_canon:
  "canon (blob_path x root h f) =
     canon root @ [''objects'', take 2 (show_ContentHash x h), drop 2 (show_ContentHash x h) @ ''.'' @ extension f]"
  "canon_parent (blob_path x root h f) = canon root @ [''objects'', take 2 (show_ContentHash x h)]"
  unfolding blob_path_def Let_def canon_join [OF blob_names(2)] canon_parent_join [OF blob_names(2)] canon_join [OF blob_names(1)]
  by (simp_all add: canon_join)

lemma blob_path_inj: "canon (blob_path x root h f) = canon (blob_path x root h' f') \<longleftrightarrow> (h, f) = (h', f')"
proof
  assume a: "canon (blob_path x root h f) = canon (blob_path x root h' f')"
  have "length (drop 2 (show_ContentHash x h)) = length (drop 2 (show_ContentHash x h'))" using show_hash_hex(2) by simp
  with a have "take 2 (show_ContentHash x h) = take 2 (show_ContentHash x h')"
    "drop 2 (show_ContentHash x h) = drop 2 (show_ContentHash x h')" "f = f'"
    by (simp_all add: blob_path_canon extension_name)
  then show "(h, f) = (h', f')" by (metis append_take_drop_id show_content_inj)
qed simp

lemma blob_final: "final_path (canon root) (canon (blob_path x root h f))"
  by (auto simp: final_path_def blob_path_canon)

lemma blob_not_key: "local_key k \<Longrightarrow> canon (blob_path x root h f) \<noteq> canon (get_meta_file_path root k)"
proof (elim local_keyE)
  fix sec name
  assume k: "sec \<in> set meta_sections" "k = sec @ name" "name_ok sec name"
  have "[''objects'', a] \<noteq> section_dir sec" for a
    using k(1) by (cases sec rule: section_cases) (simp_all add: section_dir_def)
  with k show "canon (blob_path x root h f) \<noteq> canon (get_meta_file_path root k)"
    by (auto simp: key_path blob_path_canon append_eq_Cons_conv)
qed

text \<open>What a change of one file is for blobs and documents.\<close>

lemma blob_update:
  assumes "view root t = (view root s)(canon (blob_path x root h f) := v)"
  shows "local_blobs x root t = (local_blobs x root s)((h, f) := v)" and "local_metas root t = local_metas root s"
proof -
  show "local_blobs x root t = (local_blobs x root s)((h, f) := v)"
    using assms by (auto simp: fun_eq_iff local_blobs_def blob_path_inj)
  show "local_metas root t = local_metas root s"
    using assms by (auto simp: fun_eq_iff local_metas_def dest: blob_not_key [of _ root h f])
qed

lemma key_update:
  assumes "view root t = (view root s)(canon (get_meta_file_path root k) := v)" and "local_key k"
  shows "local_blobs x root t = local_blobs x root s" and "local_metas root t = (local_metas root s)(k := v)"
proof -
  show "local_blobs x root t = local_blobs x root s"
    using assms blob_not_key [OF assms(2)] by (auto simp: fun_eq_iff local_blobs_def)
  have "local_metas root t j = ((local_metas root s)(k := v)) j" for j
    using assms key_path_inj [of j k root] by (cases "j = k") (auto simp: local_metas_def)
  then show "local_metas root t = (local_metas root s)(k := v)" by blast
qed

end

section \<open>The methods of the backend\<close>

lemma final_parent:
  assumes "local_ok root s" and "final_path (canon root) p"
  shows "node_at s (butlast p) = Some Dir \<or>
     node_at s (butlast p) = None \<and> node_at s (butlast (butlast p)) = Some Dir \<and> butlast p \<noteq> []"
proof -
  let ?R = "canon root"
  from assms(2) consider a c where "p = ?R @ [''objects'', a, c]"
    | sec name where "sec \<in> set meta_sections" "p = ?R @ section_dir sec @ [key_file sec name]"
    by (auto simp: final_path_def)
  then show ?thesis
  proof cases
    case 1
    have "node_at s (?R @ [''objects'']) = Some Dir" using local_okD(2) [OF assms(1)] by (simp add: base_dirs_def)
    moreover have "n = Dir" if "node_at s (?R @ [''objects'', a]) = Some n" for n
      using disk_okD(2) [OF local_okD(1) [OF assms(1)] that] by (simp add: allowed_def)
    ultimately show ?thesis using 1 by (cases "node_at s (?R @ [''objects'', a])") (simp_all add: butlast_append)
  next
    case 2
    with local_okD(2) [OF assms(1) dir_shape_section [OF 2(1)]] show ?thesis by (simp add: butlast_append)
  qed
qed

lemma final_lookup:
  assumes "local_ok root s" and "final_path (canon root) p"
  shows "fs_lookup s p = (case view root s p of None \<Rightarrow> Inl NotFoundKind | Some d \<Rightarrow> Inr (File d))"
proof -
  have p: "p \<noteq> []" "\<not> in_tmp (canon root) p"
    by (rule final_pathE [OF assms(2), of "[]"]; simp add: in_tmp_def butlast_append)+
  have view: "view root s p = (case node_at s p of Some (File d) \<Rightarrow> Some d | _ \<Rightarrow> None)"
    using p by (simp add: view_def file_at_def)
  note disk = local_okD(1) [OF assms(1)]
  from final_parent [OF assms] show ?thesis
  proof
    assume "node_at s (butlast p) = Some Dir"
    from child_lookup [OF disk this p(1)] view final_file [OF disk assms(2)] show ?thesis
      by (auto split: option.splits node.splits)
  next
    assume a: "node_at s (butlast p) = None \<and> node_at s (butlast (butlast p)) = Some Dir \<and> butlast p \<noteq> []"
    with orphan_lookup [OF disk, of "butlast p" "last p"] p(1) have "fs_lookup s p = Inl NotFoundKind" by simp
    moreover have "node_at s p = None" using disk_okD(1) [OF disk _ p(1)] a by (cases "node_at s p") auto
    ultimately show ?thesis using view by simp
  qed
qed

lemma or_missing_cases:
  assumes "or_missing v m s = (r, t)"
  obtains a where "m s = (Inr a, t)" "r = Inr a" | "m s = (Inl NotFoundKind, t)" "r = Inr v"
    | e where "m s = (Inl (OtherKind e), t)" "r = Inl (Io e)"
  using assms
  by (cases "m s") (auto simp: or_missing_def and_then_def attempt_def ret_ok_def ret_err_def io_text_def split: sum.splits io_error.splits)

lemma remove_spec:
  assumes "local_ok root s" and "final_path (canon root) (canon path)" and "or_missing () (fs_remove_file env path) s = (r, t)"
  shows "local_ok root t \<and> view root t = (case r of Inl e \<Rightarrow> view root s | Inr u \<Rightarrow> (view root s)(canon path := None))"
proof -
  let ?s = "s\<lparr>tick := Suc (tick s)\<rparr>" and ?p = "canon path"
  have s: "local_ok root ?s" using assms(1) by simp
  have p: "?p \<noteq> []" by (rule final_pathE [OF assms(2), of "[]"]) simp
  note lookup = final_lookup [OF s assms(2)]
  note not_dir = final_file [OF local_okD(1) [OF s] assms(2)]
  show ?thesis
  proof (cases "fault env (tick s)")
    case (Some e)
    with assms(1) show ?thesis
      using assms(3) by (auto simp: fs_remove_file_def fs_call_def Let_def elim!: or_missing_cases)
  next
    case None
    show ?thesis
    proof (cases "view root s ?p")
      case None
      with lookup \<open>fault env (tick s) = None\<close> have "fs_remove_file env path s = (Inl NotFoundKind, ?s)"
        by (simp add: fs_remove_file_def fs_call_def Let_def)
      with assms(1,3) None show ?thesis by (auto simp: fun_eq_iff elim!: or_missing_cases)
    next
      case (Some d)
      with lookup \<open>fault env (tick s) = None\<close> have "fs_remove_file env path s = (Inr (), del_node ?p ?s)"
        by (simp add: fs_remove_file_def fs_call_def Let_def)
      with local_ok_del [OF s p not_dir] view_del [OF p] assms(3) show ?thesis by (auto elim!: or_missing_cases)
    qed
  qed
qed

lemma query_step:
  assumes "fs_call env (\<lambda>s. (g s, s)) s = (r, t)" and "local_ok root s"
  shows "local_ok root t" and "view root t = view root s" and "r = g t \<or> (\<exists>e. r = Inl (OtherKind e))"
  using assms by (auto elim!: fs_call_cases)

context store_codec
begin

lemma local_has_blob_spec:
  assumes s: "local_ok root s" and run: "local_has_blob env x root h f s = (rb, t)"
  shows "local_ok root t \<and> view root t = view root s \<and> (\<forall>present. rb = Inr present \<longrightarrow> present = (local_blobs x root s (h, f) \<noteq> None))"
proof -
  obtain r t1 where m: "or_missing Dir (fs_metadata env (blob_path x root h f)) s = (r, t1)" by (rule prod.exhaust)
  with run have rb: "t1 = t" "rb = (case r of Inl e \<Rightarrow> Inl e | Inr n \<Rightarrow> Inr (is_file n))"
    by (auto simp: local_has_blob_def and_then_def ret_ok_def split: sum.splits)
  obtain q where q: "fs_metadata env (blob_path x root h f) s = (q, t)"
    "r = (case q of Inr n \<Rightarrow> Inr n | Inl NotFoundKind \<Rightarrow> Inr Dir | Inl (OtherKind e) \<Rightarrow> Inl (Io e))"
    using m rb(1) by (elim or_missing_cases) auto
  note t = query_step [OF q(1) [unfolded fs_metadata_def] s]
  from t final_lookup [OF t(1) blob_final] show ?thesis
    by (auto simp: rb q(2) local_blobs_def is_file_def split: option.splits)
qed

lemma local_get_blob_spec:
  assumes s: "local_ok root s" and run: "local_get_blob env x root h f s = (rr, t)"
  shows "local_ok root t \<and> view root t = view root s \<and>
     (\<forall>rd. rr = Inr rd \<longrightarrow> (\<exists>d. local_blobs x root s (h, f) = Some d \<and> drain (events rd) = Inr d)) \<and>
     (rr = Inl NotFound \<longrightarrow> local_blobs x root s (h, f) = None)"
proof -
  obtain q where q: "fs_open env (blob_path x root h f) s = (q, t)"
    "rr = (case q of Inr n \<Rightarrow> Inr n | Inl NotFoundKind \<Rightarrow> Inl NotFound | Inl (OtherKind e) \<Rightarrow> Inl (Io e))"
    using run by (cases "fs_open env (blob_path x root h f) s")
      (auto simp: local_get_blob_def map_err_def io_text_def split: sum.splits io_error.splits)
  note t = query_step [OF q(1) [unfolded fs_open_def] s]
  from t final_lookup [OF t(1) blob_final] show ?thesis
    by (auto simp: q(2) local_blobs_def split: option.splits)
qed

lemma local_get_meta_spec:
  assumes s: "local_ok root s" and run: "local_get_meta env root k s = (rm, t)"
  shows "local_ok root t \<and> view root t = view root s \<and> (local_key k \<and> rm = Inr w \<longrightarrow> w = local_metas root s k)"
proof -
  obtain q where q: "fs_read env (get_meta_file_path root k) s = (q, t)"
    "rm = (case q of Inr d \<Rightarrow> Inr (Some d) | Inl NotFoundKind \<Rightarrow> Inr None | Inl (OtherKind e) \<Rightarrow> Inl (Io e))"
    using run unfolding local_get_meta_def by (cases "fs_read env (get_meta_file_path root k) s") (auto elim!: or_missing_cases split: sum.splits)
  note t = query_step [OF q(1) [unfolded fs_read_def] s]
  from t final_lookup [OF t(1) local_key_final] show ?thesis
    by (auto simp: q(2) local_metas_def split: option.splits)
qed

end

lemma put_file_spec:
  assumes "env_ok env" and "local_ok root s" and "final_path (canon root) (canon final)" and "canon_parent final = butlast (canon final)"
    and "new_tmp env root final s = (r, t)"
  shows "stays root s t" and "r = Inr tmp \<Longrightarrow> fill_tmp env tmp final d t = (r', u) \<Longrightarrow> settled root (canon final) d s r' u"
    and "r = Inr tmp \<Longrightarrow> in_tmp (canon root) (canon tmp)"
proof -
  obtain e c where e: "canon final = canon root @ e @ [c]" "dir_shape e" by (rule final_pathE [OF assms(3)])
  then have "canon_parent final = canon root @ e" using assms(4) by (simp add: butlast_append)
  note new = new_tmp_spec [OF assms(1) this e(2) assms(2,5)]
  show s: "stays root s t" by (rule new(1))
  show "r = Inr tmp \<Longrightarrow> in_tmp (canon root) (canon tmp)" using new(2) by blast
  assume "r = Inr tmp" "fill_tmp env tmp final d t = (r', u)"
  with new(2) fill_tmp_spec [OF staysD(1) [OF s] _ assms(3) _ this(2)] show "settled root (canon final) d s r' u"
    by (intro settled_after [OF s]) (simp add: e(1) butlast_append)
qed

lemma key_parent: "local_key k \<Longrightarrow> canon_parent (get_meta_file_path root k) = butlast (canon (get_meta_file_path root k))"
  by (elim local_keyE) (simp add: key_path butlast_append)

lemma local_put_meta_spec:
  assumes "env_ok env" and "local_ok root s" and "local_key k" and "local_put_meta env root k v s = (r, t)"
  shows "settled root (canon (get_meta_file_path root k)) v s r t"
proof -
  obtain r1 s1 where n: "new_tmp env root (get_meta_file_path root k) s = (r1, s1)" by (rule prod.exhaust)
  note put = put_file_spec [OF assms(1,2) local_key_final [OF assms(3)] key_parent [OF assms(3)] n]
  show ?thesis
  proof (cases r1)
    case (Inl e)
    with assms(4) n have "r = Inl e" "t = s1" by (simp_all add: local_put_meta_def Let_def and_then_def)
    with put(1) show ?thesis by (simp add: settled_failed)
  next
    case (Inr tmp)
    with assms(4) n put(2) show ?thesis by (simp add: local_put_meta_def Let_def and_then_def)
  qed
qed

context store_codec
begin

lemma blob_parent: "canon_parent (blob_path x root h f) = butlast (canon (blob_path x root h f))"
  by (simp add: blob_path_canon butlast_append)

lemma local_put_blob_spec:
  assumes "env_ok env" and "local_ok root s" and "local_put_blob env x root h f hr s = (ru, hr', t)"
  shows "\<exists>d. settled root (canon (blob_path x root h f)) d s ru t \<and>
     (ru = Inr () \<longrightarrow> local_blobs x root s (h, f) = Some d \<and> hr' = hr \<or>
        drain (events (inner hr)) = Inr d \<and> hasher hr' = hasher hr @ d)"
proof -
  let ?final = "blob_path x root h f"
  obtain r0 s0 where m: "fs_metadata env ?final s = (r0, s0)" by (rule prod.exhaust)
  obtain r1 s1 where n: "new_tmp env root ?final s0 = (r1, s1)" by (rule prod.exhaust)
  obtain r2 hr2 where c: "copy_all [] hr = (r2, hr2)" by (rule prod.exhaust)
  note q = query_step [OF m [unfolded fs_metadata_def] assms(2)]
  have s0: "stays root s s0" by (rule leaves_stays [OF leaves_queries(1) m assms(2)])
  note put = put_file_spec [OF assms(1) q(1) blob_final blob_parent n]
  note s1 = stays_trans [OF s0 put(1)]
  note run = assms(3) [unfolded local_put_blob_def Let_def m, simplified]
  show ?thesis
  proof (cases r0)
    case (Inr node)
    from q final_lookup [OF q(1) blob_final] obtain d where d: "view root s (canon ?final) = Some d"
      by (auto simp: Inr split: option.splits)
    then have "(view root s)(canon ?final \<mapsto> d) = view root s" by (simp add: map_upd_triv)
    with run Inr q(1,2) d show ?thesis by (intro exI [of _ d]) (auto simp: settled_def local_blobs_def)
  next
    case (Inl e0)
    note run = run [unfolded Inl n c, simplified]
    show ?thesis
    proof (cases r1)
      case (Inl e)
      with run s1 show ?thesis by (auto simp: settled_failed)
    next
      case (Inr tmp)
      note tmp = put(3) [OF Inr]
      show ?thesis
      proof (cases r2)
        case (Inl e)
        note w = tmp_keeps(1) [OF staysD(1) [OF s1] tmp] view_tmp(1) [OF tmp]
        from run Inr Inl w staysD(2) [OF s1] show ?thesis by (auto simp: settled_def)
      next
        case (Inr d)
        obtain r3 s3 where f: "fill_tmp env tmp ?final d s1 = (r3, s3)" by (rule prod.exhaust)
        with run Inr \<open>r1 = Inr tmp\<close> have "ru = r3" "t = s3" "hr' = hr2" by auto
        with settled_after [OF s0 put(2) [OF \<open>r1 = Inr tmp\<close> f]] copy_new(2) [OF c Inr] show ?thesis by blast
      qed
    qed
  qed
qed

end

lemma list_entries_spec:
  "list_entries env pre es s = (r, t) \<Longrightarrow> local_ok root s \<Longrightarrow>
     stays root s t \<and> (\<forall>ks. r = Inr ks \<longrightarrow> ks = map (\<lambda>(a, n). entry_key pre a) (filter (\<lambda>(a, n). is_file n) es))"
proof (induction es arbitrary: s r t)
  case Nil
  have "leaves root (list_entries env pre [])" by (simp add: leaves_then leaves_wrap leaves_queries)
  from leaves_stays [OF this Nil] Nil(1) show ?case by (cases r) (auto simp: and_then_Inr ret_ok_Inr)
next
  case (Cons e es)
  obtain a n where e: "e = (a, n)" by (cases e)
  have keeps: "leaves root (store_io (fs_sync env))" by (intro leaves_wrap leaves_queries)
  obtain r1 s1 where y: "store_io (fs_sync env) s = (r1, s1)" by (rule prod.exhaust)
  obtain r2 s2 where z: "store_io (fs_sync env) s1 = (r2, s2)" by (rule prod.exhaust)
  obtain r3 s3 where l: "list_entries env pre es s2 = (r3, s3)" by (rule prod.exhaust)
  note s1 = leaves_stays [OF keeps y Cons.prems(2)]
  note s2 = stays_trans [OF s1 leaves_stays [OF keeps z staysD(1) [OF s1]]]
  note ih = Cons.IH [OF l staysD(1) [OF s2]]
  note run = Cons.prems(1) [unfolded e list_entries.simps and_then_def ret_ok_def y z l, simplified]
  show ?case
    using run z l s1 s2 ih stays_trans [OF s2] by (cases r1; cases r2; cases r3) (auto simp: e)
qed

lemma entry_key_file:
  assumes "sec \<in> set meta_sections" and "name_ok sec name"
  shows "entry_key sec (key_file sec name) = sec @ name"
proof -
  have strip: "strip_suffix name ''.json'' = None" if "sec = ''tags/'' \<or> sec = ''index/''"
    using assms(2) that by (auto simp: name_ok_def strip_suffix_def)
  show ?thesis using assms(1) strip
    by (cases sec rule: section_cases) (simp_all add: entry_key_def key_file_def starts_with_def trim_end_matches_def)
qed

lemma dir_list_iff:
  assumes "disk_ok R s"
  shows "(a, n) \<in> set (dir_list s p) \<longleftrightarrow> node_at s (p @ [a]) = Some n"
proof -
  have d: "distinct (map fst (nodes s))" using assms by (simp add: disk_ok_def)
  have "(a, n) \<in> set (dir_list s p) \<longleftrightarrow> (\<exists>q. (q, n) \<in> set (nodes s) \<and> q \<noteq> [] \<and> butlast q = p \<and> last q = a)"
    by (force simp: dir_list_def image_iff)
  also have "\<dots> \<longleftrightarrow> (p @ [a], n) \<in> set (nodes s)"
    by (metis append_butlast_last_id butlast_snoc last_snoc snoc_eq_iff_butlast)
  also have "\<dots> \<longleftrightarrow> node_at s (p @ [a]) = Some n" using d by (simp add: node_at_def map_of_eq_Some_iff)
  finally show ?thesis .
qed

lemma dir_list_distinct: "disk_ok R s \<Longrightarrow> distinct (map fst (dir_list s p))"
proof -
  assume "disk_ok R s"
  then have "distinct (filter (\<lambda>q. q \<noteq> [] \<and> butlast q = p) (map fst (nodes s)))" by (simp add: disk_ok_def)
  moreover have "map fst (dir_list s p) = map last (filter (\<lambda>q. q \<noteq> [] \<and> butlast q = p) (map fst (nodes s)))"
    by (simp add: dir_list_def filter_map o_def case_prod_unfold)
  moreover have "inj_on last (set (filter (\<lambda>q. q \<noteq> [] \<and> butlast q = p) (map fst (nodes s))))"
    by (rule inj_onI) (auto, metis append_butlast_last_id)
  ultimately show ?thesis by (simp only: distinct_map [of last] simp_thms)
qed

text \<open>The entries of the directory of a section are the files of its keys.\<close>

lemma section_entry:
  assumes "local_ok root s" and "sec \<in> set meta_sections" and "(a, n) \<in> set (dir_list s (canon root @ section_dir sec))"
  obtains name d where "name_ok sec name" "a = key_file sec name" "n = File d"
proof -
  note disk = local_okD(1) [OF assms(1)]
  from assms(3) have "node_at s (canon root @ section_dir sec @ [a]) = Some n" using dir_list_iff [OF disk] by simp
  from disk_okD(2) [OF disk this] have "is_file n \<and> (\<exists>name. name_ok sec name \<and> a = key_file sec name)"
    using assms(2) by (auto simp: allowed_def)
  then show thesis using that by (auto simp: is_file_def split: node.splits)
qed

lemma section_found:
  assumes "local_ok root s" and "sec \<in> set meta_sections" and "name_ok sec name"
  shows "local_metas root s (sec @ name) = Some d \<longleftrightarrow> (key_file sec name, File d) \<in> set (dir_list s (canon root @ section_dir sec))"
proof -
  let ?p = "canon root @ section_dir sec @ [key_file sec name]"
  have "\<not> in_tmp (canon root) ?p" using section_last [OF assms(2)] by (simp add: in_tmp_def butlast_append)
  then have "local_metas root s (sec @ name) = file_at s ?p"
    using assms(2,3) by (simp add: local_metas_def local_keyI key_path view_def)
  then show ?thesis using dir_list_iff [OF local_okD(1) [OF assms(1)], of "key_file sec name" "File d"]
    by (auto simp: file_at_def split: option.splits node.splits)
qed

lemma section_prefix:
  assumes "sec' \<in> set meta_sections" and "sec \<in> set meta_sections" and "prefix sec (sec' @ name)"
  shows "sec = sec'"
  by (rule section_cases [OF assms(1)]; rule section_cases [OF assms(2)]) (use assms(3) in simp_all)

lemma local_metas_section:
  assumes "sec \<in> set meta_sections" and "prefix sec k" and "local_metas root s k \<noteq> None"
  obtains name where "name_ok sec name" "k = sec @ name"
proof -
  have "local_key k" using assms(3) by (simp add: local_metas_def split: if_splits)
  then obtain sec' name where k: "sec' \<in> set meta_sections" "k = sec' @ name" "name_ok sec' name" by (rule local_keyE)
  with section_prefix [OF k(1) assms(1)] assms(2) show thesis by (intro that) auto
qed

lemma section_keys:
  assumes s: "local_ok root s" and sec: "sec \<in> set meta_sections"
  defines "es \<equiv> dir_list s (canon root @ section_dir sec)"
  shows "distinct (map (\<lambda>(a, n). entry_key sec a) es)"
    and "set (map (\<lambda>(a, n). entry_key sec a) es) = {k. local_metas root s k \<noteq> None \<and> prefix sec k}"
    and "filter (\<lambda>(a, n). is_file n) es = es"
proof -
  note entry = section_entry [OF s sec, folded es_def]
  show "filter (\<lambda>(a, n). is_file n) es = es" by (auto simp: filter_id_conv is_file_def elim: entry)
  have ks: "map (\<lambda>(a, n). entry_key sec a) es = map (entry_key sec) (map fst es)" by (simp add: case_prod_unfold)
  have "inj_on (entry_key sec) (set (map fst es))"
    by (rule inj_onI) (auto simp: entry_key_file [OF sec] elim!: entry)
  moreover have "distinct (map fst es)" unfolding es_def by (rule dir_list_distinct [OF local_okD(1) [OF s]])
  ultimately show "distinct (map (\<lambda>(a, n). entry_key sec a) es)"
    unfolding ks distinct_map [of "entry_key sec"] by blast
  have "k \<in> set (map (\<lambda>(a, n). entry_key sec a) es) \<longleftrightarrow> local_metas root s k \<noteq> None \<and> prefix sec k" for k
  proof
    assume "k \<in> set (map (\<lambda>(a, n). entry_key sec a) es)"
    then obtain a n where an: "(a, n) \<in> set es" "k = entry_key sec a" by auto
    from an(1) obtain name d where n: "name_ok sec name" "a = key_file sec name" "n = File d" by (rule entry)
    have "local_metas root s (sec @ name) = Some d" using section_found [OF s sec n(1), folded es_def] an(1) n by simp
    with an(2) n entry_key_file [OF sec n(1)] show "local_metas root s k \<noteq> None \<and> prefix sec k" by simp
  next
    assume k: "local_metas root s k \<noteq> None \<and> prefix sec k"
    then obtain name where n: "name_ok sec name" "k = sec @ name" using local_metas_section [OF sec] by blast
    with k obtain d where "(key_file sec name, File d) \<in> set es" using section_found [OF s sec n(1), folded es_def] by auto
    with entry_key_file [OF sec n(1)] n(2) show "k \<in> set (map (\<lambda>(a, n). entry_key sec a) es)" by force
  qed
  then show "set (map (\<lambda>(a, n). entry_key sec a) es) = {k. local_metas root s k \<noteq> None \<and> prefix sec k}" by blast
qed

lemma local_metas_view: "view root t = view root s \<Longrightarrow> local_metas root t = local_metas root s"
  by (simp add: fun_eq_iff local_metas_def)

lemma local_blobs_view: "view root t = view root s \<Longrightarrow> local_blobs x root t = local_blobs x root s"
  by (simp add: fun_eq_iff local_blobs_def)

lemma local_list_meta_spec:
  assumes "local_ok root s" and sec: "sec \<in> set meta_sections" and "local_list_meta env root sec s = (rl, t)"
  shows "stays root s t \<and> (\<forall>ks. rl = Inr ks \<longrightarrow> distinct ks \<and> set ks = {k. local_metas root s k \<noteq> None \<and> prefix sec k})"
proof -
  let ?D = "canon root @ section_dir sec"
  obtain r1 s1 where d: "fs_read_dir env (list_dir root sec) s = (r1, s1)" by (rule prod.exhaust)
  note q = query_step [OF d [unfolded fs_read_dir_def] assms(1)] and s1 = leaves_stays [OF leaves_queries(5) d assms(1)]
  have "node_at s1 ?D = Some Dir" using local_okD(2) [OF q(1) dir_shape_section [OF sec]] .
  then have r1: "r1 = Inr (dir_list s1 ?D) \<or> (\<exists>e. r1 = Inl (OtherKind e))"
    using q(3) node_lookup [OF local_okD(1) [OF q(1)]] by (auto simp: list_path [OF sec])
  show ?thesis
  proof (cases "r1 = Inr (dir_list s1 ?D)")
    case False
    with r1 d assms(3) s1 show ?thesis by (auto simp: local_list_meta_def and_then_def attempt_def ret_err_def)
  next
    case True
    with d assms(3) have l: "list_entries env sec (dir_list s1 ?D) s1 = (rl, t)"
      by (simp add: local_list_meta_def and_then_def attempt_def)
    from list_entries_spec [OF l q(1)] stays_trans [OF s1] section_keys [OF q(1) sec] show ?thesis
      unfolding local_metas_view [OF q(2)] section_keys(3) [OF q(1) sec] by blast
  qed
qed

section \<open>The file backend implements the contract\<close>

lemma local_backend_sels [simp]:
  "has_blob (local_backend env x root) = local_has_blob env x root" "put_blob (local_backend env x root) = local_put_blob env x root"
  "get_blob (local_backend env x root) = local_get_blob env x root" "delete_blob (local_backend env x root) = local_delete_blob env x root"
  "put_meta (local_backend env x root) = local_put_meta env root" "get_meta (local_backend env x root) = local_get_meta env root"
  "list_meta (local_backend env x root) = local_list_meta env root" "delete_meta (local_backend env x root) = local_delete_meta env root"
  by (simp_all add: local_backend_def)

lemmas local_views = local_metas_view local_blobs_view

context store_codec
begin

lemma blob_settled:
  assumes "settled root (canon (blob_path x root h f)) d s r t"
  shows "local_ok root t" and "local_metas root t = local_metas root s"
    and "local_blobs x root t = (case r of Inl e \<Rightarrow> local_blobs x root s | Inr u \<Rightarrow> (local_blobs x root s)((h, f) \<mapsto> d))"
  using assms blob_update [of root t s h f "Some d"] local_views [of root t s] by (auto simp: settled_def split: sum.splits)

lemma same_views: "view root t = view root s \<Longrightarrow> local_blobs x root t = local_blobs x root s \<and> local_metas root t = local_metas root s"
  using local_views by blast

lemma file_has_blob:
  assumes "local_ok root s" and "local_has_blob env x root h f s = (rb, t)"
  shows "local_ok root t \<and> local_blobs x root t = local_blobs x root s \<and> local_metas root t = local_metas root s \<and>
     (\<forall>present. rb = Inr present \<longrightarrow> present = (local_blobs x root s (h, f) \<noteq> None))"
  using local_has_blob_spec [OF assms] same_views [of root t s] by blast

lemma file_get_blob:
  assumes "local_ok root s" and "local_get_blob env x root h f s = (rr, t)"
  shows "local_ok root t \<and> local_blobs x root t = local_blobs x root s \<and> local_metas root t = local_metas root s \<and>
     (\<forall>rd. rr = Inr rd \<longrightarrow> (\<exists>d. local_blobs x root s (h, f) = Some d \<and> drain (events rd) = Inr d)) \<and>
     (rr = Inl NotFound \<longrightarrow> local_blobs x root s (h, f) = None)"
  using local_get_blob_spec [OF assms] same_views [of root t s] by blast

lemma file_get_meta:
  assumes "local_ok root s" and "local_get_meta env root k s = (rm, t)"
  shows "local_ok root t \<and> local_blobs x root t = local_blobs x root s \<and> local_metas root t = local_metas root s"
    and "local_key k \<Longrightarrow> rm = Inr w \<Longrightarrow> w = local_metas root s k"
  using local_get_meta_spec [OF assms] same_views [of root t s] by blast+

lemma file_put_blob:
  assumes "env_ok env" and "local_ok root s" and "local_put_blob env x root h f hr s = (ru, hr', t)"
  shows "local_ok root t" and "local_metas root t = local_metas root s" and "ru = Inl e \<Longrightarrow> local_blobs x root t = local_blobs x root s"
    and "ru = Inr () \<Longrightarrow> \<exists>d. local_blobs x root t = (local_blobs x root s)((h, f) \<mapsto> d) \<and>
       (local_blobs x root s (h, f) = Some d \<and> hr' = hr \<or> drain (events (inner hr)) = Inr d \<and> hasher hr' = hasher hr @ d)"
proof -
  obtain d where "settled root (canon (blob_path x root h f)) d s ru t"
    "ru = Inr () \<longrightarrow> local_blobs x root s (h, f) = Some d \<and> hr' = hr \<or> drain (events (inner hr)) = Inr d \<and> hasher hr' = hasher hr @ d"
    using local_put_blob_spec [OF assms] by blast
  with blob_settled [OF this(1)] show "local_ok root t" "local_metas root t = local_metas root s"
    "ru = Inl e \<Longrightarrow> local_blobs x root t = local_blobs x root s"
    "ru = Inr () \<Longrightarrow> \<exists>d. local_blobs x root t = (local_blobs x root s)((h, f) \<mapsto> d) \<and>
       (local_blobs x root s (h, f) = Some d \<and> hr' = hr \<or> drain (events (inner hr)) = Inr d \<and> hasher hr' = hasher hr @ d)"
    by auto
qed

lemma file_delete_blob:
  assumes "local_ok root s" and "local_delete_blob env x root h f s = (ru, t)"
  shows "local_ok root t \<and> local_metas root t = local_metas root s \<and>
     local_blobs x root t = (case ru of Inl e \<Rightarrow> local_blobs x root s | Inr u \<Rightarrow> (local_blobs x root s)((h, f) := None))"
  using remove_spec [OF assms(1) blob_final assms(2) [unfolded local_delete_blob_def]] blob_update [of root t s h f None] same_views [of root t s]
  by (auto split: sum.splits)

lemma file_put_meta:
  assumes "env_ok env" and "local_ok root s" and "local_key k" and "local_put_meta env root k v s = (ru, t)"
  shows "local_ok root t \<and> local_blobs x root t = local_blobs x root s \<and>
     local_metas root t = (case ru of Inl e \<Rightarrow> local_metas root s | Inr u \<Rightarrow> (local_metas root s)(k \<mapsto> v))"
  using local_put_meta_spec [OF assms] key_update [of root t s k "Some v"] same_views [of root t s] assms(3)
  by (auto simp: settled_def split: sum.splits)

lemma file_delete_meta:
  assumes "local_ok root s" and "local_key k" and "local_delete_meta env root k s = (ru, t)"
  shows "local_ok root t \<and> local_blobs x root t = local_blobs x root s \<and>
     local_metas root t = (case ru of Inl e \<Rightarrow> local_metas root s | Inr u \<Rightarrow> (local_metas root s)(k := None))"
  using remove_spec [OF assms(1) local_key_final [OF assms(2)] assms(3) [unfolded local_delete_meta_def]]
    key_update [of root t s k None] same_views [of root t s] assms(2)
  by (auto split: sum.splits)

lemma file_list_meta:
  assumes "local_ok root s" and "p \<in> set meta_sections" and "local_list_meta env root p s = (rl, t)"
  shows "local_ok root t \<and> local_blobs x root t = local_blobs x root s \<and> local_metas root t = local_metas root s \<and>
     (\<forall>ks. rl = Inr ks \<longrightarrow> distinct ks \<and> set ks = {k. local_metas root s k \<noteq> None \<and> prefix p k})"
  using local_list_meta_spec [OF assms] same_views [of root t s] unfolding stays_def by blast

lemma file_backend: "env_ok env \<Longrightarrow> storage_backend (local_backend env x root) (local_blobs x root) (local_metas root) (local_ok root) local_key False"
proof (unfold_locales, unfold local_backend_sels)
  fix s t h f hr hr' ru
  assume a: "env_ok env" "local_ok root s" "local_put_blob env x root h f hr s = (ru, hr', t)"
  show "local_ok root t \<and> local_metas root t = local_metas root s \<and>
         (\<forall>e. ru = Inl e \<longrightarrow> local_blobs x root t = local_blobs x root s) \<and>
         (ru = Inr () \<longrightarrow> (\<exists>d. local_blobs x root t = (local_blobs x root s)((h, f) \<mapsto> d) \<and>
            (\<not> False \<and> local_blobs x root s (h, f) = Some d \<and> hr' = hr \<or>
             drain (events (inner hr)) = Inr d \<and> hasher hr' = hasher hr @ d)))"
    using file_put_blob [OF a] by fastforce
next
  fix s t k w
  assume "local_ok root s" "local_key k" "local_get_meta env root k s = (Inr w, t)"
  with file_get_meta(2) [OF this(1,3)] show "w = local_metas root s k" by blast
qed (rule file_has_blob file_get_blob file_delete_blob file_put_meta file_get_meta(1) file_list_meta file_delete_meta; assumption)+

end

lemma local_store:
  assumes "store_codec x" and "env_ok env"
  shows "layer_store x (local_backend env x root) (local_blobs x root) (local_metas root) (local_ok root) local_key False"
  using assms store_codec.file_backend [OF assms] store_codec.local_key_hash [OF assms(1)]
  by (intro layer_store.intro layer_store_axioms.intro)

end
