(* ===== verification/Local_Store.thy ===== *)
theory Local_Store
  imports Local_Json Layer_Memory
begin

text \<open>
  The layer store on files. Opening a store again keeps its contents and removes what interrupted
  uploads have left; every call of the file backend is a call of the two partial maps that the
  store is meant to be, or fails and changes nothing, whatever the disk does; when the disk does not
  fail, the backend satisfies the contract of the reliable store too, and with it everything that is
  proved for such a store holds on files.
\<close>

section \<open>Opening a store\<close>

lemma store_dirs_canon: "map canon (store_dirs root) = map (\<lambda>d. canon root @ d) base_dirs"
  by (simp add: store_dirs_def base_dirs_def canon_join)

lemma make_dirs_spec:
  assumes "make_dirs env ds s = (r, t)" and "disk_ok R s" and "\<And>d. d \<in> set ds \<Longrightarrow> \<exists>e. canon d = R @ e \<and> dir_shape e"
  shows "disk_ok R t \<and> file_at t = file_at s \<and> (\<forall>q. node_at s q = Some Dir \<longrightarrow> node_at t q = Some Dir) \<and>
     (r = Inr () \<longrightarrow> (\<forall>d \<in> set ds. node_at t (canon d) = Some Dir))"
  using assms
proof (induction ds arbitrary: s)
  case (Cons d ds)
  obtain e where e: "canon d = R @ e" "dir_shape e" using Cons.prems(3) [of d] by auto
  obtain r1 s1 where c: "create_dir_all env (R @ e) s = (r1, s1)" by (rule prod.exhaust)
  note spec = create_dir_spec [OF c Cons.prems(2) e(2)]
  show ?case
  proof (cases r1)
    case (Inl err)
    with Cons.prems(1) c e have "\<exists>e'. r = Inl e'" "t = s1" by (auto simp: and_then_def map_err_def)
    with spec show ?thesis by auto
  next
    case (Inr u)
    with Cons.prems(1) c e have "make_dirs env ds s1 = (r, t)" by (simp add: and_then_def map_err_def)
    from Cons.IH [OF this spec(1)] Cons.prems(3) spec Inr e show ?thesis by auto
  qed
qed (simp add: ret_ok_def)

lemma store_dirs_shape:
  assumes "d \<in> set (store_dirs root)"
  obtains e where "e \<in> set base_dirs" "canon d = canon root @ e" "dir_shape e"
proof -
  have "canon d \<in> set (map (\<lambda>d. canon root @ d) base_dirs)" unfolding store_dirs_canon [symmetric] using assms by simp
  then show thesis using dir_shape_base that by auto
qed

lemma store_dirs_shape': "d \<in> set (store_dirs root) \<Longrightarrow> \<exists>e. canon d = canon root @ e \<and> dir_shape e"
  by (erule store_dirs_shape) blast

lemma make_dirs_ok:
  assumes "make_dirs env (store_dirs root) s = (Inr (), t)" and "disk_ok (canon root) s"
  shows "local_ok root t"
proof -
  note spec = make_dirs_spec [OF assms store_dirs_shape']
  then have "\<forall>p \<in> set (map canon (store_dirs root)). node_at t p = Some Dir" by simp
  then show ?thesis unfolding store_dirs_canon using spec by (simp add: local_ok_def)
qed

lemma clean_stays:
  assumes "local_ok root s" and "\<And>a n. (a, n) \<in> set es \<Longrightarrow> plain a"
  shows "stays root s (clean_entries env (path_join root ''tmp'') es s)"
  using assms
proof (induction es arbitrary: s)
  case Nil
  then show ?case by (simp add: stays_refl)
next
  case (Cons e es)
  obtain a n where e: "e = (a, n)" by (cases e)
  obtain r1 s1 where y: "fs_sync env s = (r1, s1)" by (rule prod.exhaust)
  obtain r2 s2 where z: "fs_sync env s1 = (r2, s2)" by (rule prod.exhaust)
  let ?u = "if is_file n then snd (fs_remove_file env (path_join (path_join root ''tmp'') a) s2) else s2"
  have a: "in_tmp (canon root) (canon (path_join (path_join root ''tmp'') a))"
    using Cons.prems(2) [of a n] by (simp add: e canon_join in_tmp_def butlast_append)
  note s1 = leaves_stays [OF leaves_queries(2) y Cons.prems(1)]
  note s2 = stays_trans [OF s1 leaves_stays [OF leaves_queries(2) z staysD(1) [OF s1]]]
  have u: "stays root s ?u"
    using s2 stays_trans [OF s2] leaves_tmp(3) [OF a] staysD(1) [OF s2] by (simp add: leaves_def)
  have ih: "stays root s (clean_entries env (path_join root ''tmp'') es v)" if "stays root s v" for v
    using stays_trans [OF that Cons.IH [OF staysD(1) [OF that]]] Cons.prems(2) [OF list.set_intros(2)] by blast
  show ?case using s1 ih [OF s2] ih [OF u] by (cases r1; cases r2; cases "is_file n") (simp_all add: e y z)
qed

lemma tmp_entries: "local_ok root s \<Longrightarrow> (a, n) \<in> set (dir_list s (canon root @ [''tmp''])) \<Longrightarrow> plain a \<and> is_file n"
  using disk_okD(2) [OF local_okD(1), of root s "canon root @ [''tmp'', a]" n] dir_list_iff [OF local_okD(1), of root s a n "canon root @ [''tmp'']"]
  by (simp add: allowed_def)

lemma open_spec:
  assumes "disk_ok (canon root) s" and "new_LocalJsonBackend env root s = (r, t)"
  shows "disk_ok (canon root) t" and "view root t = view root s" and "r = Inr () \<Longrightarrow> local_ok root t"
proof -
  obtain r1 s1 where m: "make_dirs env (store_dirs root) s = (r1, s1)" by (rule prod.exhaust)
  note spec = make_dirs_spec [OF m assms(1) store_dirs_shape']
  have s1: "view root s1 = view root s" using spec by (simp add: view_def fun_eq_iff)
  have "disk_ok (canon root) t \<and> view root t = view root s \<and> (r = Inr () \<longrightarrow> local_ok root t)"
  proof (cases r1)
    case (Inl e)
    with assms(2) m have "t = s1" "r = Inl e" by (simp_all add: new_LocalJsonBackend_def and_then_def)
    with spec s1 show ?thesis by simp
  next
    case (Inr u)
    let ?tmp = "path_join root ''tmp''"
    obtain r2 s2 where d: "fs_read_dir env ?tmp s1 = (r2, s2)" by (rule prod.exhaust)
    have "local_ok root s1" using make_dirs_ok [OF _ assms(1)] m Inr by simp
    note q = query_step [OF d [unfolded fs_read_dir_def] this] and s2 = leaves_stays [OF leaves_queries(5) d this]
    have "node_at s2 (canon root @ [''tmp'']) = Some Dir" using local_okD(2) [OF q(1)] by (simp add: base_dirs_def)
    then have r2: "r2 = Inr es \<Longrightarrow> es = dir_list s2 (canon root @ [''tmp''])" for es
      using q(3) node_lookup [OF local_okD(1) [OF q(1)]] by (auto simp: canon_join)
    have "stays root s1 t"
      using assms(2) m d Inr s2 stays_trans [OF s2 clean_stays [OF q(1)]] tmp_entries [OF q(1)] r2
      by (cases r2) (auto simp: new_LocalJsonBackend_def and_then_def Let_def)
    with s1 show ?thesis by (simp add: stays_def local_okD)
  qed
  then show "disk_ok (canon root) t" "view root t = view root s" "r = Inr () \<Longrightarrow> local_ok root t" by blast+
qed

section \<open>The store as two partial maps\<close>

text \<open>The calls of the interface and what they answer.\<close>

datatype backend_call =
    HasBlob ContentHash ArtifactFormat
  | PutBlob ContentHash ArtifactFormat HashingReader
  | GetBlob ContentHash ArtifactFormat
  | DeleteBlob ContentHash ArtifactFormat
  | PutMeta string bytes
  | GetMeta string
  | ListMeta string
  | DeleteMeta string

datatype answer = Failed | Completed | Present bool | Missing | Content "string + bytes" | Document "bytes option" | Keys "string list"

definition answer_of :: "('a \<Rightarrow> answer) \<Rightarrow> StoreError + 'a \<Rightarrow> answer" where
  "answer_of g r = (case r of Inl e \<Rightarrow> Failed | Inr a \<Rightarrow> g a)"

fun run_call :: "'b StorageBackend \<Rightarrow> backend_call \<Rightarrow> 'b \<Rightarrow> answer \<times> 'b" where
  "run_call b (HasBlob h f) s = (case has_blob b h f s of (r, t) \<Rightarrow> (answer_of Present r, t))"
| "run_call b (PutBlob h f hr) s = (case put_blob b h f hr s of (r, hr', t) \<Rightarrow> (answer_of (\<lambda>u. Completed) r, t))"
| "run_call b (GetBlob h f) s = 
     (case get_blob b h f s of (r, t) \<Rightarrow> (if r = Inl NotFound then Missing else answer_of (\<lambda>rd. Content (drain (events rd))) r, t))"
| "run_call b (DeleteBlob h f) s = (case delete_blob b h f s of (r, t) \<Rightarrow> (answer_of (\<lambda>u. Completed) r, t))"
| "run_call b (PutMeta k v) s = (case put_meta b k v s of (r, t) \<Rightarrow> (answer_of (\<lambda>u. Completed) r, t))"
| "run_call b (GetMeta k) s = (case get_meta b k s of (r, t) \<Rightarrow> (answer_of Document r, t))"
| "run_call b (ListMeta p) s = (case list_meta b p s of (r, t) \<Rightarrow> (answer_of Keys r, t))"
| "run_call b (DeleteMeta k) s = (case delete_meta b k s of (r, t) \<Rightarrow> (answer_of (\<lambda>u. Completed) r, t))"

type_synonym store_maps = "(ContentHash \<times> ArtifactFormat \<Rightarrow> bytes option) \<times> (string \<Rightarrow> bytes option)"

text \<open>
  The specification: any call may fail and then changes nothing; otherwise it reads or
  updates the maps. An upload of a blob that is there may be skipped.
\<close>

inductive spec_call :: "backend_call \<Rightarrow> store_maps \<Rightarrow> answer \<Rightarrow> store_maps \<Rightarrow> bool" where
  failed: "spec_call c st Failed st"
| has: "spec_call (HasBlob h f) (B, M) (Present (B (h, f) \<noteq> None)) (B, M)"
| put: "drain (events (inner hr)) = Inr d \<Longrightarrow> spec_call (PutBlob h f hr) (B, M) Completed (B((h, f) \<mapsto> d), M)"
| skip: "B (h, f) = Some d \<Longrightarrow> spec_call (PutBlob h f hr) (B, M) Completed (B, M)"
| get: "B (h, f) = Some d \<Longrightarrow> spec_call (GetBlob h f) (B, M) (Content (Inr d)) (B, M)"
| missing: "B (h, f) = None \<Longrightarrow> spec_call (GetBlob h f) (B, M) Missing (B, M)"
| delete: "spec_call (DeleteBlob h f) (B, M) Completed (B((h, f) := None), M)"
| put_doc: "spec_call (PutMeta k v) (B, M) Completed (B, M(k \<mapsto> v))"
| get_doc: "spec_call (GetMeta k) (B, M) (Document (M k)) (B, M)"
| keys: "distinct ks \<Longrightarrow> set ks = {k. M k \<noteq> None \<and> prefix p k} \<Longrightarrow> spec_call (ListMeta p) (B, M) (Keys ks) (B, M)"
| delete_doc: "spec_call (DeleteMeta k) (B, M) Completed (B, M(k := None))"

definition call_ok :: "(string \<Rightarrow> bool) \<Rightarrow> backend_call \<Rightarrow> bool" where
  "call_ok key_ok c = (case c of PutMeta k v \<Rightarrow> key_ok k | GetMeta k \<Rightarrow> key_ok k | DeleteMeta k \<Rightarrow> key_ok k
     | ListMeta p \<Rightarrow> p \<in> set meta_sections | _ \<Rightarrow> True)"


definition maps :: "store_ext \<Rightarrow> string \<Rightarrow> disk \<Rightarrow> store_maps" where
  "maps x root s = (local_blobs x root s, local_metas root s)"

lemma answer_failed: "spec_call c st (answer_of g (Inl e)) st"
  by (simp add: answer_of_def spec_call.failed)

lemma answer_Inr [simp]: "answer_of g (Inr v) = g v"
  by (simp add: answer_of_def)

lemma spec_has: "p = (B (h, f) \<noteq> None) \<Longrightarrow> spec_call (HasBlob h f) (B, M) (Present p) (B, M)"
  by (simp only: spec_call.has)

lemma spec_put:
  "B' = B((h, f) \<mapsto> d) \<Longrightarrow> B (h, f) = Some d \<or> drain (events (inner hr)) = Inr d \<Longrightarrow>
     spec_call (PutBlob h f hr) (B, M) Completed (B', M)"
  by (auto simp: map_upd_triv intro: spec_call.put spec_call.skip)

context store_codec
begin

lemma call_reads:
  assumes s: "local_ok root s"
  shows "local_has_blob env x root h f s = (rb, t) \<Longrightarrow> local_ok root t \<and> spec_call (HasBlob h f) (maps x root s) (answer_of Present rb) (maps x root t)"
    and "local_get_blob env x root h f s = (rr, t) \<Longrightarrow> local_ok root t \<and> spec_call (GetBlob h f) (maps x root s)
       (if rr = Inl NotFound then Missing else answer_of (\<lambda>rd. Content (drain (events rd))) rr) (maps x root t)"
    and "local_key k \<Longrightarrow> local_get_meta env root k s = (rm, t) \<Longrightarrow> local_ok root t \<and> spec_call (GetMeta k) (maps x root s) (answer_of Document rm) (maps x root t)"
    and "p \<in> set meta_sections \<Longrightarrow> local_list_meta env root p s = (rl, t) \<Longrightarrow>
       local_ok root t \<and> spec_call (ListMeta p) (maps x root s) (answer_of Keys rl) (maps x root t)"
proof -
  assume r: "local_has_blob env x root h f s = (rb, t)"
  show "local_ok root t \<and> spec_call (HasBlob h f) (maps x root s) (answer_of Present rb) (maps x root t)"
    using file_has_blob [OF s r] by (cases rb) (simp_all add: answer_failed spec_has maps_def del: not_None_eq)
next
  assume r: "local_get_blob env x root h f s = (rr, t)"
  show "local_ok root t \<and> spec_call (GetBlob h f) (maps x root s)
       (if rr = Inl NotFound then Missing else answer_of (\<lambda>rd. Content (drain (events rd))) rr) (maps x root t)"
    using file_get_blob [OF s r] by (cases rr) (auto simp: answer_failed maps_def intro: spec_call.get spec_call.missing)
next
  assume k: "local_key k" and r: "local_get_meta env root k s = (rm, t)"
  show "local_ok root t \<and> spec_call (GetMeta k) (maps x root s) (answer_of Document rm) (maps x root t)"
    using file_get_meta [OF s r] k by (cases rm) (simp_all add: answer_failed maps_def spec_call.get_doc)
next
  assume p: "p \<in> set meta_sections" and r: "local_list_meta env root p s = (rl, t)"
  show "local_ok root t \<and> spec_call (ListMeta p) (maps x root s) (answer_of Keys rl) (maps x root t)"
    using file_list_meta [OF s p r] by (cases rl) (simp_all add: answer_failed maps_def spec_call.keys del: not_None_eq)
qed

lemma call_writes:
  assumes env: "env_ok env" and s: "local_ok root s"
  shows "local_put_blob env x root h f hr s = (ru, hr', t) \<Longrightarrow>
       local_ok root t \<and> spec_call (PutBlob h f hr) (maps x root s) (answer_of (\<lambda>u. Completed) ru) (maps x root t)"
    and "local_delete_blob env x root h f s = (ru, t) \<Longrightarrow>
       local_ok root t \<and> spec_call (DeleteBlob h f) (maps x root s) (answer_of (\<lambda>u. Completed) ru) (maps x root t)"
    and "local_key k \<Longrightarrow> local_put_meta env root k v s = (ru, t) \<Longrightarrow>
       local_ok root t \<and> spec_call (PutMeta k v) (maps x root s) (answer_of (\<lambda>u. Completed) ru) (maps x root t)"
    and "local_key k \<Longrightarrow> local_delete_meta env root k s = (ru, t) \<Longrightarrow>
       local_ok root t \<and> spec_call (DeleteMeta k) (maps x root s) (answer_of (\<lambda>u. Completed) ru) (maps x root t)"
proof -
  assume r: "local_put_blob env x root h f hr s = (ru, hr', t)"
  note put = file_put_blob [OF env s r]
  show "local_ok root t \<and> spec_call (PutBlob h f hr) (maps x root s) (answer_of (\<lambda>u. Completed) ru) (maps x root t)"
  proof (cases ru)
    case (Inl e)
    with put show ?thesis by (simp add: answer_failed maps_def)
  next
    case (Inr u)
    with put(1,2,4) show ?thesis by (auto simp: maps_def intro: spec_put)
  qed
next
  assume r: "local_delete_blob env x root h f s = (ru, t)"
  show "local_ok root t \<and> spec_call (DeleteBlob h f) (maps x root s) (answer_of (\<lambda>u. Completed) ru) (maps x root t)"
    using file_delete_blob [OF s r] by (cases ru) (simp_all add: answer_failed maps_def spec_call.delete)
next
  assume k: "local_key k" and r: "local_put_meta env root k v s = (ru, t)"
  show "local_ok root t \<and> spec_call (PutMeta k v) (maps x root s) (answer_of (\<lambda>u. Completed) ru) (maps x root t)"
    using file_put_meta [OF env s k r] by (cases ru) (simp_all add: answer_failed maps_def spec_call.put_doc)
next
  assume k: "local_key k" and r: "local_delete_meta env root k s = (ru, t)"
  show "local_ok root t \<and> spec_call (DeleteMeta k) (maps x root s) (answer_of (\<lambda>u. Completed) ru) (maps x root t)"
    using file_delete_meta [OF s k r] by (cases ru) (simp_all add: answer_failed maps_def spec_call.delete_doc)
qed

lemma file_call:
  assumes "env_ok env" and "local_ok root s" and "call_ok local_key c" and "run_call (local_backend env x root) c s = (a, t)"
  shows "local_ok root t \<and> spec_call c (maps x root s) a (maps x root t)"
  using assms call_reads [OF assms(2)] call_writes [OF assms(1,2)] by (cases c) (auto simp: call_ok_def split: prod.splits)

end

text \<open>Sequences of calls.\<close>

fun run_calls :: "'b StorageBackend \<Rightarrow> backend_call list \<Rightarrow> 'b \<Rightarrow> answer list \<times> 'b" where
  "run_calls b [] s = ([], s)"
| "run_calls b (c # cs) s =
     (case run_call b c s of (a, t) \<Rightarrow> case run_calls b cs t of (as, u) \<Rightarrow> (a # as, u))"

inductive spec_calls :: "backend_call list \<Rightarrow> store_maps \<Rightarrow> answer list \<Rightarrow> store_maps \<Rightarrow> bool" where
  stop: "spec_calls [] st [] st"
| call: "spec_call c st a st' \<Longrightarrow> spec_calls cs st' as st'' \<Longrightarrow> spec_calls (c # cs) st (a # as) st''"

lemma file_calls:
  assumes "store_codec x" and "env_ok env"
  shows "run_calls (local_backend env x root) cs s = (as, t) \<Longrightarrow> local_ok root s \<Longrightarrow> list_all (call_ok local_key) cs \<Longrightarrow>
     local_ok root t \<and> spec_calls cs (maps x root s) as (maps x root t)"
proof (induction cs arbitrary: s as)
  case (Cons c cs)
  obtain a u where r: "run_call (local_backend env x root) c s = (a, u)" by (rule prod.exhaust)
  with Cons.prems(1) obtain bs where bs: "run_calls (local_backend env x root) cs u = (bs, t)" "as = a # bs"
    by (auto split: prod.splits)
  have "local_ok root u" "spec_call c (maps x root s) a (maps x root u)"
    using store_codec.file_call [OF assms Cons.prems(2) _ r] Cons.prems(3) by simp_all
  with Cons.IH [OF bs(1)] Cons.prems(3) show ?case by (simp add: bs(2) spec_calls.call)
qed (simp add: spec_calls.stop)

section \<open>A disk that does not fail\<close>

definition no_faults :: "disk_env \<Rightarrow> bool" where
  "no_faults env \<longleftrightarrow> (\<forall>n. fault env n = None)"

lemma fs_call_runs: "no_faults env \<Longrightarrow> fs_call env m s = m (s\<lparr>tick := Suc (tick s)\<rparr>)"
  by (simp add: fs_call_def no_faults_def)

lemma no_file_above:
  assumes "local_ok root s" and "final_path (canon root) p"
  shows "node_at s (take k (butlast p)) \<noteq> Some (File d)"
proof -
  let ?q = "butlast p"
  note disk = local_okD(1) [OF assms(1)]
  from final_parent [OF assms] show ?thesis
  proof
    assume "node_at s ?q = Some Dir"
    then show ?thesis using prefix_dir [OF disk, of ?q Dir k] by (cases "k < length ?q") simp_all
  next
    assume a: "node_at s ?q = None \<and> node_at s (butlast ?q) = Some Dir \<and> ?q \<noteq> []"
    consider "k \<ge> length ?q" | "k = length ?q - 1" | "k < length (butlast ?q)" by force
    then show ?thesis
    proof cases
      case 1
      with a show ?thesis by simp
    next
      case 2
      with a show ?thesis by (simp add: butlast_conv_take)
    next
      case 3
      from prefix_dir [OF disk _ 3] a have "node_at s (take k (butlast ?q)) = Some Dir" by blast
      with 3 show ?thesis by (simp add: butlast_conv_take min_def split: if_splits)
    qed
  qed
qed

lemma mkdirs_runs:
  assumes "no_faults env" and "\<And>k d. node_at s (pre @ take k cs) \<noteq> Some (File d)"
  shows "fst (mkdirs env pre cs s) = Inr ()"
  using assms(2)
proof (induction cs arbitrary: pre s)
  case (Cons c cs)
  obtain r t where m: "fs_mkdir env (pre @ [c]) s = (r, t)" by (rule prod.exhaust)
  have "r = Inr ()" "\<And>q d. node_at t q = Some (File d) \<Longrightarrow> node_at s q = Some (File d)"
    using m Cons.prems [of 1] by (auto simp: fs_mkdir_def fs_call_runs [OF assms(1)] split: option.splits node.splits if_splits)
  moreover from this Cons.prems [of "Suc _"] have "fst (mkdirs env (pre @ [c]) cs t) = Inr ()" by (intro Cons.IH) fastforce
  ultimately show ?case using m by (simp add: and_then_def)
qed (simp add: ret_ok_def)

lemma into_final:
  assumes "local_ok root s" and "final_path (canon root) p" and "node_at s (butlast p) = Some Dir"
  shows "into_dir s p = Inr ()"
  using node_lookup [OF local_okD(1) [OF assms(1)] assms(3)] final_file [OF local_okD(1) [OF assms(1)] assms(2)]
  by (auto simp: into_dir_def split: option.splits node.splits)

lemma into_tmp:
  assumes "local_ok root s" and "in_tmp (canon root) p"
  shows "into_dir s p = Inr ()"
  using node_lookup [OF local_okD(1) [OF assms(1)] tmp_dir [OF assms]] tmp_file [OF assms]
  by (auto simp: into_dir_def split: option.splits node.splits)

lemma new_tmp_runs:
  assumes "env_ok env" and "no_faults env" and "local_ok root s" and "final_path (canon root) (canon final)"
    and "canon_parent final = butlast (canon final)"
  obtains tmp t where "new_tmp env root final s = (Inr tmp, t)"
proof -
  obtain r1 s1 where c: "create_dir_all env (canon_parent final) s = (r1, s1)" by (rule prod.exhaust)
  have "r1 = Inr ()" using mkdirs_runs [OF assms(2), of s "[]" "butlast (canon final)"] no_file_above [OF assms(3,4)] c
    by (simp add: create_dir_all_def assms(5))
  obtain e n where e: "canon final = canon root @ e @ [n]" "dir_shape e" by (rule final_pathE [OF assms(4)])
  then have "canon_parent final = canon root @ e" using assms(5) by (simp add: butlast_append)
  then have "local_ok root s1" using leaves_stays [OF leaves_mkdir [OF e(2)] _ assms(3)] c staysD(1) by metis
  then have "local_ok root (s1\<lparr>tick := Suc (tick s1)\<rparr>)" by simp
  from into_tmp [OF this tmp_path [OF assms(1)]] \<open>r1 = Inr ()\<close> c show thesis
    by (intro that) (simp add: new_tmp_def and_then_def map_err_def fs_create_def fs_call_runs [OF assms(2)] Let_def ret_ok_def)
qed

lemma fill_tmp_runs:
  assumes "no_faults env" and "local_ok root s" and "in_tmp (canon root) (canon tmp)" and "final_path (canon root) (canon final)"
    and "node_at s (butlast (canon final)) = Some Dir"
  shows "fst (fill_tmp env tmp final d s) = Inr ()"
proof -
  let ?t = "\<lambda>k. (set_node (canon tmp) (File d) (s\<lparr>tick := Suc (tick s)\<rparr>))\<lparr>tick := k\<rparr>"
  have tmp: "canon tmp \<noteq> []" "canon tmp \<noteq> butlast (canon final)" using assms(2,3,5) tmp_file by (auto simp: in_tmp_def)
  have ok: "local_ok root (?t k)" for k using tmp_keeps(1) [of root "s\<lparr>tick := Suc (tick s)\<rparr>", OF _ assms(3)] assms(2) by simp
  have "fs_lookup (?t k) (canon tmp) = Inr (File d)" for k using node_lookup [OF local_okD(1) [OF ok]] tmp(1) by simp
  moreover have "into_dir (?t k) (canon final) = Inr ()" for k
    using into_final [OF ok assms(4)] assms(5) tmp by simp
  moreover have "fs_write env tmp d s = (Inr (), set_node (canon tmp) (File d) (s\<lparr>tick := Suc (tick s)\<rparr>))"
    using assms(1) by (simp add: fs_write_def no_faults_def)
  ultimately show ?thesis
    by (simp add: fill_tmp_def move_tmp_def and_then_def map_err_def attempt_def ret_ok_def fs_sync_def fs_rename_def fs_call_runs [OF assms(1)])
qed

lemma new_tmp_dir:
  assumes "env_ok env" and "local_ok root s" and "final_path (canon root) (canon final)" and "canon_parent final = butlast (canon final)"
    and "new_tmp env root final s = (Inr tmp, t)"
  shows "local_ok root t" and "in_tmp (canon root) (canon tmp)" and "node_at t (butlast (canon final)) = Some Dir"
proof -
  obtain e n where e: "canon final = canon root @ e @ [n]" "dir_shape e" by (rule final_pathE [OF assms(3)])
  then have p: "canon_parent final = canon root @ e" using assms(4) by (simp add: butlast_append)
  from new_tmp_spec [OF assms(1) p e(2) assms(2,5)] e show "local_ok root t" "in_tmp (canon root) (canon tmp)"
    "node_at t (butlast (canon final)) = Some Dir" by (simp_all add: staysD butlast_append)
qed

lemma put_meta_runs:
  assumes "env_ok env" and "no_faults env" and "local_ok root s" and "local_key k"
  shows "fst (local_put_meta env root k v s) = Inr ()"
proof -
  note path = local_key_final [OF assms(4)] key_parent [OF assms(4)]
  obtain tmp t where n: "new_tmp env root (get_meta_file_path root k) s = (Inr tmp, t)"
    using new_tmp_runs [OF assms(1-3) path] .
  from fill_tmp_runs [OF assms(2) new_tmp_dir(1,2) [OF assms(1,3) path n] path(1) new_tmp_dir(3) [OF assms(1,3) path n]] n
  show ?thesis by (simp add: local_put_meta_def Let_def and_then_def)
qed

lemma remove_runs:
  assumes "no_faults env" and "local_ok root s" and "final_path (canon root) (canon path)"
  shows "fst (or_missing () (fs_remove_file env path) s) = Inr ()"
  using final_lookup [of root "s\<lparr>tick := Suc (tick s)\<rparr>", OF _ assms(3)] assms(2)
  by (auto simp: or_missing_def and_then_def attempt_def ret_ok_def fs_remove_file_def fs_call_runs [OF assms(1)] split: option.splits)

lemma get_meta_runs:
  assumes "no_faults env" and "local_ok root s" and "local_key k"
  shows "\<exists>w. fst (local_get_meta env root k s) = Inr w"
  using final_lookup [of root "s\<lparr>tick := Suc (tick s)\<rparr>", OF _ local_key_final [OF assms(3)]] assms(2)
  by (auto simp: local_get_meta_def or_missing_def and_then_def attempt_def ret_ok_def fs_read_def fs_call_runs [OF assms(1)] split: option.splits)

lemma list_meta_runs:
  assumes "no_faults env" and "local_ok root s" and "sec \<in> set meta_sections"
  shows "\<exists>ks. fst (local_list_meta env root sec s) = Inr ks"
proof -
  have entries: "\<exists>ks. fst (list_entries env sec es t) = Inr ks" for es t
  proof (induction es arbitrary: t)
    case (Cons e es)
    obtain ks u where "list_entries env sec es (t\<lparr>tick := Suc (Suc (tick t))\<rparr>) = (Inr ks, u)"
      using Cons [of "t\<lparr>tick := Suc (Suc (tick t))\<rparr>"] by (metis prod.collapse)
    then show ?case
      by (cases e) (simp add: and_then_def map_err_def fs_sync_def fs_call_runs [OF assms(1)] ret_ok_def)
  qed (simp add: and_then_def map_err_def fs_sync_def fs_call_runs [OF assms(1)] ret_ok_def)
  have "local_ok root (s\<lparr>tick := Suc (tick s)\<rparr>)" using assms(2) by simp
  from node_lookup [OF local_okD [OF this] ] dir_shape_section [OF assms(3)]
  have "fs_lookup (s\<lparr>tick := Suc (tick s)\<rparr>) (canon (list_dir root sec)) = Inr Dir" by (simp add: list_path [OF assms(3)])
  with entries show ?thesis
    by (simp add: local_list_meta_def and_then_def attempt_def fs_read_dir_def fs_call_runs [OF assms(1)])
qed

context store_codec
begin

lemma put_blob_runs:
  assumes "env_ok env" and "no_faults env" and "local_ok root s" and "drain (events (inner hr)) = Inr d"
  shows "fst (local_put_blob env x root h f hr s) = Inr ()"
proof -
  obtain r0 s0 where m: "fs_metadata env (blob_path x root h f) s = (r0, s0)" by (rule prod.exhaust)
  have s0: "local_ok root s0" using leaves_stays [OF leaves_queries(1) m assms(3)] staysD(1) by blast
  obtain tmp t where n: "new_tmp env root (blob_path x root h f) s0 = (Inr tmp, t)"
    using new_tmp_runs [OF assms(1,2) s0 blob_final blob_parent] .
  obtain hr' where c: "copy_all [] hr = (Inr d, hr')" using copy_new(1) [OF _ assms(4)] by (metis prod.exhaust)
  note dir = new_tmp_dir [OF assms(1) s0 blob_final blob_parent n]
  from fill_tmp_runs [OF assms(2) dir(1,2) blob_final dir(3), of d] m n c show ?thesis
    by (auto simp: local_put_blob_def Let_def split: sum.splits prod.splits)
qed

lemma blob_runs:
  assumes "no_faults env" and "local_ok root s"
  shows "\<exists>present. fst (local_has_blob env x root h f s) = Inr present"
    and "local_blobs x root s (h, f) = Some d \<Longrightarrow> \<exists>rd. fst (local_get_blob env x root h f s) = Inr rd"
    and "local_blobs x root s (h, f) = None \<Longrightarrow> fst (local_get_blob env x root h f s) = Inl NotFound"
  using final_lookup [of root "s\<lparr>tick := Suc (tick s)\<rparr>" "canon (blob_path x root h f)", OF _ blob_final] assms(2)
  by (auto simp: local_has_blob_def local_get_blob_def local_blobs_def or_missing_def and_then_def attempt_def ret_ok_def map_err_def
      fs_metadata_def fs_open_def fs_call_runs [OF assms(1)] split: option.splits)

lemma reliable_files:
  assumes "env_ok env" and "no_faults env"
  shows "reliable_backend (local_backend env x root) (local_blobs x root) (local_metas root) (local_ok root) local_key False"
  unfolding reliable_backend_def reliable_backend_axioms_def local_backend_sels
  using file_backend [OF assms(1)] put_blob_runs [OF assms] blob_runs [OF assms(2)] put_meta_runs [OF assms]
    get_meta_runs [OF assms(2)] list_meta_runs [OF assms(2)] remove_runs [OF assms(2)] blob_final local_key_final
  by (auto simp: local_delete_blob_def local_delete_meta_def)

end

lemma reliable_local_store:
  assumes "store_codec x" and "env_ok env" and "no_faults env"
  shows "reliable_store x (local_backend env x root) (local_blobs x root) (local_metas root) (local_ok root) local_key False"
  using local_store [OF assms(1,2)] store_codec.reliable_files [OF assms] by (rule reliable_store.intro)

lemma file_at_None: "file_at s p = None \<longleftrightarrow> (\<forall>d. node_at s p \<noteq> Some (File d))"
  by (auto simp: file_at_def split: option.splits node.splits)

lemma make_dirs_runs:
  assumes "no_faults env" and "disk_ok R s" and "\<And>d. d \<in> set ds \<Longrightarrow> \<exists>e. canon d = R @ e \<and> dir_shape e"
    and "\<And>d k. d \<in> set ds \<Longrightarrow> file_at s (take k (canon d)) = None"
  shows "fst (make_dirs env ds s) = Inr ()"
  using assms(2-4)
proof (induction ds arbitrary: s)
  case (Cons d ds)
  obtain r t where c: "create_dir_all env (canon d) s = (r, t)" by (rule prod.exhaust)
  have "r = Inr ()" using mkdirs_runs [OF assms(1), of s "[]" "canon d"] Cons.prems(3) [of d] c
    by (simp add: create_dir_all_def file_at_None)
  moreover obtain e where "canon d = R @ e" "dir_shape e" using Cons.prems(2) by auto
  then have "disk_ok R t" "file_at t = file_at s" using create_dir_spec [of env R e s] c Cons.prems(1) by metis+
  then have "fst (make_dirs env ds t) = Inr ()" using Cons.prems(2,3) by (intro Cons.IH) simp_all
  ultimately show ?case using c by (simp add: and_then_def map_err_def)
qed (simp add: ret_ok_def)

lemma open_runs:
  assumes "no_faults env" and "disk_ok (canon root) s" and "\<And>d k. d \<in> set base_dirs \<Longrightarrow> file_at s (take k (canon root @ d)) = None"
  shows "fst (new_LocalJsonBackend env root s) = Inr ()"
proof -
  have "fst (make_dirs env (store_dirs root) s) = Inr ()"
    by (rule make_dirs_runs [OF assms(1,2)]) (erule store_dirs_shape; use assms(3) in force)+
  then show ?thesis by (cases "make_dirs env (store_dirs root) s") (simp add: new_LocalJsonBackend_def and_then_def Let_def split: prod.splits sum.splits)
qed

text \<open>Nothing is left in the directory for temporary files.\<close>

lemma clean_entries_removes:
  assumes "no_faults env" and "local_ok root s" and "\<And>a n. (a, n) \<in> set es \<Longrightarrow> plain a \<and> is_file n"
  shows "node_at (clean_entries env (path_join root ''tmp'') es s) (canon root @ [''tmp'', a]) =
     (if a \<in> fst ` set es then None else node_at s (canon root @ [''tmp'', a]))"
  using assms(2,3)
proof (induction es arbitrary: s)
  case (Cons e es)
  obtain b n where e: "e = (b, n)" by (cases e)
  let ?p = "path_join (path_join root ''tmp'') b" and ?s = "s\<lparr>tick := Suc (Suc (tick s))\<rparr>"
  have b: "plain b" "is_file n" using Cons.prems(2) [of b n] by (simp_all add: e)
  then have p: "canon ?p = canon root @ [''tmp'', b]" by (simp add: canon_join)
  obtain r t where t: "fs_remove_file env ?p ?s = (r, t)" by (rule prod.exhaust)
  have tmp: "in_tmp (canon root) (canon ?p)" using b(1) by (simp add: p in_tmp_def butlast_append)
  have ok: "local_ok root (s\<lparr>tick := k\<rparr>)" for k using Cons.prems(1) by simp
  have t_ok: "local_ok root t" using leaves_stays [OF leaves_tmp(3) [OF tmp] t ok] staysD(1) by blast
  have "node_at t (canon root @ [''tmp'', a]) = (if a = b then None else node_at s (canon root @ [''tmp'', a]))"
    using t child_lookup [OF local_okD(1) [OF ok] tmp_dir [OF ok tmp]] tmp_file [OF ok tmp]
    by (auto simp: fs_remove_file_def fs_call_runs [OF assms(1)] p split: option.splits node.splits)
  moreover have "node_at (clean_entries env (path_join root ''tmp'') es t) (canon root @ [''tmp'', a]) =
      (if a \<in> fst ` set es then None else node_at t (canon root @ [''tmp'', a]))"
    by (rule Cons.IH [OF t_ok Cons.prems(2) [OF list.set_intros(2)]])
  ultimately show ?case
    using t b(2) by (auto simp: e fs_sync_def fs_call_runs [OF assms(1)])
qed simp

lemma open_cleans:
  assumes "no_faults env" and "disk_ok (canon root) s" and "new_LocalJsonBackend env root s = (Inr (), t)" and "in_tmp (canon root) p"
  shows "node_at t p = None"
proof -
  let ?tmp = "path_join root ''tmp''" and ?T = "canon root @ [''tmp'']"
  obtain s1 where m: "make_dirs env (store_dirs root) s = (Inr (), s1)"
    and t: "t = (case fs_read_dir env ?tmp s1 of (Inl e, s2) \<Rightarrow> s2 | (Inr es, s2) \<Rightarrow> clean_entries env ?tmp es s2)"
    using assms(3) by (auto simp: new_LocalJsonBackend_def and_then_def Let_def split: prod.splits sum.splits)
  let ?s = "s1\<lparr>tick := Suc (tick s1)\<rparr>"
  have ok: "local_ok root ?s" using make_dirs_ok [OF m assms(2)] by simp
  have "node_at ?s ?T = Some Dir" using local_okD(2) [OF ok] by (simp add: base_dirs_def)
  then have "fs_lookup ?s ?T = Inr Dir" using node_lookup [OF local_okD(1) [OF ok]] by blast
  then have t': "t = clean_entries env ?tmp (dir_list ?s ?T) ?s"
    using t by (simp add: fs_read_dir_def fs_call_runs [OF assms(1)] canon_join)
  obtain a where a: "p = canon root @ [''tmp'', a]" using assms(4) by (rule in_tmpE)
  have "a \<in> fst ` set (dir_list ?s ?T)" if "node_at ?s p = Some n" for n
    using dir_list_iff [OF local_okD(1) [OF ok], of a n ?T] that by (force simp: a)
  then show ?thesis
    using clean_entries_removes [OF assms(1) ok tmp_entries [OF ok], of "dir_list ?s ?T" a]
    by (cases "node_at ?s p") (auto simp: t' a)
qed

section \<open>A sample disk\<close>

text \<open>Names are unary numbers; faults and the parts that failing writes leave are arbitrary.\<close>

definition sample_disk :: "(nat \<Rightarrow> string option) \<Rightarrow> (nat \<Rightarrow> nat) \<Rightarrow> disk_env" where
  "sample_disk flt prt = \<lparr>fault = flt, partial = prt, uuids = (\<lambda>n. CHR ''u'' # replicate n CHR ''0'')\<rparr>"

lemma sample_disk_ok [simp]: "env_ok (sample_disk flt prt)"
  by (auto simp: env_ok_def sample_disk_def plain_def)

lemma sample_disk_quiet [simp]: "no_faults (sample_disk (\<lambda>n. None) prt)"
  by (simp add: no_faults_def sample_disk_def)

interpretation files: layer_store
  sample_codec "local_backend (sample_disk flt prt) sample_codec root" "local_blobs sample_codec root" "local_metas root" "local_ok root"
  local_key False
  by (rule local_store) (simp_all add: sample.store_codec_axioms)

interpretation quiet_files: reliable_store
  sample_codec "local_backend (sample_disk (\<lambda>n. None) prt) sample_codec root" "local_blobs sample_codec root" "local_metas root" "local_ok root"
  local_key False
  by (rule reliable_local_store) (simp_all add: sample.store_codec_axioms)

definition empty_disk :: disk where
  "empty_disk = \<lparr>nodes = [], tick = 0\<rparr>"

lemma empty_disk_ok: "disk_ok R empty_disk"
  by (simp add: disk_ok_def empty_disk_def)

definition sample_root :: string where
  "sample_root = ''/s''"

definition opened_disk :: disk where
  "opened_disk = snd (new_LocalJsonBackend (sample_disk (\<lambda>n. None) (\<lambda>n. 0)) sample_root empty_disk)"

lemma sample_opens: "new_LocalJsonBackend (sample_disk (\<lambda>n. None) (\<lambda>n. 0)) sample_root empty_disk = (Inr (), opened_disk)"
proof -
  have "file_at empty_disk p = None" for p by (simp add: file_at_def node_at_def empty_disk_def)
  then have "fst (new_LocalJsonBackend (sample_disk (\<lambda>n. None) (\<lambda>n. 0)) sample_root empty_disk) = Inr ()"
    by (intro open_runs empty_disk_ok) simp_all
  then show ?thesis by (simp add: opened_disk_def prod_eq_iff)
qed

lemma sample_open_ok: "local_ok sample_root opened_disk"
  by (rule open_spec(3) [OF empty_disk_ok sample_opens refl])

lemma opened_empty: "view sample_root opened_disk = Map.empty"
  using open_spec(2) [OF empty_disk_ok sample_opens]
  by (simp add: fun_eq_iff view_def file_at_def node_at_def empty_disk_def)

lemma opened_maps [simp]: "local_blobs x sample_root opened_disk = Map.empty" "local_metas sample_root opened_disk = Map.empty"
  by (simp_all add: fun_eq_iff local_blobs_def local_metas_def opened_empty)

lemma maps_view: "view root t = view root s \<Longrightarrow> maps x root t = maps x root s"
  by (simp add: maps_def fun_eq_iff local_blobs_def local_metas_def)

lemma reopens:
  assumes "no_faults env" and "local_ok root s"
  obtains t where "new_LocalJsonBackend env root s = (Inr (), t)"
proof -
  have "file_at s (take k (canon root @ d)) = None" if "d \<in> set base_dirs" for d k
    using local_okD(2) [OF assms(2) that] prefix_dir [OF local_okD(1) [OF assms(2)], of "canon root @ d" Dir k]
    by (cases "k < length (canon root @ d)") (simp_all add: file_at_None)
  from open_runs [OF assms(1) local_okD(1) [OF assms(2)] this] show thesis
    using that by (cases "new_LocalJsonBackend env root s") auto
qed

section \<open>The store on files\<close>

text \<open>
  C5. Whatever calls of the disk fail, the file backend behaves like two partial maps: after a store
  was opened, on a disk on which nothing but the store's own files lies below its root
  (\<open>disk_ok\<close>), every sequence of calls gives answers that the maps give, except that a call may fail, and
  then it changes nothing. The calls are those on blobs and those on documents under keys that are a
  section and a plain name (no slash; the name of a tag or an index entry not ending in \<open>.json\<close>), and listings
  of the five sections. Outside of these keys it does not hold: a tag \<open>v1.json\<close> is listed as \<open>v1\<close>
  (\<open>json_tag_renamed\<close>).
\<close>

theorem file_store_refines_maps:
  assumes "store_codec x" and "env_ok env" and "disk_ok (canon root) s0" and "new_LocalJsonBackend env root s0 = (Inr (), s)"
    and "list_all (call_ok local_key) cs" and "run_calls (local_backend env x root) cs s = (as, t)"
  shows "local_ok root t \<and> spec_calls cs (maps x root s0) as (maps x root t)"
proof -
  note s = open_spec [OF assms(3,4)]
  have "maps x root s = maps x root s0" by (rule maps_view [OF s(2)])
  with file_calls [OF assms(1,2,6) s(3) [OF refl] assms(5)] show ?thesis by simp
qed

definition sample_calls :: "backend_call list" where
  "sample_calls = [PutMeta ''tags/v1'' [1], PutMeta ''layers/a'' [2], GetMeta ''tags/v1'', ListMeta ''tags/'', HasBlob (sample_hash 2) Deploy]"

theorem file_store_refines_maps_witness:
  "\<exists>as t. run_calls (local_backend (sample_disk (\<lambda>n. None) (\<lambda>n. 0)) sample_codec sample_root) sample_calls opened_disk = (as, t) \<and>
     local_ok sample_root t \<and> spec_calls sample_calls (maps sample_codec sample_root empty_disk) as (maps sample_codec sample_root t)"
proof -
  obtain as t where r: "run_calls (local_backend (sample_disk (\<lambda>n. None) (\<lambda>n. 0)) sample_codec sample_root) sample_calls opened_disk = (as, t)"
    by (rule prod.exhaust)
  have "list_all (call_ok local_key) sample_calls"
    by (simp add: sample_calls_def call_ok_def local_key_def meta_sections_def strip_prefix_def name_ok_def plain_def suffix_def)
  from file_store_refines_maps [OF sample_laws sample_disk_ok empty_disk_ok sample_opens this r] r show ?thesis by blast
qed

text \<open>
  C12. Opening a store again, after any interruption and with any failing calls, keeps every blob and
  document; when it succeeds the directories are there, and without failures it has removed every
  temporary file.
\<close>

theorem opening_recovers:
  assumes "disk_ok (canon root) s" and "new_LocalJsonBackend env root s = (r, t)"
  shows "disk_ok (canon root) t \<and> maps x root t = maps x root s \<and>
    (r = Inr () \<longrightarrow> local_ok root t \<and> (no_faults env \<longrightarrow> (\<forall>p. in_tmp (canon root) p \<longrightarrow> node_at t p = None)))"
  using open_spec [OF assms] maps_view [OF open_spec(2) [OF assms]] open_cleans [of env root s t] assms by blast

text \<open>A disk on which an upload was interrupted.\<close>

definition littered_disk :: disk where
  "littered_disk = set_node (canon sample_root @ [''tmp'', ''u'']) (File [1, 2]) opened_disk"

lemma littered_tmp: "in_tmp (canon sample_root) (canon sample_root @ [''tmp'', ''u''])"
  by (simp add: in_tmp_def butlast_append plain_def)

theorem opening_recovers_witness:
  "node_at littered_disk (canon sample_root @ [''tmp'', ''u'']) = Some (File [1, 2]) \<and>
   (\<exists>t. new_LocalJsonBackend (sample_disk (\<lambda>n. None) (\<lambda>n. 0)) sample_root littered_disk = (Inr (), t) \<and>
      maps sample_codec sample_root t = maps sample_codec sample_root littered_disk \<and>
      node_at t (canon sample_root @ [''tmp'', ''u'']) = None)"
proof -
  have ok: "local_ok sample_root littered_disk"
    unfolding littered_disk_def by (rule tmp_keeps(1) [OF sample_open_ok littered_tmp])
  obtain t where t: "new_LocalJsonBackend (sample_disk (\<lambda>n. None) (\<lambda>n. 0)) sample_root littered_disk = (Inr (), t)"
    using reopens [OF sample_disk_quiet ok] .
  from opening_recovers [OF local_okD(1) [OF ok] t] littered_tmp t show ?thesis
    by (simp add: littered_disk_def)
qed

context layer_store
begin

text \<open>
  What a publication keeps of the store, however it ends: documents other than the layer's own and its
  index entry; artifacts, unless the cache artifact of the layer is replaced by what its reader delivers.
\<close>

definition kept :: "reader \<Rightarrow> LayerMeta \<Rightarrow> 'b \<Rightarrow> 'b \<Rightarrow> bool" where
  "kept cr m s t \<longleftrightarrow>
     (\<forall>k. k \<noteq> layer_key x (content_hash m) \<and> k \<noteq> index_key x (input_hash m) \<longrightarrow> metas t k = metas s k) \<and>
     (metas t (index_key x (input_hash m)) = metas s (index_key x (input_hash m)) \<or>
      metas t (index_key x (input_hash m)) = Some (as_bytes (show_ContentHash x (content_hash m)))) \<and>
     (blobs s (content_hash m, Deploy) \<noteq> None \<longrightarrow> metas t = metas s) \<and>
     (\<forall>k. fst k \<noteq> content_hash m \<longrightarrow> blobs t k = blobs s k) \<and>
     (\<forall>k d. blobs s k = Some d \<longrightarrow> blobs t k = Some d \<or>
        k = (content_hash m, BuildCache) \<and> (\<exists>c. drain (events cr) = Inr c \<and> blobs t k = Some c))"

lemma uploaded_kept:
  assumes "uploaded dr cr (content_hash m) s t" and "blobs s (content_hash m, Deploy) = None"
  shows "kept cr m s t"
proof -
  have cache: "blobs t (content_hash m, BuildCache) = blobs s (content_hash m, BuildCache) \<or>
      (\<exists>c. drain (events cr) = Inr c \<and> blobs t (content_hash m, BuildCache) = Some c)"
    using assms(1) unfolding uploaded_def artifact_reader_def by (metis ArtifactFormat.simps(4))
  have "blobs t (g, f) = Some d \<or> (g, f) = (content_hash m, BuildCache) \<and> (\<exists>c. drain (events cr) = Inr c \<and> blobs t (g, f) = Some c)"
    if "blobs s (g, f) = Some d" for g f d
    using assms that cache by (cases f; cases "g = content_hash m") (auto simp: uploaded_def)
  then show ?thesis using assms by (auto simp: kept_def uploaded_def)
qed

lemma publishes_frame:
  assumes "publishes dr cr m s r s'" and "ok s"
  shows "kept cr m s s'"
    and "r = Inr h \<Longrightarrow> h = content_hash m \<and> blobs s' (h, Deploy) \<noteq> None"
proof -
  let ?h = "content_hash m"
  consider "same_view s s'" "\<forall>c. r = Inr c \<longrightarrow> c = ?h \<and> blobs s (?h, Deploy) \<noteq> None"
    | e where "blobs s (?h, Deploy) = None" "uploaded dr cr ?h s s'" "r = Inl e"
    | t d sc where "blobs s (?h, Deploy) = None" "uploaded dr cr ?h s t" "blobs t (?h, Deploy) = Some d"
        "record_layer x b (m\<lparr>file_checksum_deploy := document_hash x d, file_checksum_cache := sc\<rparr>) t = (r, s')"
    using assms(1) unfolding publishes_def Let_def by blast
  then have "kept cr m s s' \<and> (r = Inr h \<longrightarrow> h = ?h \<and> blobs s' (h, Deploy) \<noteq> None)"
  proof cases
    case 1
    then show ?thesis by (auto simp: same_view_def kept_def)
  next
    case 2
    then show ?thesis using uploaded_kept by simp
  next
    case (3 t d sc)
    from 3(2) have "ok t" by (simp add: uploaded_def)
    note rec = record_layer_spec [OF this 3(4)]
    then have "kept cr m s s'" using uploaded_kept [OF 3(2,1)] 3(1) unfolding kept_def by auto
    moreover have "r = Inr h \<longrightarrow> h = ?h \<and> blobs s' (h, Deploy) \<noteq> None" using rec 3(3) by auto
    ultimately show ?thesis by blast
  qed
  then show "kept cr m s s'" "r = Inr h \<Longrightarrow> h = ?h \<and> blobs s' (h, Deploy) \<noteq> None" by blast+
qed

end

context reliable_store
begin

lemma resolve_entry:
  assumes "ok s" and "metas s (index_key x i) = Some (as_bytes (show_ContentHash x h))"
  shows "\<exists>t. resolve_input_hash x b i s = (Inr (Some h), t)"
proof -
  obtain t where "get_meta b (index_key x i) s = (Inr (metas s (index_key x i)), t)" by (rule get_meta_exact [OF assms(1) index_key_ok])
  with assms(2) show ?thesis by (simp add: resolve_input_hash_def op_defs)
qed

end

text \<open>
  C6. Publishing a layer on files, sequentially or concurrently, keeps the store consistent whatever
  calls of the disk and of the readers fail: every recorded layer has both artifacts and every index
  entry leads to a layer recorded for it. Nothing that was stored is lost: every document that was
  there (manifests, tags, builds, layers, index) is as before, except that the index entry of the layer's own
  input hash may now lead to the layer; every artifact that was there is as before, except that the
  cache artifact of the layer may be replaced by all that the new reader delivers.
\<close>

theorem faulty_publish_keeps_store:
  assumes "store_codec x" and "env_ok env" and "local_ok root s" and "layers_sound x (local_blobs x root s) (local_metas root s)"
    and "publishing \<in> {publish_layer x (local_backend env x root) dr cr m, publish_layer_concurrent first x (local_backend env x root) dr cr m}"
    and "publishing s = (r, t)"
  shows "local_ok root t \<and> layers_sound x (local_blobs x root t) (local_metas root t) \<and>
    (\<forall>k v. local_metas root s k = Some v \<longrightarrow> local_metas root t k = Some v \<or>
       k = index_key x (input_hash m) \<and> local_metas root t k = Some (as_bytes (show_ContentHash x (content_hash m)))) \<and>
    (\<forall>h f d. local_blobs x root s (h, f) = Some d \<longrightarrow> local_blobs x root t (h, f) = Some d \<or>
       h = content_hash m \<and> f = BuildCache \<and> (\<exists>c. drain (events cr) = Inr c \<and> local_blobs x root t (h, f) = Some c)) \<and>
    (\<forall>k. k \<noteq> layer_key x (content_hash m) \<and> k \<noteq> index_key x (input_hash m) \<longrightarrow> local_metas root t k = local_metas root s k) \<and>
    (\<forall>h f. h \<noteq> content_hash m \<longrightarrow> local_blobs x root t (h, f) = local_blobs x root s (h, f)) \<and>
    (\<forall>h. r = Inr h \<longrightarrow> h = content_hash m \<and> local_blobs x root t (h, Deploy) \<noteq> None)"
proof -
  note L = local_store [OF assms(1,2), of root]
  have p: "layer_store.publishes x (local_backend env x root) (local_blobs x root) (local_metas root) (local_ok root) False dr cr m s r t"
    using layer_store.publish_layer_publishes [OF L assms(3)] layer_store.publish_concurrent_publishes [OF L assms(3)] assms(5,6) by blast
  note kept = layer_store.publishes_frame(1) [OF L p assms(3), unfolded layer_store.kept_def [OF L]]
  have "local_metas root t k = Some v \<or>
       k = index_key x (input_hash m) \<and> local_metas root t k = Some (as_bytes (show_ContentHash x (content_hash m)))"
    if "local_metas root s k = Some v" for k v
  proof (cases "k = layer_key x (content_hash m)")
    case True
    then have "local_blobs x root s (content_hash m, Deploy) \<noteq> None"
      using assms(4) that by (auto simp: layers_sound_def stored_def)
    with kept that show ?thesis by simp
  next
    case False
    with kept that show ?thesis by (cases "k = index_key x (input_hash m)") auto
  qed
  with kept layer_store.publishes_sound [OF L p assms(3,4)] layer_store.publishes_frame(2) [OF L p assms(3)] show ?thesis by simp
qed

theorem faulty_publish_keeps_store_witness:
  "\<exists>r t. publish_layer sample_codec (local_backend (sample_disk (\<lambda>n. if n = 25 then Some ''disk full'' else None) (\<lambda>n. 1)) sample_codec sample_root)
       (sample_reader 5) (sample_reader 6) sample_meta opened_disk = (r, t) \<and>
     local_ok sample_root t \<and> layers_sound sample_codec (local_blobs sample_codec sample_root t) (local_metas sample_root t)"
proof -
  let ?b = "local_backend (sample_disk (\<lambda>n. if n = 25 then Some ''disk full'' else None) (\<lambda>n. 1)) sample_codec sample_root"
  let ?run = "publish_layer sample_codec ?b (sample_reader 5) (sample_reader 6) sample_meta"
  obtain r t where r: "?run opened_disk = (r, t)" by (rule prod.exhaust)
  have "layers_sound sample_codec (local_blobs sample_codec sample_root opened_disk) (local_metas sample_root opened_disk)"
    by (simp add: layers_sound_def)
  from faulty_publish_keeps_store [OF sample_laws sample_disk_ok sample_open_ok this insertI1 r] r show ?thesis by blast
qed

text \<open>
  C11. A layer of which neither artifact was stored before, published on a disk that does not fail from
  two readers that deliver and with a metadata document that can be encoded, survives a restart: the
  publication succeeds, the store opens again, both artifacts are pulled as they were read and the input hash
  resolves to the layer.
\<close>

theorem file_publish_survives_restart:
  assumes "store_codec x" and "env_ok env" and "no_faults env" and "local_ok root s"
    and "local_blobs x root s (content_hash m, Deploy) = None" and "local_blobs x root s (content_hash m, BuildCache) = None"
    and "drain (events dr) = Inr d" and "drain (events cr) = Inr c"
    and "meta_to_vec x (m\<lparr>file_checksum_deploy := document_hash x d, file_checksum_cache := document_hash x c\<rparr>) = Inr doc"
    and "publishing \<in> {publish_layer x (local_backend env x root) dr cr m, publish_layer_concurrent first x (local_backend env x root) dr cr m}"
  shows "\<exists>s' t. publishing s = (Inr (content_hash m), s') \<and> new_LocalJsonBackend env root s' = (Inr (), t) \<and>
    (\<exists>rd u. pull_layer (local_backend env x root) (content_hash m) Deploy t = (Inr rd, u) \<and> drain (events rd) = Inr d) \<and>
    (\<exists>rd u. pull_layer (local_backend env x root) (content_hash m) BuildCache t = (Inr rd, u) \<and> drain (events rd) = Inr c) \<and>
    (\<exists>u. resolve_input_hash x (local_backend env x root) (input_hash m) t = (Inr (Some (content_hash m)), u))"
proof -
  note R = reliable_local_store [OF assms(1-3), of root]
  obtain s' where s': "publishing s = (Inr (content_hash m), s')"
    "reliable_store.published x (local_blobs x root) (local_metas root) (local_ok root) m d c doc s s'"
    using reliable_store.publish_fresh [OF R assms(4,5) _ assms(7-9)] assms(6,10) by blast
  then have ok: "local_ok root s'" by (simp add: reliable_store.published_def [OF R])
  obtain t where t: "new_LocalJsonBackend env root s' = (Inr (), t)" using reopens [OF assms(3) ok] .
  note opn = open_spec [OF local_okD(1) [OF ok] t]
  from s'(2) maps_view [OF opn(2), of x] have v: "local_blobs x root t (content_hash m, Deploy) = Some d"
    "local_blobs x root t (content_hash m, BuildCache) = Some c"
    "local_metas root t (index_key x (input_hash m)) = Some (as_bytes (show_ContentHash x (content_hash m)))"
    by (simp_all add: reliable_store.published_def [OF R] maps_def)
  from s'(1) t reliable_store.pull_exact [OF R opn(3) [OF refl] v(1)] reliable_store.pull_exact [OF R opn(3) [OF refl] v(2)]
    reliable_store.resolve_entry [OF R opn(3) [OF refl] v(3)] show ?thesis by blast
qed

theorem file_publish_survives_restart_witness:
  "\<exists>s' t. publish_layer sample_codec (local_backend (sample_disk (\<lambda>n. None) (\<lambda>n. 0)) sample_codec sample_root)
        (sample_reader 5) (sample_reader 6) sample_meta opened_disk = (Inr (content_hash sample_meta), s') \<and>
     new_LocalJsonBackend (sample_disk (\<lambda>n. None) (\<lambda>n. 0)) sample_root s' = (Inr (), t) \<and>
     (\<exists>rd u. pull_layer (local_backend (sample_disk (\<lambda>n. None) (\<lambda>n. 0)) sample_codec sample_root) (content_hash sample_meta) BuildCache t =
        (Inr rd, u) \<and> drain (events rd) = Inr [6, 6, 6])"
  using file_publish_survives_restart [OF sample_laws sample_disk_ok sample_disk_quiet sample_open_ok _ _ drain_sample drain_sample _ insertI1]
  by (fastforce simp: sample_codec_def)

context store_codec
begin

lemma put_existing:
  assumes "no_faults env" and "local_ok root s" and "local_blobs x root s (h, f) = Some c"
  shows "local_put_blob env x root h f hr s = (Inr (), hr, s\<lparr>tick := Suc (tick s)\<rparr>)"
  using final_lookup [of root "s\<lparr>tick := Suc (tick s)\<rparr>" "canon (blob_path x root h f)", OF _ blob_final] assms(2,3)
  by (simp add: local_put_blob_def Let_def fs_metadata_def fs_call_runs [OF assms(1)] local_blobs_def)

text \<open>A blob that is not there is read to the end.\<close>

lemma put_new:
  assumes "env_ok env" and "no_faults env" and "local_ok root s" and "local_blobs x root s (h, f) = None"
    and "drain (events (inner hr)) = Inr d"
  obtains hr' t where "local_put_blob env x root h f hr s = (Inr (), hr', t)" and "copy_all [] hr = (Inr d, hr')"
proof -
  obtain e where m: "fs_metadata env (blob_path x root h f) s = (Inl e, s\<lparr>tick := Suc (tick s)\<rparr>)"
    using final_lookup [of root "s\<lparr>tick := Suc (tick s)\<rparr>" "canon (blob_path x root h f)", OF _ blob_final] assms(3,4)
    by (auto simp: fs_metadata_def fs_call_runs [OF assms(2)] local_blobs_def split: option.splits)
  obtain hr' where c: "copy_all [] hr = (Inr d, hr')" using copy_new(1) [OF _ assms(5)] by (metis prod.exhaust)
  obtain r hr2 t where p: "local_put_blob env x root h f hr s = (r, hr2, t)" by (metis prod_cases3)
  have "r = Inr ()" using put_blob_runs [OF assms(1-3,5)] p by (metis fst_conv)
  with p m c have "hr2 = hr'" by (auto simp: local_put_blob_def Let_def split: prod.splits sum.splits)
  with p \<open>r = Inr ()\<close> c show thesis by (intro that) simp_all
qed

end

text \<open>
  C24. When the cache artifact of a layer is stored already but its deploy artifact is not, as after a
  concurrent publication whose deploy upload failed, publishing the layer reports success and records
  the checksum of the empty byte string for the cache artifact, which it neither reads nor replaces.
\<close>

theorem stale_cache_checksum:
  assumes "store_codec x" and "env_ok env" and "no_faults env" and "local_ok root s"
    and "local_blobs x root s (content_hash m, Deploy) = None" and "local_blobs x root s (content_hash m, BuildCache) = Some c"
    and "drain (events dr) = Inr d"
    and "meta_to_vec x (m\<lparr>file_checksum_deploy := document_hash x d, file_checksum_cache := document_hash x []\<rparr>) = Inr doc"
  shows "\<exists>t. publish_layer x (local_backend env x root) dr cr m s = (Inr (content_hash m), t) \<and>
    local_blobs x root t (content_hash m, BuildCache) = Some c \<and>
    recorded x (local_metas root t) (content_hash m)
      (m\<lparr>file_checksum_deploy := document_hash x d, file_checksum_cache := document_hash x []\<rparr>)"
proof -
  let ?b = "local_backend env x root" and ?h = "content_hash m"
  let ?m = "m\<lparr>file_checksum_deploy := document_hash x d, file_checksum_cache := document_hash x []\<rparr>"
  note R = reliable_local_store [OF assms(1-3), of root]
  obtain s1 where 1: "has_layer ?b ?h s = (Inr False, s1)" "local_ok root s1" "local_blobs x root s1 = local_blobs x root s"
    using reliable_store.has_layer_exact [OF R assms(4), of ?h] assms(5) local_store [OF assms(1,2), of root]
    by (auto simp: layer_store.same_view_def)
  obtain s2 where 2: "upload x ?b ?h Deploy dr s1 = (Inr (document_hash x d), s2)" "local_ok root s2"
    "local_blobs x root s2 = (local_blobs x root s1)((?h, Deploy) \<mapsto> d)"
    by (rule reliable_store.upload_exact [OF R 1(2) assms(7), of ?h Deploy]) (use 1(3) assms(5) in auto)
  have "local_blobs x root s2 (?h, BuildCache) = Some c" using 1(3) 2(3) assms(6) by simp
  from store_codec.put_existing [OF assms(1,3) 2(2) this]
  have 3: "upload x ?b ?h BuildCache cr s2 = (Inr (document_hash x []), s2\<lparr>tick := Suc (tick s2)\<rparr>)"
    by (simp add: upload_def finalize_def document_hash_def new_HashingReader_def)
  have ok: "local_ok root (s2\<lparr>tick := Suc (tick s2)\<rparr>)" using 2(2) by simp
  obtain t where 4: "record_layer x ?b ?m (s2\<lparr>tick := Suc (tick s2)\<rparr>) = (Inr (content_hash ?m), t)"
    "local_blobs x root t = local_blobs x root (s2\<lparr>tick := Suc (tick s2)\<rparr>)"
    "local_metas root t = (local_metas root (s2\<lparr>tick := Suc (tick s2)\<rparr>))(layer_key x (content_hash ?m) \<mapsto> doc,
       index_key x (input_hash ?m) \<mapsto> as_bytes (show_ContentHash x (content_hash ?m)))"
    by (rule reliable_store.record_layer_exact [OF R ok assms(8)])
  have "recorded x (local_metas root t) ?h ?m"
    using store_codec.meta_inverse [OF assms(1,8)] by (simp add: 4(3) recorded_def layer_key_def index_key_def)
  moreover have "local_blobs x root t (?h, BuildCache) = Some c"
    using 4(2) \<open>local_blobs x root s2 (?h, BuildCache) = Some c\<close> local_blobs_view [of root "s2\<lparr>tick := Suc (tick s2)\<rparr>" s2 x] by simp
  ultimately show ?thesis using 1(1) 2(1) 3 4(1) by (simp add: publish_layer_def and_then_def)
qed

theorem stale_cache_checksum_witness:
  "\<exists>s t. upload sample_codec (local_backend (sample_disk (\<lambda>n. None) (\<lambda>n. 0)) sample_codec sample_root) (sample_hash 2) BuildCache
       (sample_reader 6) opened_disk = (Inr (document_hash sample_codec [6, 6, 6]), s) \<and>
     publish_layer sample_codec (local_backend (sample_disk (\<lambda>n. None) (\<lambda>n. 0)) sample_codec sample_root)
       (sample_reader 5) (sample_reader 6) sample_meta s = (Inr (sample_hash 2), t) \<and>
     local_blobs sample_codec sample_root t (sample_hash 2, BuildCache) = Some [6, 6, 6] \<and>
     recorded sample_codec (local_metas sample_root t) (sample_hash 2) (sample_meta
       \<lparr>file_checksum_deploy := document_hash sample_codec [5, 5, 5], file_checksum_cache := document_hash sample_codec []\<rparr>)"
proof -
  let ?b = "local_backend (sample_disk (\<lambda>n. None) (\<lambda>n. 0)) sample_codec sample_root"
  obtain s where s: "upload sample_codec ?b (sample_hash 2) BuildCache (sample_reader 6) opened_disk = (Inr (document_hash sample_codec [6, 6, 6]), s)"
    "local_ok sample_root s" "local_blobs sample_codec sample_root s = (local_blobs sample_codec sample_root opened_disk)((sample_hash 2, BuildCache) \<mapsto> [6, 6, 6])"
    by (rule quiet_files.upload_exact [OF sample_open_ok drain_sample, of "sample_hash 2" BuildCache "\<lambda>n. 0"]) simp_all
  have h: "content_hash sample_meta = sample_hash 2" by (simp add: sample_meta_def)
  from stale_cache_checksum [OF sample_laws sample_disk_ok sample_disk_quiet s(2), of sample_meta "[6, 6, 6]" "sample_reader 5" "[5, 5, 5]"
      _ "\<lambda>n. 0" "sample_reader 6"] s show ?thesis
    by (simp add: h)
qed

text \<open>Listing takes the ending off a tag's name, so that a tag named \<open>v.json\<close> is listed under another name.\<close>

lemma json_tag_renamed:
  assumes "plain name"
  shows "canon (get_meta_file_path root (''tags/'' @ name @ ''.json'')) = canon (list_dir root ''tags/'') @ [name @ ''.json'']"
    and "entry_key ''tags/'' (name @ ''.json'') = ''tags/'' @ name"
proof -
  have "canon (path_join (path_join (path_join root ''refs'') ''tags'') (name @ ''.json'')) = canon (list_dir root ''tags/'') @ [name @ ''.json'']"
    using canon_join [OF plain_json [OF assms]] by (simp add: list_dir_def starts_with_def)
  then show "canon (get_meta_file_path root (''tags/'' @ name @ ''.json'')) = canon (list_dir root ''tags/'') @ [name @ ''.json'']"
    by (simp add: get_meta_file_path_def strip_prefix_def)
  show "entry_key ''tags/'' (name @ ''.json'') = ''tags/'' @ name"
    by (simp add: entry_key_def starts_with_def)
qed

end
