(* ===== verification/Spec2Isabelle.thy ===== *)
theory Spec2Isabelle
  imports Ebpf_Nat Orchestrator Build_Cache Local_Store
begin

text \<open>
  A verification development of Microvisor, a controller for Firecracker microVMs with its
  image store and its image builder. The repository has three Rust programs, all modelled here.

  \<^bold>\<open>The control plane\<close> (\<^verbatim>\<open>control-plane/src/vmm\<close>) provisions a VM in phases: it clones a thin
  snapshot, creates a TAP device, takes an address from a pool, attaches two packet programs to
  the device, prepares a cgroup, starts the Firecracker jailer and configures the VMM over its
  API socket. A failure at any point undoes what was done. The packet programs
  (\<^verbatim>\<open>control-plane/microvisor-ebpf\<close>) translate addresses and refuse spoofed frames.

  \<^bold>\<open>The layer store\<close> (\<^verbatim>\<open>fs-storage\<close>) keeps content-addressed layers in two formats, an index
  from input hashes to layers, release manifests, a build catalog and tags, and collects layers
  that no manifest refers to. It runs on a backend trait with an implementation in memory and one
  in files, and is served over gRPC.

  \<^bold>\<open>The build system\<close> (\<^verbatim>\<open>build-system\<close>) reads a Dockerfile whose stages are layers, hashes each
  chain of stages, looks the hashes up in the layer store, builds and packs what is missing with
  external programs, and publishes layers and a release manifest to the store.

  Theories, in the order of their dependencies, and the code they model:

  \<^item> \<open>Prelude\<close>: results and state passing, the parts of Rust's string library the code calls,
    decimal numbers, UTF-8, and the locales \<open>invariant_system\<close> and \<open>ranked_system\<close>.
  \<^item> \<open>Vm_State\<close> (\<^verbatim>\<open>vmm/state.rs\<close>): the lifecycle state machine, its table and its errors; runs are
    bounded and a machine that runs has gone through the phases in their order. The table lets the
    configuration of the VMM be left out.
  \<^item> \<open>Ipam\<close> (\<^verbatim>\<open>vmm/network.rs\<close>, \<open>IpAm\<close>): the atomic bitset of 64 addresses, alone and under any
    interleaving of threads; refinement to a set of addresses in use.
  \<^item> \<open>Packet_Bytes\<close>, \<open>Microvisor_Common\<close>, \<open>Ebpf_Nat\<close> (\<^verbatim>\<open>microvisor-common/src/lib.rs\<close>,
    \<^verbatim>\<open>microvisor-ebpf/src/main.rs\<close>): both classifiers on packet bytes. The kernel's packet helpers
    are a parameter; the locale \<open>skb_helpers\<close> states what they do. Checksums are valid after
    translation exactly when they were before, for whole packets without IP options as the programs
    expect them; a packet with options is damaged under a checksum that stays valid. No byte outside
    the fields at the fixed offsets changes.
  \<^item> \<open>Host_Os\<close>: the operating system as a record of answers to system calls; every operation
    appends its calls to a trace, so that order and cleanup are statements about lists of calls.
  \<^item> \<open>Cgroup\<close>, \<open>Storage\<close>, \<open>Net_Devices\<close>, \<open>Firecracker_Api\<close> (\<^verbatim>\<open>vmm/cgroup.rs\<close>, \<^verbatim>\<open>storage.rs\<close>,
    \<^verbatim>\<open>network.rs\<close>, \<^verbatim>\<open>firecracker_api.rs\<close>): one function per method with every error path and
    destructor. Waiting for the API socket ends after at most 501 polls: the deadline is five
    seconds, a poll takes ten milliseconds, and the clock is assumed to run.
  \<^item> \<open>Orchestrator\<close> (\<^verbatim>\<open>vmm/mod.rs\<close>): all phases of \<open>provision_vm\<close>, the jail, \<open>cleanup\<close> and
    \<open>launch_vm\<close>; what a failed launch gives back, and the order of the host's calls
    in a successful one, from the cpuset to the six requests that configure and start the VMM.
  \<^item> \<open>Layer_Types\<close> (\<^verbatim>\<open>fs-storage/src/types.rs\<close>): hashes, records, errors, readers. JSON, SHA-256 and
    hexadecimal text are the fields of \<open>store_ext\<close>; the locale \<open>store_codec\<close> states their laws and
    is interpreted on a codec that satisfies them for every value.
  \<^item> \<open>Store_Backend\<close> (\<^verbatim>\<open>traits.rs\<close>, \<^verbatim>\<open>backends/memory.rs\<close>): the backend trait as a record of
    methods, its contract as the locales \<open>storage_backend\<close> and \<open>reliable_backend\<close>, and the in-memory
    backend as an interpretation.
  \<^item> \<open>Layer_Store\<close>, \<open>Layer_Safety\<close>, \<open>Layer_Memory\<close> (\<^verbatim>\<open>layer_store.rs\<close>): every method over an
    arbitrary backend; the invariant that index entries lead to stored layers with the recorded
    checksums; garbage collection; round trips of layers, manifests, builds and tags.
  \<^item> \<open>Local_Json\<close>, \<open>Local_Store\<close> (\<^verbatim>\<open>backends/local_json.rs\<close>): the backend in files, on a disk on which
    any call may fail and a failing write leaves a part of its data. The backend satisfies the
    contract of \<open>storage_backend\<close> whatever fails, and \<open>reliable_backend\<close> when nothing does; its
    methods refine two partial maps (\<open>spec_call\<close>), and opening a store again keeps the maps. \<open>disk_ok\<close>
    is the invariant of the disk, \<open>local_key\<close> the keys whose files can be found again by listing:
    all keys of layers, manifests and the index are of this kind, tags and builds are when
    their names have no slash and, for tags, do not end in \<^verbatim>\<open>.json\<close>.
  \<^item> \<open>Layer_Channels\<close> (\<^verbatim>\<open>server.rs\<close>, \<open>publish_layer\<close>): the two bounded channels of an upload, the task
    that sorts chunks into them and waits when one is full, and the readers that take them out, as
    an interleaving with a scheduler. Readers that run side by side and read to the end never
    block it; one that is not read blocks it for ever when more chunks come than a channel holds.
    A schedule is cut at the number of steps after which nothing can move any more.
  \<^item> \<open>Layer_Server\<close> (\<^verbatim>\<open>fs-storage/src/server.rs\<close>): every remote procedure with the conversions of its
    messages, the adapters between streams and readers, and the error codes. An upload runs over the
    channels; \<open>NoReply\<close> is the result of one that is never answered. An uploaded layer is downloaded
    as it was sent, in chunks of at most 64 KiB.
  \<^item> \<open>Build_Graph\<close> (\<^verbatim>\<open>build-system/src/parser.rs\<close>, \<^verbatim>\<open>types.rs\<close>): stages, labels and the checks that an
    accepted graph has passed.
  \<^item> \<open>Build_Hash\<close> (\<^verbatim>\<open>hasher.rs\<close>): input hashes of chains of stages; they agree exactly for chains whose
    stages have the same words, once comments are cut, as far as the digest has no collision.
  \<^item> \<open>Build_Format\<close> (\<^verbatim>\<open>converter.rs\<close>, \<^verbatim>\<open>buildkit.rs\<close>): packing, unpacking and the build engine as calls
    of the host; the image size, which the code computes in double precision, on natural numbers
    with the rounding written out.
  \<^item> \<open>Build_Client\<close> (\<^verbatim>\<open>store.rs\<close>): the client of the layer store over a connection that may fail.
  \<^item> \<open>Build_Run\<close> (\<^verbatim>\<open>orchestrator.rs\<close>, \<^verbatim>\<open>traits.rs\<close>): a build from the Dockerfile to the published
    manifest, whose layers carry the hashes of their chains; the locale \<open>graph_source\<close> is what it relies on of the parser.
  \<^item> \<open>Build_Cache\<close> (\<^verbatim>\<open>orchestrator.rs\<close>, \<^verbatim>\<open>store.rs\<close>): a build whose first stage is in the store fails,
    since it packs a directory that does not exist.

  This theory joins the parts: the address of the pool on the wire, and an upload to the store in
  files that is never answered because a part of the layer is already there.

  Rust integers are words of their width, a \<open>Result\<close> is a sum, a \<open>HashMap\<close> an association list or a
  finite map, an asynchronous method a function on the state. Loops are recursive functions with
  termination proofs; the polling loop of the API client and the compare-and-swap loop take fuel
  that is shown to be enough.

  Not modelled: process wiring, command lines and telemetry (\<^verbatim>\<open>main.rs\<close> of the three programs,
  \<^verbatim>\<open>observability.rs\<close> apart from the blocking wrapper): they read options, start servers and
  export traces; only the parts that the build program is put together from are modelled. Build scripts, \<^verbatim>\<open>xtask\<close>, generated protocol code, tests and
  their doubles (\<^verbatim>\<open>mocks.rs\<close>). Symbolic links,
  permissions and other processes on the disk of the store.
\<close>

section \<open>From the address pool to the wire\<close>

text \<open>
  C18. The packet programs of a launched VM translate to the address the pool granted it: with
  the configuration entry the loader writes, an IPv4 frame that leaves the guest carries, in
  network byte order, exactly that address as its source.
\<close>

theorem granted_address_on_the_wire:
  assumes "skb_helpers h" and "tc_egress h (Some (nat_config ip)) p = (TC_ACT_PIPE, q)"
    and "get16 ETH_PROTO_OFF p = ETH_P_IP_NBO"
  shows "slice IP_SRC_OFF 4 q = rev (le_bytes 4 (unat ip))"
proof -
  obtain c where c: "Some (nat_config ip) = Some c"
    and nat: "nat_rewritten IP_SRC_OFF INNER_IP_DST_OFF GUEST_IP_NBO (host_ip c) p q"
    by (rule egress_passed [OF assms])
  have "get32 IP_SRC_OFF q = to_be ip"
    using nat_rewritten_address(1) [OF nat] c by (auto simp: nat_config_def)
  moreover have l: "IP_SRC_OFF + 4 \<le> length q"
    using nat_rewritten_lengths(1) [OF nat] nat by (simp add: nat_rewritten_def offset_defs)
  ultimately have "le_nat (slice IP_SRC_OFF 4 q) = unat (to_be ip)"
    using unat_get32 [OF l] by simp
  then have "slice IP_SRC_OFF 4 q = le_bytes 4 (unat (to_be ip))"
    using le_bytes_le_nat [of "slice IP_SRC_OFF 4 q"] l by (simp add: length_slice)
  then show ?thesis by (simp add: to_be_bytes)
qed

theorem granted_address_on_the_wire_witness:
  "slice IP_SRC_OFF 4 (snd (tc_egress ref_helpers (Some (nat_config 0x0A000005)) sample_tcp)) = [10, 0, 0, 5]"
proof -
  have a: "tc_egress ref_helpers (Some (nat_config 0x0A000005)) sample_tcp
      = (TC_ACT_PIPE, snd (tc_egress ref_helpers (Some (nat_config 0x0A000005)) sample_tcp))"
    by (simp add: program_eval Let_def helper_eval const_eval sample_eval nat_config_def to_be_def)
  have b: "get16 ETH_PROTO_OFF sample_tcp = ETH_P_IP_NBO"
    by (simp add: helper_eval const_eval sample_eval)
  show ?thesis
    using granted_address_on_the_wire [OF ref_skb.skb_helpers_axioms a b] by (simp add: le_bytes_numeral)
qed

section \<open>An upload that is never answered\<close>

text \<open>
  What the two uploads read on files when the cache artifact is there and the deploy artifact is
  not: the one skips its reader, the other waits for the end of its channel.
\<close>

lemma leftover_demands:
  assumes "store_codec x" and "env_ok env" and "no_faults env" and "local_ok dir s" and "0 < room"
    and "local_blobs x dir s (h, Deploy) = None" and "local_blobs x dir s (h, BuildCache) = Some c"
  shows "upload_demands (Concurrent first) stop_at (local_backend env x dir) h (channel_reader room sends) s =
    (\<lambda>f. case f of Deploy \<Rightarrow> ToEnd | BuildCache \<Rightarrow> Upto 0)"
proof -
  note C = store_codec.put_existing [OF assms(1,3)] store_codec.put_new [OF assms(1-3)]
  let ?b = "local_backend env x dir" and ?rd = "\<lambda>f. new_HashingReader (channel_reader room sends f)"
  obtain s1 where h: "has_layer ?b h s = (Inr (local_blobs x dir s (h, Deploy) \<noteq> None), s1)"
    and v: "layer_store.same_view (local_blobs x dir) (local_metas dir) (local_ok dir) s s1"
    by (rule reliable_store.has_layer_exact [OF reliable_local_store [OF assms(1-3), of dir] assms(4), of h])
  from h v assms(6) layer_store.same_view_def [OF local_store [OF assms(1,2), of dir]]
  have 1: "has_layer ?b h s = (Inr False, s1)" "local_ok dir s1" "local_blobs x dir s1 = local_blobs x dir s"
    by simp_all
  have skip: "put_blob ?b h BuildCache (?rd BuildCache) u = (Inr (), ?rd BuildCache, u\<lparr>tick := Suc (tick u)\<rparr>)"
    if "local_ok dir u" "local_blobs x dir u (h, BuildCache) = Some c" for u
    using C(1) [OF that] by simp
  have unread: "events (inner (?rd BuildCache)) \<noteq> []"
    using adapter_events_end [OF assms(5), of "new_StreamAdapter (map Message (chunks_for BuildCache sends))"]
    by (auto simp: new_HashingReader_def channel_reader_def)
  have reads: "\<exists>hr t. put_blob ?b h Deploy (?rd Deploy) u = (Inr (), hr, t) \<and> events (inner hr) = [] \<and>
      local_ok dir t \<and> local_blobs x dir t (h, BuildCache) = local_blobs x dir u (h, BuildCache)"
    if u: "local_ok dir u" "local_blobs x dir u (h, Deploy) = None" for u
  proof -
    have "drain (events (inner (?rd Deploy))) = Inr (concat (chunks_for Deploy sends))"
      using drain_channel [OF assms(5)] by (simp add: new_HashingReader_def)
    then obtain hr t where p: "local_put_blob env x dir h Deploy (?rd Deploy) u = (Inr (), hr, t)"
      "copy_all [] (?rd Deploy) = (Inr (concat (chunks_for Deploy sends)), hr)"
      by (rule C(2) [OF u])
    from store_codec.file_put_blob [OF assms(1,2) u(1) p(1)] copy_channel [OF assms(5) p(2)] p(1) show ?thesis by auto
  qed
  show ?thesis
  proof (cases first)
    case True
    obtain hr t where r: "put_blob ?b h Deploy (?rd Deploy) s1 = (Inr (), hr, t)" "events (inner hr) = []"
      "local_ok dir t" "local_blobs x dir t (h, BuildCache) = Some c"
      using reads [OF 1(2)] 1(3) assms(6,7) by auto
    with 1(1) skip [OF r(3,4)] unread True show ?thesis
      by (auto simp: upload_demands_def Let_def demand_of_def other_format_def fun_eq_iff split: ArtifactFormat.splits)
  next
    case False
    let ?u = "s1\<lparr>tick := Suc (tick s1)\<rparr>"
    have u: "local_ok dir ?u" "local_blobs x dir ?u (h, Deploy) = None"
      using 1(2,3) assms(6) local_blobs_view [of dir ?u s1 x] by simp_all
    obtain hr t where r: "put_blob ?b h Deploy (?rd Deploy) ?u = (Inr (), hr, t)" "events (inner hr) = []"
      using reads [OF u] by blast
    have "put_blob ?b h BuildCache (?rd BuildCache) s1 = (Inr (), ?rd BuildCache, ?u)"
      using skip [OF 1(2)] 1(3) assms(7) by simp
    with r 1(1) unread False show ?thesis
      by (auto simp: upload_demands_def Let_def demand_of_def other_format_def fun_eq_iff split: ArtifactFormat.splits)
  qed
qed

text \<open>
  C26. When the cache artifact of a layer is in the files of a store but its deploy artifact is not, as
  after an upload whose deploy part failed, an upload of the layer with more cache chunks than a channel
  holds is never answered, in whatever order its chunks come and whatever the schedule: the cache part is
  skipped, nobody takes its chunks, the sorting task waits at the full channel and the deploy
  part waits for the end of its own.
\<close>

theorem leftover_cache_blocks_upload:
  assumes "store_codec x" and "env_ok env" and "no_faults env" and "local_ok dir s" and "0 < room"
    and "rust_meta x m s = (Inr lm, s)"
    and "local_blobs x dir s (content_hash lm, Deploy) = None" and "local_blobs x dir s (content_hash lm, BuildCache) = Some c"
    and "CHANNEL_CAPACITY < length (chunks_for BuildCache (demux items))"
  shows "fst (rpc_publish_layer first stop_at room x (local_backend env x dir) (Item (Some (Meta m)) # items) s) = Inl NoReply"
proof -
  have "\<not> settles (Concurrent first) CHANNEL_CAPACITY
      (upload_demands (Concurrent first) stop_at (local_backend env x dir) (content_hash lm) (channel_reader room (demux items)) s) (demux items)"
    unfolding leftover_demands [OF assms(1-5,7,8)] by (rule starved_hangs) (simp_all add: assms(9))
  then show ?thesis
    using assms(6) by (simp add: rpc_publish_layer_def publish_from_channels_def and_then_def Let_def)
qed

theorem leftover_cache_blocks_upload_witness:
  "\<exists>s. upload sample_codec (local_backend (sample_disk (\<lambda>n. None) (\<lambda>n. 0)) sample_codec sample_root) (sample_hash 2) BuildCache
       (sample_reader 6) opened_disk = (Inr (document_hash sample_codec [6, 6, 6]), s) \<and>
     fst (rpc_publish_layer True (\<lambda>f. 0) 8192 sample_codec (local_backend (sample_disk (\<lambda>n. None) (\<lambda>n. 0)) sample_codec sample_root)
       (Item (Some (Meta (proto_meta sample_codec sample_meta))) # replicate 33 (Item (Some (CacheChunk [6])))) s) = Inl NoReply"
proof -
  let ?b = "local_backend (sample_disk (\<lambda>n. None) (\<lambda>n. 0)) sample_codec sample_root"
  obtain s where s: "upload sample_codec ?b (sample_hash 2) BuildCache (sample_reader 6) opened_disk = (Inr (document_hash sample_codec [6, 6, 6]), s)"
    "local_ok sample_root s" "local_blobs sample_codec sample_root s = (local_blobs sample_codec sample_root opened_disk)((sample_hash 2, BuildCache) \<mapsto> [6, 6, 6])"
    by (rule quiet_files.upload_exact [OF sample_open_ok drain_sample, of "sample_hash 2" BuildCache "\<lambda>n. 0"]) simp_all
  have h: "content_hash sample_meta = sample_hash 2" by (simp add: sample_meta_def)
  have "length (chunks_for BuildCache (demux (replicate n (Item (Some (CacheChunk [6])))))) = n" for n
    by (induction n) (simp_all add: chunks_for_def)
  from leftover_cache_blocks_upload [OF sample_laws sample_disk_ok sample_disk_quiet s(2) _ sample.rust_meta_proto, of 8192 sample_meta "[6, 6, 6]"
      "replicate 33 (Item (Some (CacheChunk [6])))" True "\<lambda>f. 0" "\<lambda>n. 0"] s this [of 33] show ?thesis
    by (simp add: h CHANNEL_CAPACITY_def)
qed

end
